(* ===== verification/Prelude.thy ===== *)
theory Prelude
  imports Main "HOL-Library.Word" "HOL-Library.Sublist"
begin

text \<open>
  Shared vocabulary of the development: the types the sources use everywhere
  (\<open>mstring\<close>, \<open>off_t\<close>, \<open>time_t\<close>), the \<open>std::string\<close> searches the sources call
  (\<open>find\<close>, \<open>rfind\<close>, \<open>find_first_not_of\<close>, \<open>find_last_not_of\<close>, ...), character
  classification of the C locale and the decimal conversions of the C library.

  Conventions. A string is a list of bytes (\<open>char\<close>). \<open>std::string::npos\<close> is
  \<open>None\<close>. \<open>off_t\<close> and \<open>time_t\<close> are 64-bit signed in the code and are kept as \<open>int\<close>
  where no operation of the code can leave that range; where the code relies on a
  narrower type (\<open>uint16_t\<close> ports, \<open>uint8_t\<close> bytes, \<open>uint32_t\<close> accumulators) the model
  uses words. A C string is a byte list up to its first NUL.
\<close>

named_theorems find_simps "position searches on strings"
named_theorems str_simps "string helpers"

type_synonym mstring = string
type_synonym off_t = int
type_synonym time_t = int

section \<open>Searching in strings\<close>

definition find_pos :: "('a \<Rightarrow> bool) \<Rightarrow> 'a list \<Rightarrow> nat option" where
  "find_pos p s = (let i = length (takeWhile (\<lambda>x. \<not> p x) s) in if i < length s then Some i else None)"

definition rfind_pos :: "('a \<Rightarrow> bool) \<Rightarrow> 'a list \<Rightarrow> nat option" where
  "rfind_pos p s = map_option (\<lambda>i. length s - 1 - i) (find_pos p (rev s))"

definition find_pos_from :: "('a \<Rightarrow> bool) \<Rightarrow> 'a list \<Rightarrow> nat \<Rightarrow> nat option" where
  "find_pos_from p s k = map_option (\<lambda>i. k + i) (find_pos p (drop k s))"

definition find_first_not_of :: "string \<Rightarrow> string \<Rightarrow> nat option" where
  "find_first_not_of s junk = find_pos (\<lambda>c. c \<notin> set junk) s"

definition find_last_not_of :: "string \<Rightarrow> string \<Rightarrow> nat option" where
  "find_last_not_of s junk = rfind_pos (\<lambda>c. c \<notin> set junk) s"

definition find_first_of :: "string \<Rightarrow> string \<Rightarrow> nat option" where
  "find_first_of s seps = find_pos (\<lambda>c. c \<in> set seps) s"

definition find_last_of :: "string \<Rightarrow> string \<Rightarrow> nat option" where
  "find_last_of s seps = rfind_pos (\<lambda>c. c \<in> set seps) s"

definition find_chr :: "string \<Rightarrow> char \<Rightarrow> nat option" where
  "find_chr s c = find_pos (\<lambda>x. x = c) s"

definition rfind_chr :: "string \<Rightarrow> char \<Rightarrow> nat option" where
  "rfind_chr s c = rfind_pos (\<lambda>x. x = c) s"

fun find_sub :: "'a list \<Rightarrow> 'a list \<Rightarrow> nat option" where
  "find_sub pat [] = (if pat = [] then Some 0 else None)"
| "find_sub pat (x # xs) =
     (if take (length pat) (x # xs) = pat then Some 0 else map_option Suc (find_sub pat xs))"

text \<open>\<open>operator[]\<close> of \<open>std::string\<close>: reading at \<open>size()\<close> yields NUL.\<close>

definition char_at :: "string \<Rightarrow> nat \<Rightarrow> char" where
  "char_at s i = (if i < length s then s ! i else CHR 0x00)"

text \<open>The C string that starts at the first byte.\<close>

definition c_str :: "string \<Rightarrow> string" where
  "c_str s = takeWhile (\<lambda>c. c \<noteq> CHR 0x00) s"

subsection \<open>Facts about the searches\<close>

lemma find_pos_Nil [find_simps]: "find_pos p [] = None"
  by (simp add: find_pos_def)

lemma find_pos_Cons [find_simps]:
  "find_pos p (x # xs) = (if p x then Some 0 else map_option Suc (find_pos p xs))"
  by (simp add: find_pos_def Let_def)

lemma find_pos_None: "find_pos p s = None \<longleftrightarrow> (\<forall>x \<in> set s. \<not> p x)"
  by (induction s) (auto simp: find_simps)

lemma find_pos_Some:
  "find_pos p s = Some i \<longleftrightarrow> i < length s \<and> p (s ! i) \<and> (\<forall>j < i. \<not> p (s ! j))"
proof (induction s arbitrary: i)
  case Nil
  then show ?case by (simp add: find_simps)
next
  case (Cons x xs)
  then show ?case
    by (cases i) (auto simp: find_simps All_less_Suc2 nth_Cons split: nat.splits)
qed

lemma find_pos_take_drop:
  assumes "find_pos p s = Some i"
  shows "take i s = takeWhile (\<lambda>x. \<not> p x) s" "drop i s = dropWhile (\<lambda>x. \<not> p x) s"
proof -
  have i: "i = length (takeWhile (\<lambda>x. \<not> p x) s)"
    using assms by (simp add: find_pos_def Let_def split: if_splits)
  show "take i s = takeWhile (\<lambda>x. \<not> p x) s"
    unfolding i by (rule takeWhile_eq_take [symmetric])
  show "drop i s = dropWhile (\<lambda>x. \<not> p x) s"
    unfolding i by (rule dropWhile_eq_drop [symmetric])
qed

lemma find_pos_append:
  "find_pos p (xs @ ys) =
     (case find_pos p xs of Some i \<Rightarrow> Some i | None \<Rightarrow> map_option (\<lambda>i. length xs + i) (find_pos p ys))"
proof (induction xs)
  case Nil
  show ?case by (cases "find_pos p ys") (simp_all add: find_simps)
next
  case (Cons x xs)
  show ?case
  proof (cases "p x")
    case True
    then show ?thesis by (simp add: find_simps)
  next
    case False
    with Cons show ?thesis
      by (cases "find_pos p xs"; cases "find_pos p ys") (simp_all add: find_simps)
  qed
qed

lemma find_pos_lt: "find_pos p s = Some i \<Longrightarrow> i < length s"
  by (simp add: find_pos_Some)

lemma rfind_pos_None: "rfind_pos p s = None \<longleftrightarrow> (\<forall>x \<in> set s. \<not> p x)"
  by (simp add: rfind_pos_def find_pos_None)

lemma rfind_pos_snoc:
  "rfind_pos p (xs @ [x]) = (if p x then Some (length xs) else rfind_pos p xs)"
proof (cases "p x")
  case True
  then show ?thesis by (simp add: rfind_pos_def find_simps)
next
  case False
  have "\<And>i. find_pos p (rev xs) = Some i \<Longrightarrow> length xs - Suc i = length xs - 1 - i"
    by simp
  then show ?thesis
    using False by (auto simp: rfind_pos_def find_simps option.map_comp comp_def cong: option.map_cong)
qed

lemma rfind_pos_Nil [find_simps]: "rfind_pos p [] = None"
  by (simp add: rfind_pos_def find_simps)

lemma rfind_pos_Some_take:
  "rfind_pos p s = Some i \<Longrightarrow>
     i < length s \<and> p (s ! i) \<and> (\<forall>x \<in> set (drop (Suc i) s). \<not> p x)"
proof (induction s arbitrary: i rule: rev_induct)
  case Nil
  then show ?case by (simp add: find_simps)
next
  case (snoc x xs)
  show ?case
  proof (cases "p x")
    case True
    with snoc.prems show ?thesis by (auto simp: rfind_pos_snoc)
  next
    case False
    with snoc.prems have "rfind_pos p xs = Some i" by (simp add: rfind_pos_snoc)
    from snoc.IH [OF this] False show ?thesis by (auto simp: nth_append)
  qed
qed

lemma find_sub_le: "find_sub pat s = Some i \<Longrightarrow> i + length pat \<le> length s"
proof (induction pat s arbitrary: i rule: find_sub.induct)
  case (1 pat)
  then show ?case by (simp split: if_splits)
next
  case (2 pat x xs)
  show ?case
  proof (cases "take (length pat) (x # xs) = pat")
    case True
    then have "length pat \<le> length (x # xs)"
      by (metis length_take min.cobounded1)
    with True 2 show ?thesis by simp
  next
    case False
    with 2 show ?thesis by auto
  qed
qed

lemma find_sub_match:
  "find_sub pat s = Some i \<Longrightarrow> take (length pat) (drop i s) = pat"
  by (induction pat s arbitrary: i rule: find_sub.induct) (auto split: if_splits)

lemma find_sub_append_pat:
  assumes "find_sub pat s = Some i"
  shows "s = take i s @ pat @ drop (i + length pat) s"
proof -
  have "take (length pat) (drop i s) = pat" by (rule find_sub_match [OF assms])
  then have "drop i s = pat @ drop (i + length pat) s"
    by (metis append_take_drop_id drop_drop add.commute)
  then show ?thesis by (metis append_take_drop_id)
qed

section \<open>Characters of the C locale\<close>

definition isdigit :: "char \<Rightarrow> bool" where
  "isdigit c \<longleftrightarrow> 48 \<le> (of_char c :: nat) \<and> (of_char c :: nat) \<le> 57"

definition isupper :: "char \<Rightarrow> bool" where
  "isupper c \<longleftrightarrow> 65 \<le> (of_char c :: nat) \<and> (of_char c :: nat) \<le> 90"

definition islower :: "char \<Rightarrow> bool" where
  "islower c \<longleftrightarrow> 97 \<le> (of_char c :: nat) \<and> (of_char c :: nat) \<le> 122"

definition isalnum :: "char \<Rightarrow> bool" where
  "isalnum c \<longleftrightarrow> isdigit c \<or> isupper c \<or> islower c"

definition isspace :: "char \<Rightarrow> bool" where
  "isspace c \<longleftrightarrow> (of_char c :: nat) = 32 \<or> (9 \<le> (of_char c :: nat) \<and> (of_char c :: nat) \<le> 13)"

definition tolower :: "char \<Rightarrow> char" where
  "tolower c = (if isupper c then char_of (of_char c + 32 :: nat) else c)"

section \<open>Decimal numbers as the C library reads and prints them\<close>

definition digit_val :: "char \<Rightarrow> int" where
  "digit_val c = int (of_char c) - 48"

definition digits_val :: "string \<Rightarrow> int" where
  "digits_val ds = foldl (\<lambda>a c. 10 * a + digit_val c) 0 ds"

definition digit_chr :: "nat \<Rightarrow> char" where
  "digit_chr d = char_of (48 + d)"

fun nat_str :: "nat \<Rightarrow> string" where
  "nat_str n = (if n < 10 then [digit_chr n] else nat_str (n div 10) @ [digit_chr (n mod 10)])"

declare nat_str.simps [simp del]

text \<open>\<open>printf\<close> with \<open>%d\<close>, \<open>%ld\<close>, \<open>%lld\<close> on a value that fits the type.\<close>

definition int_str :: "int \<Rightarrow> string" where
  "int_str n = (if n < 0 then CHR ''-'' # nat_str (nat (- n)) else nat_str (nat n))"

text \<open>
  \<open>strtol\<close> family with base 10 on a C string: optional white space, optional sign, digits.
  The result is the value clamped to the range \<open>lo .. hi\<close> of the type and the unread rest;
  without any digit the value is 0 and nothing is consumed.
\<close>

definition strtol10 :: "int \<Rightarrow> int \<Rightarrow> string \<Rightarrow> int \<times> string" where
  "strtol10 lo hi s =
     (let s1 = dropWhile isspace s;
          neg = (case s1 of c # _ \<Rightarrow> c = CHR ''-'' | [] \<Rightarrow> False);
          s2 = (case s1 of c # r \<Rightarrow> (if c = CHR ''-'' \<or> c = CHR ''+'' then r else s1) | [] \<Rightarrow> []);
          ds = takeWhile isdigit s2
      in if ds = [] then (0, s)
         else let v = (if neg then - digits_val ds else digits_val ds)
              in (max lo (min hi v), drop (length ds) s2))"

definition LLONG_MAX :: int where "LLONG_MAX = 2 ^ 63 - 1"
definition LLONG_MIN :: int where "LLONG_MIN = - (2 ^ 63)"

text \<open>\<open>atoll\<close> and, on LP64, \<open>strtol\<close>.\<close>

definition strtoll :: "string \<Rightarrow> int \<times> string" where
  "strtoll s = strtol10 LLONG_MIN LLONG_MAX (c_str s)"

definition atoll :: "string \<Rightarrow> int" where
  "atoll s = fst (strtoll s)"

text \<open>Conversion of a \<open>long\<close> to a 32-bit \<open>int\<close>.\<close>

definition to_int32 :: "int \<Rightarrow> int" where
  "to_int32 v = sint (word_of_int v :: 32 word)"

lemma isdigit_digit_chr [simp]: "d < 10 \<Longrightarrow> isdigit (digit_chr d)"
  by (simp add: isdigit_def digit_chr_def of_char_of)

lemma digit_val_digit_chr [simp]: "d < 10 \<Longrightarrow> digit_val (digit_chr d) = int d"
  by (simp add: digit_val_def digit_chr_def of_char_of)

lemma digits_val_snoc [simp]: "digits_val (ds @ [c]) = 10 * digits_val ds + digit_val c"
  by (simp add: digits_val_def)

lemma digits_val_nat_str [simp]: "digits_val (nat_str n) = int n"
proof (induction n rule: nat_str.induct)
  case (1 n)
  show ?case
  proof (cases "n < 10")
    case True
    then show ?thesis by (simp add: nat_str.simps [of n] digits_val_def)
  next
    case False
    have "10 * int (n div 10) + int (n mod 10) = int n"
      by (metis mult_div_mod_eq of_nat_add of_nat_mult of_nat_numeral)
    with False 1 show ?thesis by (simp add: nat_str.simps [of n])
  qed
qed

lemma nat_str_digits: "\<forall>c \<in> set (nat_str n). isdigit c"
proof (induction n rule: nat_str.induct)
  case (1 n)
  then show ?case by (cases "n < 10") (auto simp: nat_str.simps [of n])
qed

lemma nat_str_nonempty [simp]: "nat_str n \<noteq> []"
  by (subst nat_str.simps) simp

lemma digit_not_space: "isdigit c \<Longrightarrow> \<not> isspace c"
  by (auto simp: isdigit_def isspace_def)

lemma digit_not_special:
  assumes "isdigit c"
  shows "c \<noteq> CHR ''-''" "c \<noteq> CHR ''+''" "c \<noteq> CHR 0x00" "c \<noteq> CHR 0x0D" "c \<noteq> CHR 0x0A"
  using assms by (auto simp: isdigit_def)

lemma takeWhile_digits_append:
  assumes "\<forall>c \<in> set ds. isdigit c" and "rest = [] \<or> \<not> isdigit (hd rest)"
  shows "takeWhile isdigit (ds @ rest) = ds"
  using assms by (induction ds) (auto, cases rest, auto)

lemma strtol10_nat_str:
  assumes "rest = [] \<or> \<not> isdigit (hd rest)" and "int n \<le> hi" and "lo \<le> int n"
  shows "strtol10 lo hi (nat_str n @ rest) = (int n, rest)"
proof -
  obtain c cs where nz: "nat_str n = c # cs" by (metis nat_str_nonempty neq_Nil_conv)
  have dig: "isdigit c" using nat_str_digits [of n] nz by simp
  have "dropWhile isspace (nat_str n @ rest) = nat_str n @ rest"
    using dig by (simp add: nz digit_not_space)
  moreover have "takeWhile isdigit (nat_str n @ rest) = nat_str n"
    by (rule takeWhile_digits_append [OF nat_str_digits assms(1)])
  moreover have "c \<noteq> CHR ''-''" "c \<noteq> CHR ''+''" using digit_not_special [OF dig] by simp_all
  moreover have "digits_val (c # cs) = int n" using digits_val_nat_str [of n] nz by simp
  ultimately show ?thesis
    using assms(2,3) by (simp add: strtol10_def Let_def nz)
qed

section \<open>Further facts\<close>



lemma rfind_pos_split:
  "p x \<Longrightarrow> \<forall>y \<in> set ys. \<not> p y \<Longrightarrow> rfind_pos p (xs @ x # ys) = Some (length xs)"
proof (induction ys rule: rev_induct)
  case Nil
  then show ?case by (simp add: rfind_pos_snoc)
next
  case (snoc y ys)
  then show ?case using rfind_pos_snoc [of p "xs @ x # ys" y] by simp
qed

lemma find_pos_split:
  "p x \<Longrightarrow> \<forall>y \<in> set xs. \<not> p y \<Longrightarrow> find_pos p (xs @ x # ys) = Some (length xs)"
  by (induction xs) (auto simp: find_simps)

lemma c_str_id: "CHR 0x00 \<notin> set s \<Longrightarrow> c_str s = s"
  by (auto simp: c_str_def takeWhile_eq_all_conv)

lemma c_str_append: "CHR 0x00 \<notin> set s \<Longrightarrow> c_str (s @ t) = s @ c_str t"
  unfolding c_str_def by (rule takeWhile_append2) auto

lemma length_nat_str: "n < 10 ^ Suc k \<Longrightarrow> length (nat_str n) \<le> Suc k"
proof (induction k arbitrary: n)
  case 0
  then show ?case by (simp add: nat_str.simps)
next
  case (Suc k)
  show ?case
  proof (cases "n < 10")
    case True
    then show ?thesis by (simp add: nat_str.simps)
  next
    case False
    have "n div 10 < 10 ^ Suc k" using Suc.prems by (simp add: div_less_iff_less_mult mult.commute)
    then have "length (nat_str (n div 10)) \<le> Suc k" by (rule Suc.IH)
    with False show ?thesis by (subst nat_str.simps) simp
  qed
qed

lemma atoll_nat_str: "n < 2 ^ 63 \<Longrightarrow> atoll (nat_str n) = int n"
proof -
  assume n: "n < 2 ^ 63"
  have "CHR 0x00 \<notin> set (nat_str n)" using nat_str_digits [of n] by (auto simp: isdigit_def)
  then have "c_str (nat_str n) = nat_str n" by (rule c_str_id)
  moreover have "int n < int (2 ^ 63)" using n by (simp only: of_nat_less_iff)
  ultimately show ?thesis
    using strtol10_nat_str [of "[]" n LLONG_MAX LLONG_MIN]
    by (simp add: atoll_def strtoll_def LLONG_MAX_def LLONG_MIN_def)
qed

lemma to_int32_small: "0 \<le> v \<Longrightarrow> v < 2 ^ 31 \<Longrightarrow> to_int32 v = v"
  by (simp add: to_int32_def sint_sbintrunc' signed_take_bit_int_eq_self)

end
