(* ===== verification/Strings.thy ===== *)
theory Strings
  imports Prelude
begin

text \<open>
  \<open>src/astrop.h\<close> and \<open>src/astrop.cc\<close>: trimming, prefix and suffix tests, the splitting
  iterator \<open>tSplitWalkBase\<close> with its template flags, case-insensitive comparison and the
  small C string helpers. \<open>split_by_str\<close> and \<open>fields\<close> are the reference semantics of the
  iterator: the list of slices a complete run produces.
\<close>

section \<open>Prefixes, suffixes, trimming\<close>

definition startsWith :: "string \<Rightarrow> string \<Rightarrow> bool" where
  "startsWith s what \<longleftrightarrow> take (length what) s = what"

definition endsWith :: "string \<Rightarrow> string \<Rightarrow> bool" where
  "endsWith s what \<longleftrightarrow> length what \<le> length s \<and> drop (length s - length what) s = what"

definition SPACECHARS :: string where
  "SPACECHARS = [CHR 0x20, CHR 0x0C, CHR 0x0A, CHR 0x0D, CHR 0x09, CHR 0x0B]"

text \<open>The \<open>std::string\<close> overloads.\<close>

definition trimFront_str :: "string \<Rightarrow> string \<Rightarrow> string" where
  "trimFront_str s junk =
     (case find_first_not_of s junk of
        None \<Rightarrow> []
      | Some pos \<Rightarrow> if pos > 0 then drop pos s else s)"

definition trimBack_str :: "string \<Rightarrow> string \<Rightarrow> string" where
  "trimBack_str s junk =
     (case find_last_not_of s junk of
        None \<Rightarrow> []
      | Some pos \<Rightarrow> if pos > 0 then take (pos + 1) s else s)"

text \<open>The \<open>string_view\<close> overloads.\<close>

definition trimFront :: "string \<Rightarrow> string \<Rightarrow> string" where
  "trimFront s junk =
     drop (case find_first_not_of s junk of None \<Rightarrow> length s | Some pos \<Rightarrow> pos) s"

definition trimBack :: "string \<Rightarrow> string \<Rightarrow> string" where
  "trimBack s junk =
     take (length s - (case find_last_not_of s junk of Some pos \<Rightarrow> length s - pos - 1
                                                     | None \<Rightarrow> length s)) s"

definition trimBoth :: "string \<Rightarrow> string \<Rightarrow> string" where
  "trimBoth s junk = trimFront (trimBack s junk) junk"

section \<open>The splitting iterator\<close>

record split_walk =
  sw_input :: string
  sw_slice_len :: nat
  sw_seps :: string
  sw_first :: bool

definition split_walk_init :: "string \<Rightarrow> string \<Rightarrow> split_walk" where
  "split_walk_init line seps =
     \<lparr>sw_input = line, sw_slice_len = 0, sw_seps = seps, sw_first = True\<rparr>"

text \<open>
  \<open>while (startsWith(m_input, m_seps)) m_input.remove_prefix(m_seps.length())\<close>. The loop
  does not end for an empty separator; no user of the class passes one.
\<close>

function skip_seps :: "string \<Rightarrow> string \<Rightarrow> string" where
  "skip_seps seps s =
     (if seps \<noteq> [] \<and> s \<noteq> [] \<and> startsWith s seps then skip_seps seps (drop (length seps) s) else s)"
  by pat_completeness auto
termination
  by (relation "measure (\<lambda>(seps, s). length s)") auto

declare skip_seps.simps [simp del]

text \<open>\<open>tSplitWalkBase<bystr, strict>::Next\<close>: the result and the new iterator state.\<close>

definition Next :: "bool \<Rightarrow> bool \<Rightarrow> split_walk \<Rightarrow> bool \<times> split_walk" where
  "Next bystr strict w =
     (if length (sw_input w) = sw_slice_len w then (False, w)
      else
        let inp = drop (sw_slice_len w) (sw_input w);
            seps = sw_seps w;
            inp2 = (if bystr then
                      (if strict then (if sw_first w then inp else drop (length seps) inp)
                       else skip_seps seps inp)
                    else
                      (if strict then (if sw_first w then inp else drop 1 inp)
                       else trimFront inp seps));
            w2 = w\<lparr>sw_input := inp2, sw_first := (if strict then False else sw_first w)\<rparr>
        in if \<not> strict \<and> inp2 = [] then (False, w2)
           else let len = (case (if bystr then find_sub seps inp2 else find_first_of inp2 seps) of
                             None \<Rightarrow> length inp2 | Some i \<Rightarrow> i)
                in (True, w2\<lparr>sw_slice_len := len\<rparr>))"

definition sw_view :: "split_walk \<Rightarrow> string" where
  "sw_view w = take (sw_slice_len w) (sw_input w)"

text \<open>
  \<open>right()\<close> for the character-set variants. In the non-strict variant \<open>m_first\<close> is never
  cleared, so no separator is removed before the remainder is trimmed.
\<close>

definition sw_right :: "bool \<Rightarrow> split_walk \<Rightarrow> string" where
  "sw_right strict w =
     (if length (sw_input w) = sw_slice_len w then []
      else let ret = drop (sw_slice_len w) (sw_input w);
               ret2 = (if \<not> sw_first w \<and> ret \<noteq> [] then drop 1 ret else ret)
           in if strict then ret2 else trimBoth ret2 (sw_seps w))"

text \<open>
  Range-based iteration and \<open>to_vector\<close>: the slices of successive calls of \<open>Next\<close>. The
  fuel bounds the number of calls; \<open>to_vector\<close> supplies more than any run needs.
\<close>

fun walk_slices :: "nat \<Rightarrow> bool \<Rightarrow> bool \<Rightarrow> split_walk \<Rightarrow> string list" where
  "walk_slices 0 bystr strict w = []"
| "walk_slices (Suc n) bystr strict w =
     (case Next bystr strict w of
        (False, _) \<Rightarrow> []
      | (True, w') \<Rightarrow> sw_view w' # walk_slices n bystr strict w')"

definition to_vector :: "bool \<Rightarrow> bool \<Rightarrow> string \<Rightarrow> string \<Rightarrow> string list" where
  "to_vector bystr strict line seps =
     walk_slices (length line + 2) bystr strict (split_walk_init line seps)"

section \<open>Reference semantics of the iterator\<close>

text \<open>All slices between occurrences of a separator string, with the offset of each.\<close>

function split_by_str :: "string \<Rightarrow> nat \<Rightarrow> string \<Rightarrow> (nat \<times> string) list" where
  "split_by_str seps off s =
     (case find_sub seps s of
        None \<Rightarrow> [(off, s)]
      | Some i \<Rightarrow>
          if seps = [] then [(off, s)]
          else (off, take i s) #
               split_by_str seps (off + i + length seps) (drop (i + length seps) s))"
  by pat_completeness auto
termination
proof (relation "measure (\<lambda>(seps, off, s). length s)")
  fix seps :: string and off :: nat and s :: string and i
  assume "find_sub seps s = Some i" and "seps \<noteq> []"
  then have "i + length seps \<le> length s" "0 < length seps" using find_sub_le by auto
  then show "((seps, off + i + length seps, drop (i + length seps) s), seps, off, s)
        \<in> measure (\<lambda>(seps, off, s). length s)" by (cases seps) auto
qed simp

declare split_by_str.simps [simp del]

text \<open>The maximal runs of non-separator characters.\<close>

function fields :: "string \<Rightarrow> string \<Rightarrow> string list" where
  "fields seps s =
     (let t = dropWhile (\<lambda>c. c \<in> set seps) s in
      if t = [] then []
      else takeWhile (\<lambda>c. c \<notin> set seps) t # fields seps (dropWhile (\<lambda>c. c \<notin> set seps) t))"
  by pat_completeness auto
termination
proof (relation "measure (\<lambda>(seps, s). length s)")
  fix seps s and t :: string
  assume t: "t = dropWhile (\<lambda>c. c \<in> set seps) s" and ne: "t \<noteq> []"
  then have "hd t \<notin> set seps" using hd_dropWhile by metis
  then have "length (dropWhile (\<lambda>c. c \<notin> set seps) t) < length t"
    using ne by (cases t) (auto simp: le_imp_less_Suc length_dropWhile_le)
  moreover have "length t \<le> length s" unfolding t by (rule length_dropWhile_le)
  ultimately show "((seps, dropWhile (\<lambda>c. c \<notin> set seps) t), seps, s)
      \<in> measure (\<lambda>(seps, s). length s)" by simp
qed simp

declare fields.simps [simp del]

section \<open>C string helpers\<close>

definition strncasecmp_eq :: "string \<Rightarrow> string \<Rightarrow> nat \<Rightarrow> bool" where
  "strncasecmp_eq a b n \<longleftrightarrow> map tolower (take n (c_str a)) = map tolower (take n (c_str b))"

text \<open>\<open>strcasecmp\<close> on views, compared with 0.\<close>

definition strcasecmp_eq :: "string \<Rightarrow> string \<Rightarrow> bool" where
  "strcasecmp_eq a b \<longleftrightarrow> length a = length b \<and> strncasecmp_eq a b (length a)"

definition scaseequals :: "string \<Rightarrow> string \<Rightarrow> bool" where
  "scaseequals a b \<longleftrightarrow> length b = length a \<and> (\<forall>i < length a. tolower (a ! i) = tolower (b ! i))"

definition PathCombine :: "string \<Rightarrow> string \<Rightarrow> string" where
  "PathCombine a b = trimBack a ''/'' @ ''/'' @ trimFront b ''/''"

text \<open>
  \<open>strappend\<close> starts with \<open>strlen(p)\<close>; on a null pointer this faults. \<open>None\<close> as the
  result stands for that fault, allocation failure is not modelled.
\<close>

definition strappend :: "string option \<Rightarrow> string \<Rightarrow> string \<Rightarrow> string option" where
  "strappend p appendix app2 = map_option (\<lambda>s. c_str (s @ appendix @ app2)) p"

text \<open>
  \<open>svtol\<close>: \<open>strtol\<close> runs on the bytes behind the view, not only on the view. The argument is
  the C string that starts at the view's data pointer.
\<close>

definition svtol :: "string \<Rightarrow> int \<Rightarrow> int" where
  "svtol mem errorValue =
     (case strtoll mem of (val, rest) \<Rightarrow> if rest = [] then errorValue else val)"

section \<open>Trimming: what the overloads compute\<close>

lemma dropWhile_find_first_not_of:
  "drop (case find_first_not_of s junk of None \<Rightarrow> length s | Some pos \<Rightarrow> pos) s =
     dropWhile (\<lambda>c. c \<in> set junk) s"
proof (cases "find_first_not_of s junk")
  case None
  then have "\<forall>x \<in> set s. x \<in> set junk" by (simp add: find_first_not_of_def find_pos_None)
  then have "dropWhile (\<lambda>c. c \<in> set junk) s = []" by simp
  with None show ?thesis by (simp del: dropWhile_eq_Nil_conv)
next
  case (Some i)
  then have "drop i s = dropWhile (\<lambda>c. c \<in> set junk) s"
    using find_pos_take_drop(2) by (fastforce simp: find_first_not_of_def)
  with Some show ?thesis by simp
qed

lemma trimFront_dropWhile [str_simps]: "trimFront s junk = dropWhile (\<lambda>c. c \<in> set junk) s"
  unfolding trimFront_def by (rule dropWhile_find_first_not_of)

lemma trimFront_str_eq [str_simps]: "trimFront_str s junk = trimFront s junk"
  by (auto simp: trimFront_str_def trimFront_def split: option.splits)

lemma trimBack_rev [str_simps]: "trimBack s junk = rev (dropWhile (\<lambda>c. c \<in> set junk) (rev s))"
proof -
  have d: "drop (case find_first_not_of (rev s) junk of None \<Rightarrow> length s | Some pos \<Rightarrow> pos) (rev s) =
     dropWhile (\<lambda>c. c \<in> set junk) (rev s)"
    using dropWhile_find_first_not_of [of "rev s" junk] by (simp only: length_rev)
  show ?thesis
  proof (cases "find_first_not_of (rev s) junk")
    case None
    with d show ?thesis
      by (simp add: trimBack_def find_last_not_of_def find_first_not_of_def rfind_pos_def)
  next
    case (Some i)
    then have "i < length s" using find_pos_lt by (fastforce simp: find_first_not_of_def)
    moreover have "take (length s - i) s = rev (drop i (rev s))" by (simp add: drop_rev)
    ultimately show ?thesis
      using Some d by (simp add: trimBack_def find_last_not_of_def find_first_not_of_def rfind_pos_def)
  qed
qed

text \<open>
  The \<open>std::string\<close> overload of \<open>trimBack\<close> agrees with the view overload except when the only
  character to keep is the first one: then it leaves the trailing junk in place.
\<close>

lemma trimBack_str_eq:
  "trimBack_str s junk =
     (if find_last_not_of s junk = Some 0 then s else trimBack s junk)"
proof (cases "find_last_not_of s junk")
  case None
  then show ?thesis by (simp add: trimBack_str_def trimBack_def)
next
  case (Some i)
  then have "i < length s" using rfind_pos_Some_take by (fastforce simp: find_last_not_of_def)
  then have "length s - (length s - i - 1) = i + 1" by simp
  with Some show ?thesis by (simp add: trimBack_str_def trimBack_def)
qed

lemma trimBoth_Nil_iff: "trimBoth s junk = [] \<longleftrightarrow> set s \<subseteq> set junk"
proof
  assume *: "set s \<subseteq> set junk"
  then have "dropWhile (\<lambda>c. c \<in> set junk) (rev s) = []" by auto
  then show "trimBoth s junk = []"
    by (simp add: trimBoth_def str_simps del: dropWhile_eq_Nil_conv)
next
  assume "trimBoth s junk = []"
  then have a: "\<forall>x \<in> set (dropWhile (\<lambda>c. c \<in> set junk) (rev s)). x \<in> set junk"
    by (simp only: trimBoth_def trimFront_dropWhile trimBack_rev dropWhile_eq_Nil_conv set_rev)
  have "set (rev s) = set (takeWhile (\<lambda>c. c \<in> set junk) (rev s) @ dropWhile (\<lambda>c. c \<in> set junk) (rev s))"
    by (simp only: takeWhile_dropWhile_id)
  then have "\<forall>x \<in> set (rev s). x \<in> set junk"
    using a by (auto simp only: set_append Un_iff dest: set_takeWhileD)
  then show "set s \<subseteq> set junk" by auto
qed

section \<open>The iterator produces the reference slices\<close>

fun join :: "string \<Rightarrow> string list \<Rightarrow> string" where
  "join sep [] = []"
| "join sep [x] = x"
| "join sep (x # y # zs) = x @ sep @ join sep (y # zs)"

lemma join_Cons: "zs \<noteq> [] \<Longrightarrow> join sep (x # zs) = x @ sep @ join sep zs"
  by (cases zs) simp_all

lemma split_by_str_nonempty [simp]: "split_by_str seps off s \<noteq> []"
  by (subst split_by_str.simps) (simp split: option.splits)

lemma split_by_str_None:
  "find_sub seps s = None \<Longrightarrow> split_by_str seps off s = [(off, s)]"
  by (subst split_by_str.simps) simp

lemma split_by_str_Some:
  "find_sub seps s = Some i \<Longrightarrow> seps \<noteq> [] \<Longrightarrow>
     split_by_str seps off s =
       (off, take i s) # split_by_str seps (off + i + length seps) (drop (i + length seps) s)"
  by (subst split_by_str.simps) simp

lemma join_split_by_str: "seps \<noteq> [] \<Longrightarrow> join seps (map snd (split_by_str seps off s)) = s"
proof (induction seps off s rule: split_by_str.induct)
  case (1 seps off s)
  show ?case
  proof (cases "find_sub seps s")
    case None
    then show ?thesis by (simp add: split_by_str_None)
  next
    case (Some i)
    with 1 have "join seps (map snd (split_by_str seps (off + i + length seps)
        (drop (i + length seps) s))) = drop (i + length seps) s" by simp
    then show ?thesis
      using Some 1(2) find_sub_append_pat [OF Some] by (simp add: split_by_str_Some join_Cons)
  qed
qed

lemma find_sub_None_iff: "find_sub pat s = None \<longleftrightarrow> (\<forall>k. take (length pat) (drop k s) \<noteq> pat)"
proof (induction pat s rule: find_sub.induct)
  case (1 pat)
  then show ?case by simp
next
  case (2 pat x xs)
  have "(\<forall>k. take (length pat) (drop k (x # xs)) \<noteq> pat) \<longleftrightarrow>
      take (length pat) (x # xs) \<noteq> pat \<and> (\<forall>k. take (length pat) (drop k xs) \<noteq> pat)"
    by (metis drop_0 drop_Suc_Cons not0_implies_Suc)
  with 2 show ?case by auto
qed

lemma find_sub_take:
  "find_sub pat s = Some i \<Longrightarrow> pat \<noteq> [] \<Longrightarrow> find_sub pat (take i s) = None"
proof (induction pat s arbitrary: i rule: find_sub.induct)
  case (1 pat)
  then show ?case by simp
next
  case (2 pat x xs)
  show ?case
  proof (cases i)
    case 0
    with 2(3) show ?thesis by simp
  next
    case (Suc j)
    with 2(2) have ne: "take (length pat) (x # xs) \<noteq> pat" and j: "find_sub pat xs = Some j"
      by (auto split: if_splits)
    have IH: "find_sub pat (take j xs) = None" by (rule 2(1) [OF ne j 2(3)])
    have "take (length pat) (x # take j xs) \<noteq> pat"
    proof
      assume *: "take (length pat) (x # take j xs) = pat"
      from arg_cong [OF this, of length] have "length pat \<le> Suc j"
        by (simp add: min_def split: if_splits)
      then have "take (length pat) (take (Suc j) (x # xs)) = take (length pat) (x # xs)"
        by (simp only: take_take min.absorb1)
      with * ne show False by simp
    qed
    with IH Suc show ?thesis by simp
  qed
qed

lemma split_by_str_slices_clean:
  "seps \<noteq> [] \<Longrightarrow> (o1, v) \<in> set (split_by_str seps off s) \<Longrightarrow> find_sub seps v = None"
proof (induction seps off s rule: split_by_str.induct)
  case (1 seps off s)
  show ?case
  proof (cases "find_sub seps s")
    case None
    with 1(3) show ?thesis by (simp add: split_by_str_None)
  next
    case (Some i)
    with 1 show ?thesis by (auto simp: split_by_str_Some find_sub_take)
  qed
qed

lemma split_by_str_offset:
  "seps \<noteq> [] \<Longrightarrow> (o1, v) \<in> set (split_by_str seps off s) \<Longrightarrow>
     off \<le> o1 \<and> o1 + length v \<le> off + length s \<and> take (length v) (drop (o1 - off) s) = v"
proof (induction seps off s rule: split_by_str.induct)
  case (1 seps off s)
  show ?case
  proof (cases "find_sub seps s")
    case None
    with 1(3) show ?thesis by (simp add: split_by_str_None)
  next
    case (Some i)
    let ?r = "drop (i + length seps) s"
    have le: "i + length seps \<le> length s" by (rule find_sub_le [OF Some])
    from 1(3) Some 1(2) consider "(o1, v) = (off, take i s)"
      | "(o1, v) \<in> set (split_by_str seps (off + i + length seps) ?r)"
      by (auto simp: split_by_str_Some)
    then show ?thesis
    proof cases
      case 1
      with le show ?thesis by auto
    next
      case 2
      have *: "off + i + length seps \<le> o1 \<and> o1 + length v \<le> off + i + length seps + length ?r \<and>
          take (length v) (drop (o1 - (off + i + length seps)) ?r) = v"
        using 1(1) [OF Some 1(2) 1(2) 2] .
      moreover have "drop (o1 - (off + i + length seps)) ?r = drop (o1 - off) s"
        using * by simp
      ultimately show ?thesis using le by auto
    qed
  qed
qed

lemma walk_by_str_strict:
  assumes "seps \<noteq> []" and "length (sw_input w) < n" and "\<not> sw_first w" and "sw_seps w = seps"
    and "sw_slice_len w = (case find_sub seps (sw_input w) of None \<Rightarrow> length (sw_input w) | Some i \<Rightarrow> i)"
  shows "walk_slices n True True w = map snd (tl (split_by_str seps off (sw_input w)))"
  using assms
proof (induction n arbitrary: w off)
  case 0
  then show ?case by simp
next
  case (Suc n)
  show ?case
  proof (cases "find_sub seps (sw_input w)")
    case None
    with Suc.prems show ?thesis by (simp add: Next_def split_by_str_None)
  next
    case (Some i)
    let ?r = "drop (i + length seps) (sw_input w)"
    let ?l = "case find_sub seps ?r of None \<Rightarrow> length ?r | Some i \<Rightarrow> i"
    let ?w = "w\<lparr>sw_input := ?r, sw_first := False, sw_slice_len := ?l\<rparr>"
    have le: "i + length seps \<le> length (sw_input w)" by (rule find_sub_le [OF Some])
    have pos: "0 < length seps" using Suc.prems(1) by simp
    have ne: "length (sw_input w) \<noteq> i" using le pos by linarith
    have step: "Next True True w = (True, ?w)"
      using Some Suc.prems ne
      by (simp add: Next_def Let_def add.commute split: option.splits)
    have len: "length ?r < n" using le pos Suc.prems(2) by (simp del: length_greater_0_conv)
    have IH: "walk_slices n True True ?w =
        map snd (tl (split_by_str seps (off + i + length seps) (sw_input ?w)))"
      using len Suc.prems(1,3,4) by (intro Suc.IH) (simp_all split: option.splits)
    have hd: "sw_view ?w = snd (hd (split_by_str seps (off + i + length seps) ?r))"
      using Suc.prems(1)
      by (cases "find_sub seps ?r") (simp_all add: sw_view_def split_by_str_None split_by_str_Some)
    have "snd (hd (split_by_str seps (off + i + length seps) ?r)) #
        map snd (tl (split_by_str seps (off + i + length seps) ?r)) =
        map snd (split_by_str seps (off + i + length seps) ?r)"
      using split_by_str_nonempty by (metis list.collapse list.simps(9))
    with IH hd show ?thesis using step Some Suc.prems(1) by (simp add: split_by_str_Some)
  qed
qed

lemma to_vector_by_str_strict:
  assumes "seps \<noteq> []"
  shows "to_vector True True line seps =
     (if line = [] then [] else map snd (split_by_str seps 0 line))"
proof (cases "line = []")
  case True
  then show ?thesis by (simp add: to_vector_def split_walk_init_def Next_def)
next
  case False
  let ?l = "case find_sub seps line of None \<Rightarrow> length line | Some i \<Rightarrow> i"
  let ?w = "\<lparr>sw_input = line, sw_slice_len = ?l, sw_seps = seps, sw_first = False\<rparr>"
  have step: "Next True True (split_walk_init line seps) = (True, ?w)"
    using False by (simp add: Next_def split_walk_init_def Let_def split: option.splits)
  have "walk_slices (length line + 1) True True ?w = map snd (tl (split_by_str seps 0 (sw_input ?w)))"
    using assms by (intro walk_by_str_strict) (simp_all split: option.splits)
  moreover have "sw_view ?w = snd (hd (split_by_str seps 0 line))"
    using assms by (cases "find_sub seps line")
      (simp_all add: sw_view_def split_by_str_None split_by_str_Some)
  moreover have "snd (hd (split_by_str seps 0 line)) # map snd (tl (split_by_str seps 0 line)) =
      map snd (split_by_str seps 0 line)"
    using split_by_str_nonempty by (metis list.collapse list.simps(9))
  ultimately show ?thesis using step False by (simp add: to_vector_def)
qed

lemma find_first_of_takeWhile:
  "(case find_first_of s seps of None \<Rightarrow> length s | Some i \<Rightarrow> i) =
     length (takeWhile (\<lambda>c. c \<notin> set seps) s)"
  by (induction s) (auto simp: find_first_of_def find_simps split: option.splits)

lemma walk_fields:
  assumes "length (drop (sw_slice_len w) (sw_input w)) < n" and "sw_seps w = seps"
  shows "walk_slices n False False w = fields seps (drop (sw_slice_len w) (sw_input w))"
  using assms
proof (induction n arbitrary: w)
  case 0
  then show ?case by simp
next
  case (Suc n)
  let ?s = "drop (sw_slice_len w) (sw_input w)"
  let ?t = "dropWhile (\<lambda>c. c \<in> set seps) ?s"
  let ?k = "length (takeWhile (\<lambda>c. c \<notin> set seps) ?t)"
  show ?case
  proof (cases "?t = []")
    case True
    then show ?thesis
      using Suc.prems(2)
      by (subst fields.simps) (auto simp: Next_def Let_def trimFront_dropWhile)
  next
    case False
    then have ne: "length (sw_input w) \<noteq> sw_slice_len w" by auto
    let ?w = "w\<lparr>sw_input := ?t, sw_slice_len := ?k\<rparr>"
    have step: "Next False False w = (True, ?w)"
      using False ne Suc.prems(2)
      by (simp add: Next_def Let_def trimFront_dropWhile find_first_of_takeWhile)
    have "hd ?t \<notin> set seps" using False hd_dropWhile by metis
    then have "0 < ?k" using False by (cases ?t) auto
    moreover have "length ?t \<le> length ?s" by (rule length_dropWhile_le)
    ultimately have len: "length (drop ?k ?t) < n" using Suc.prems(1) False by (cases ?t) auto
    have "drop ?k ?t = dropWhile (\<lambda>c. c \<notin> set seps) ?t" by (rule dropWhile_eq_drop [symmetric])
    moreover have "walk_slices n False False ?w = fields seps (drop (sw_slice_len ?w) (sw_input ?w))"
      using len Suc.prems(2) by (intro Suc.IH) simp_all
    moreover have "sw_view ?w = takeWhile (\<lambda>c. c \<notin> set seps) ?t"
      by (simp add: sw_view_def takeWhile_eq_take [symmetric])
    ultimately show ?thesis
      using step False by (subst fields.simps) (simp add: Let_def)
  qed
qed

lemma to_vector_fields: "to_vector False False line seps = fields seps line"
  unfolding to_vector_def
  using walk_fields [of "split_walk_init line seps" "length line + 2" seps]
  by (simp add: split_walk_init_def)

lemma trimBack_str_id: "s \<noteq> [] \<Longrightarrow> last s \<notin> set junk \<Longrightarrow> trimBack_str s junk = s"
proof -
  assume "s \<noteq> []" "last s \<notin> set junk"
  then obtain xs x where s: "s = xs @ [x]" and x: "x \<notin> set junk"
    by (metis append_butlast_last_id)
  then have "find_last_not_of s junk = Some (length xs)"
    by (simp add: find_last_not_of_def rfind_pos_snoc)
  then show ?thesis by (simp add: trimBack_str_def s)
qed

lemma trimFront_str_id: "s \<noteq> [] \<Longrightarrow> hd s \<notin> set junk \<Longrightarrow> trimFront_str s junk = s"
  by (cases s) (simp_all add: str_simps)

section \<open>Properties\<close>

text \<open>
  The two overloads of \<open>trimBack\<close> agree except on one kind of input: when the only
  character that is not junk is the first one, the \<open>std::string\<close> overload leaves the trailing
  junk in place.
\<close>

theorem trimBack_overloads:
  "trimBack_str s junk = trimBack s junk \<longleftrightarrow>
     \<not> (length s > 1 \<and> find_last_not_of s junk = Some 0)"
proof (cases "find_last_not_of s junk = Some 0")
  case True
  then have "trimBack_str s junk = s" "trimBack s junk = take 1 s"
    by (cases s; simp add: trimBack_str_def trimBack_def)+
  moreover have "s = take 1 s \<longleftrightarrow> length s \<le> 1"
    by (metis One_nat_def length_take min.cobounded2 take_all_iff)
  ultimately show ?thesis using True by auto
next
  case False
  then show ?thesis by (simp add: trimBack_str_eq)
qed

text \<open>
  Splitting by a separator string in strict mode (as the header parser does with CRLF)
  is lossless: the slices of a complete run of the iterator, joined by the separator, give the
  input back, no slice contains the separator, and a non-empty input has at least one slice.
\<close>

theorem split_strict_lossless:
  assumes "seps \<noteq> []" and "line \<noteq> []"
  shows "join seps (to_vector True True line seps) = line \<and>
    (\<forall>v \<in> set (to_vector True True line seps). find_sub seps v = None) \<and>
    to_vector True True line seps \<noteq> []"
proof -
  have v: "to_vector True True line seps = map snd (split_by_str seps 0 line)"
    using assms by (simp add: to_vector_by_str_strict)
  then have "\<forall>v \<in> set (to_vector True True line seps). find_sub seps v = None"
    using split_by_str_slices_clean [OF assms(1)] by auto
  with v show ?thesis using join_split_by_str [OF assms(1)] by simp
qed

theorem split_strict_lossless_witness:
  "join ''!!'' (to_vector True True ''!!as!!!df!!gh'' ''!!'') = ''!!as!!!df!!gh''"
  using split_strict_lossless [of "''!!''" "''!!as!!!df!!gh''"] by simp

end
