(* ===== verification/Meta.thy ===== *)
theory Meta
  imports Strings
begin

unbundle bit_operations_syntax

text \<open>
  \<open>src/meta.cc\<close>: path helpers, tokenizing, key-value lines, hexadecimal and base64
  conversion, URL and user-info escaping, number formatting, escapes of the report pages.
\<close>

section \<open>Path helpers and line parsing\<close>

definition GetBaseName :: "string \<Rightarrow> string" where
  "GetBaseName s =
     (if s = [] then []
      else case rfind_pos (\<lambda>c. c \<noteq> CHR ''/'') s of
        None \<Rightarrow> ''/''
      | Some e \<Rightarrow>
          let st = (case rfind_chr (take (e + 1) s) (CHR ''/'') of None \<Rightarrow> 0 | Some i \<Rightarrow> i)
          in take (e + 1 - st) (drop st s))"

definition GetDirPart :: "string \<Rightarrow> string" where
  "GetDirPart s =
     (if s = [] then []
      else case rfind_chr s (CHR ''/'') of None \<Rightarrow> [] | Some e \<Rightarrow> take (e + 1) s)"

definition SplitDirPath :: "string \<Rightarrow> string \<times> string" where
  "SplitDirPath s = (let dir = GetDirPart s in (dir, drop (length dir) s))"

definition GetTypeSuffix :: "string \<Rightarrow> string" where
  "GetTypeSuffix s = (case find_last_of s ''/.'' of None \<Rightarrow> [] | Some p \<Rightarrow> c_str (drop p s))"

text \<open>
  \<open>Tokenize\<close>: the loop over \<open>pos\<close>. Both searches start at \<open>pos\<close>; the next round starts
  one behind the separator that ended the token.
\<close>

function Tokenize_loop :: "string \<Rightarrow> string \<Rightarrow> nat \<Rightarrow> string list \<Rightarrow> string list" where
  "Tokenize_loop s sep pos out =
     (if pos < length s then
        (case find_pos_from (\<lambda>c. c \<notin> set sep) s pos of
           None \<Rightarrow> out
         | Some p \<Rightarrow>
             let p2 = (case find_pos_from (\<lambda>c. c \<in> set sep) s p of None \<Rightarrow> length s | Some q \<Rightarrow> q)
             in Tokenize_loop s sep (p2 + 1) (out @ [take (p2 - p) (drop p s)]))
      else out)"
  by pat_completeness auto
termination
  by (relation "measure (\<lambda>(s, sep, pos, out). length s - pos)")
    (auto simp: find_pos_from_def split: option.splits)

declare Tokenize_loop.simps [simp del]

definition Tokenize :: "string \<Rightarrow> string \<Rightarrow> string list \<Rightarrow> bool \<Rightarrow> nat \<Rightarrow> string list \<times> nat" where
  "Tokenize s sep out bAppend nStartOffset =
     (let out0 = (if bAppend then out else []);
          out1 = Tokenize_loop s sep nStartOffset out0
      in (out1, length out1 - length out0))"

text \<open>\<open>StrSubst\<close>; the code does not return for an empty \<open>from\<close>, no caller passes one.\<close>

function StrSubst_rest :: "string \<Rightarrow> string \<Rightarrow> string \<Rightarrow> string" where
  "StrSubst_rest frm to rest =
     (case find_sub frm rest of
        None \<Rightarrow> rest
      | Some i \<Rightarrow> if frm = [] then rest
          else take i rest @ to @ StrSubst_rest frm to (drop (i + length frm) rest))"
  by pat_completeness auto
termination
proof (relation "measure (\<lambda>(frm, to, rest). length rest)")
  fix frm to rest :: string and i
  assume "find_sub frm rest = Some i" and "frm \<noteq> []"
  then have "i + length frm \<le> length rest" "0 < length frm" using find_sub_le by auto
  then show "((frm, to, drop (i + length frm) rest), frm, to, rest)
        \<in> measure (\<lambda>(frm, to, rest). length rest)" by (cases "frm") auto
qed simp

declare StrSubst_rest.simps [simp del]

definition StrSubst :: "string \<Rightarrow> string \<Rightarrow> string \<Rightarrow> nat \<Rightarrow> string" where
  "StrSubst contents frm to pos = take pos contents @ StrSubst_rest frm to (drop pos contents)"

text \<open>\<open>ParseKeyValLine\<close>: \<open>None\<close> where the code returns false.\<close>

definition ParseKeyValLine :: "string \<Rightarrow> (string \<times> string) option" where
  "ParseKeyValLine sIn =
     (let v = trimFront_str sIn SPACECHARS in
      if v = [] then None
      else case find_chr v (CHR '':'') of
        None \<Rightarrow> None
      | Some pos \<Rightarrow>
          if pos = 0 then None
          else Some (trimBack_str (take pos v) SPACECHARS,
                     trimFront_str (drop (pos + 1) v) SPACECHARS))"

section \<open>Hexadecimal\<close>

text \<open>\<open>MAX_VAL(uint_fast16_t)\<close>, 64 bits wide on the platforms of the package.\<close>

definition hex_inv :: int where "hex_inv = 2 ^ 64 - 1"

definition hexmap :: "int list" where
  "hexmap = replicate 48 hex_inv @ [0, 1, 2, 3, 4, 5, 6, 7, 8, 9] @ replicate 7 hex_inv @
     [10, 11, 12, 13, 14, 15] @ replicate 26 hex_inv @ [10, 11, 12, 13, 14, 15] @
     replicate 153 hex_inv"

definition hexval :: "char \<Rightarrow> int" where
  "hexval c = hexmap ! of_char c"

definition h2t_map :: "nat \<Rightarrow> char" where
  "h2t_map i = ''0123456789abcdef'' ! i"

text \<open>
  \<open>CsAsciiToBin\<close>: writes bytes into \<open>b\<close> until the first invalid pair; what was written
  before stays.
\<close>

fun CsAsciiToBin_loop :: "string \<Rightarrow> 8 word list \<Rightarrow> nat \<Rightarrow> nat \<Rightarrow> bool \<times> 8 word list" where
  "CsAsciiToBin_loop a b i 0 = (True, b)"
| "CsAsciiToBin_loop a b i (Suc n) =
     (if hexval (char_at a (i * 2)) > 15 \<or> hexval (char_at a (i * 2 + 1)) > 15 then (False, b)
      else CsAsciiToBin_loop a
             (b[i := word_of_int (hexval (char_at a (i * 2)) * 16 + hexval (char_at a (i * 2 + 1)))])
             (i + 1) n)"

definition CsAsciiToBin :: "string \<Rightarrow> 8 word list \<Rightarrow> nat \<Rightarrow> bool \<times> 8 word list" where
  "CsAsciiToBin a b binLength = CsAsciiToBin_loop a b 0 binLength"

definition BytesToHexString :: "8 word list \<Rightarrow> nat \<Rightarrow> string" where
  "BytesToHexString csum lengthBin =
     concat (map (\<lambda>i. [h2t_map (unat (drop_bit 4 (csum ! i))), h2t_map (unat (csum ! i AND 15))])
               [0..<lengthBin])"

text \<open>\<open>Hex2buf\<close>: the buffer contents, or \<open>None\<close> where the code returns false.\<close>

fun Hex2buf_loop :: "string \<Rightarrow> string option" where
  "Hex2buf_loop (c # d # r) =
     (if c = CHR 0x00 \<or> d = CHR 0x00 then None
      else if hexval c > 15 \<or> hexval d > 15 then None
      else map_option (\<lambda>t. char_of (nat (hexval c * 16 + hexval d)) # t) (Hex2buf_loop r))"
| "Hex2buf_loop _ = Some []"

definition Hex2buf :: "string \<Rightarrow> string option" where
  "Hex2buf a = (if odd (length a) then None else Hex2buf_loop a)"

section \<open>URL and user-info escaping\<close>

definition is_safe_url_char :: "char \<Rightarrow> bool" where
  "is_safe_url_char c \<longleftrightarrow> c = CHR ''/'' \<or> isalnum c \<or>
     c \<in> {CHR ''-'', CHR ''.'', CHR ''_'', CHR ''?'', CHR ''&'', CHR ''=''}"

definition pct_encode :: "char \<Rightarrow> string" where
  "pct_encode c = [CHR ''%'', h2t_map (of_char c div 16), h2t_map (of_char c mod 16)]"

definition UrlEscapeAppend :: "string \<Rightarrow> string \<Rightarrow> string" where
  "UrlEscapeAppend s target =
     target @ concat (map (\<lambda>c. if is_safe_url_char c then [c] else pct_encode c) s)"

definition UrlEscape :: "string \<Rightarrow> string" where
  "UrlEscape s = UrlEscapeAppend s []"

definition is_allowed_unencoded_userinfo_char :: "char \<Rightarrow> bool" where
  "is_allowed_unencoded_userinfo_char c \<longleftrightarrow> isalnum c \<or>
     c \<in> {CHR ''-'', CHR ''.'', CHR ''_'', CHR ''~'', CHR ''!'', CHR ''$'', CHR ''&'', CHR 0x27,
          CHR ''('', CHR '')'', CHR ''*'', CHR ''+'', CHR '','', CHR '';'', CHR ''='', CHR '':''}"

definition UserinfoEscape :: "string \<Rightarrow> string" where
  "UserinfoEscape s =
     concat (map (\<lambda>c. if is_allowed_unencoded_userinfo_char c then [c] else pct_encode c) s)"

definition DosEscape :: "string \<Rightarrow> string" where
  "DosEscape s =
     concat (map (\<lambda>c. if c = CHR ''/'' then ''/''
                       else if is_safe_url_char c then [c] else pct_encode c) s)"

text \<open>
  \<open>UrlUnescapeAppend\<close>: the loop over the index. \<open>from.length()-3\<close> is a \<open>size_t\<close>
  subtraction and wraps for short strings. A malformed sequence loses its percent sign and
  clears the result flag.
\<close>

definition size_minus_3 :: "nat \<Rightarrow> int" where
  "size_minus_3 n = (int n - 3) mod 2 ^ 64"

function UrlUnescape_loop :: "string \<Rightarrow> nat \<Rightarrow> bool \<Rightarrow> string \<Rightarrow> bool \<times> string" where
  "UrlUnescape_loop frm i ret to =
     (if i < length frm then
        (if frm ! i \<noteq> CHR ''%'' then UrlUnescape_loop frm (i + 1) ret (to @ [frm ! i])
         else if int i > size_minus_3 (length frm)
                 \<or> hexval (char_at frm (i + 1)) > 15
                 \<or> hexval (char_at frm (i + 2)) > 15
              then UrlUnescape_loop frm (i + 1) False to
         else UrlUnescape_loop frm (i + 3) ret
                (to @ [char_of (nat (16 * hexval (char_at frm (i + 1)) + hexval (char_at frm (i + 2))))]))
      else (ret, to))"
  by pat_completeness auto
termination
  by (relation "measure (\<lambda>(frm, i, ret, to). length frm - i)") auto

declare UrlUnescape_loop.simps [simp del]

definition UrlUnescapeAppend :: "string \<Rightarrow> string \<Rightarrow> bool \<times> string" where
  "UrlUnescapeAppend frm to = UrlUnescape_loop frm 0 True to"

definition UrlUnescape :: "string \<Rightarrow> string" where
  "UrlUnescape frm = snd (UrlUnescapeAppend frm [])"

section \<open>Base64\<close>

definition b64_alphabet :: string where
  "b64_alphabet = ''ABCDEFGHIJKLMNOPQRSTUVWXYZabcdefghijklmnopqrstuvwxyz0123456789+/''"

definition b64_at :: "32 word \<Rightarrow> char" where
  "b64_at w = b64_alphabet ! unat w"

definition b64_step :: "char \<Rightarrow> 32 word \<times> nat \<times> string \<Rightarrow> 32 word \<times> nat \<times> string" where
  "b64_step p st =
     (case st of (bits, char_count, out) \<Rightarrow>
        let bits1 = bits + word_of_nat (of_char p); n = char_count + 1 in
        if n = 3 then
          (0, 0, out @ [b64_at (drop_bit 18 bits1), b64_at (drop_bit 12 bits1 AND 63),
                        b64_at (drop_bit 6 bits1 AND 63), b64_at (bits1 AND 63)])
        else (push_bit 8 bits1, n, out))"

definition b64_finish :: "32 word \<times> nat \<times> string \<Rightarrow> string" where
  "b64_finish st =
     (case st of (bits, char_count, out) \<Rightarrow>
        if char_count \<noteq> 0 then
          let bits1 = push_bit (16 - 8 * char_count) bits;
              out1 = out @ [b64_at (drop_bit 18 bits1), b64_at (drop_bit 12 bits1 AND 63)]
          in if char_count = 1 then out1 @ ''==''
             else out1 @ [b64_at (drop_bit 6 bits1 AND 63), CHR ''='']
        else out)"

definition EncodeBase64 :: "string \<Rightarrow> string" where
  "EncodeBase64 data = b64_finish (fold b64_step data (0, 0, []))"

definition EncodeBase64Auth :: "string \<Rightarrow> string" where
  "EncodeBase64Auth sPwdString = EncodeBase64 (UrlUnescape sPwdString)"

section \<open>Numbers and text for pages and logs\<close>

definition atoofft :: "string \<Rightarrow> off_t" where
  "atoofft p = atoll p"

definition atoofft_def_val :: "string option \<Rightarrow> off_t \<Rightarrow> off_t" where
  "atoofft_def_val p nDefVal = (case p of Some s \<Rightarrow> atoofft s | None \<Rightarrow> nDefVal)"

definition offttos :: "off_t \<Rightarrow> string" where
  "offttos n = int_str n"

definition ltos :: "int \<Rightarrow> string" where
  "ltos n = int_str n"

text \<open>C division and remainder truncate towards zero.\<close>

definition cdiv :: "int \<Rightarrow> int \<Rightarrow> int" where
  "cdiv a b = sgn a * sgn b * (\<bar>a\<bar> div \<bar>b\<bar>)"

definition cmod :: "int \<Rightarrow> int \<Rightarrow> int" where
  "cmod a b = a - b * cdiv a b"

fun offttosH_loop :: "string list \<Rightarrow> off_t \<Rightarrow> string" where
  "offttosH_loop (p # q # ps) n =
     (if n < 1024 then ltos n @ p
      else if n < 10000 then ltos (cdiv n 1000) @ ''.'' @ ltos (cdiv (cmod n 1000) 100) @ q
      else offttosH_loop (q # ps) (cdiv n 1024))"
| "offttosH_loop _ n = ''INF''"

definition offttosH :: "off_t \<Rightarrow> string" where
  "offttosH n =
     offttosH_loop ['''', '' KiB'', '' MiB'', '' GiB'', '' TiB'', '' PiB'', '' EiB''] n"

fun dot_insert :: "nat \<Rightarrow> nat \<Rightarrow> string \<Rightarrow> string" where
  "dot_insert 0 i ret = ret"
| "dot_insert (Suc pos) i ret =
     dot_insert pos (i + 1)
       (if i mod 3 = 0 then take (Suc pos) ret @ ''.'' @ drop (Suc pos) ret else ret)"

definition offttosHdotted :: "off_t \<Rightarrow> string" where
  "offttosHdotted n = (let ret = int_str n in dot_insert (length ret - 1) 1 ret)"

text \<open>\<open>strtoull\<close>: a leading minus negates modulo \<open>2^64\<close>.\<close>

definition strtoull :: "string \<Rightarrow> 64 word \<times> string" where
  "strtoull s =
     (case strtol10 (- (2 ^ 64 - 1)) (2 ^ 64 - 1) (c_str s) of (v, rest) \<Rightarrow> (word_of_int v, rest))"

definition strsizeToOfft :: "string \<Rightarrow> off_t" where
  "strsizeToOfft sizeString =
     (case strtoull sizeString of (val, inext) \<Rightarrow>
        if val = 0 then 0
        else if inext = [] then sint val
        else sint (case dropWhile isspace inext of
            [] \<Rightarrow> val
          | c # _ \<Rightarrow>
             (if c = CHR ''k'' then val * 1000
              else if c = CHR ''m'' then val * 1000000
              else if c = CHR ''g'' then val * 1000000 * 1000
              else if c = CHR ''p'' then val * 1000000 * 1000000
              else if c = CHR ''K'' then val * 1024
              else if c = CHR ''M'' then val * 1024 * 1024
              else if c = CHR ''G'' then val * 1024 * 1024 * 1024
              else if c = CHR ''P'' then val * 1024 * 1024 * 1024 * 1024
              else val)))"

definition html_sanitize :: "string \<Rightarrow> string" where
  "html_sanitize s =
     map (\<lambda>c. if c \<in> {CHR ''<'', CHR ''>'', CHR 0x27, CHR 0x22, CHR ''&'', CHR '';'', CHR 0x00}
              then CHR ''_'' else c) s"

definition message_detox :: "string \<Rightarrow> int \<Rightarrow> string" where
  "message_detox s pfx =
     (if pfx > 0 then ltos pfx @ '' '' else []) @ filter (\<lambda>c. isalnum c \<or> isspace c) s"

definition replaceChars :: "string \<Rightarrow> string \<Rightarrow> char \<Rightarrow> string" where
  "replaceChars s szBadChars goodChar =
     map (\<lambda>p. if p \<in> set (c_str szBadChars) then goodChar else p) s"

definition addUnEscaped :: "string \<Rightarrow> char \<Rightarrow> string" where
  "addUnEscaped s p =
     (if p = CHR ''0'' then s @ [CHR 0x00]
      else if p = CHR ''a'' then s @ [CHR 0x07]
      else if p = CHR ''b'' then s @ [CHR 0x08]
      else if p = CHR ''t'' then s @ [CHR 0x09]
      else if p = CHR ''n'' then s @ [CHR 0x0A]
      else if p = CHR ''r'' then s @ [CHR 0x0D]
      else if p = CHR ''v'' then s @ [CHR 0x0B]
      else if p = CHR ''f'' then s @ [CHR 0x0C]
      else if p = CHR 0x5C then s @ [CHR 0x5C]
      else s @ [CHR 0x5C, p])"

fun unEscape_loop :: "string \<Rightarrow> string \<Rightarrow> string" where
  "unEscape_loop [] ret = ret"
| "unEscape_loop (c # cs) ret =
     (if c \<noteq> CHR 0x5C then unEscape_loop cs (ret @ [c])
      else case cs of [] \<Rightarrow> ret @ [CHR 0x5C] | d # ds \<Rightarrow> unEscape_loop ds (addUnEscaped ret d))"

definition unEscape :: "string \<Rightarrow> string" where
  "unEscape s = unEscape_loop s []"

text \<open>\<open>strlcpy\<close>: the terminated target contents and the source length.\<close>

definition strlcpy :: "string \<Rightarrow> nat \<Rightarrow> string option \<times> nat" where
  "strlcpy src tgtSize =
     (if tgtSize > 0 then Some (take (tgtSize - 1) (c_str src)) else None, length (c_str src))"

section \<open>Decoding inverts encoding\<close>

lemma hexval_h2t_all: "list_all (\<lambda>n. hexval (h2t_map n) = int n) [0..<16]"
  by code_simp

lemma hexval_h2t [simp]: "n < 16 \<Longrightarrow> hexval (h2t_map n) = int n"
  using hexval_h2t_all by (simp add: list_all_iff)

lemma hexval_NUL [simp]: "hexval (CHR 0x00) = hex_inv"
  by code_simp

lemma hex_inv_gt [simp]: "15 < hex_inv"
  by (simp add: hex_inv_def)

lemma h2t_not_pct: "n < 16 \<Longrightarrow> h2t_map n \<noteq> CHR ''%''"
proof -
  have "list_all (\<lambda>n. h2t_map n \<noteq> CHR ''%'') [0..<16]" by code_simp
  then show "n < 16 \<Longrightarrow> h2t_map n \<noteq> CHR ''%''" by (simp add: list_all_iff)
qed

lemma of_char_lt [simp]: "(of_char c :: nat) < 256"
  by (metis mod_less_divisor of_char_mod_256 zero_less_numeral)

text \<open>\<open>unesc\<close>: the same decoding by recursion on the remaining characters.\<close>

fun unesc :: "bool \<Rightarrow> string \<Rightarrow> string \<Rightarrow> bool \<times> string" where
  "unesc ret to [] = (ret, to)"
| "unesc ret to (c # a # b # r) =
     (if c \<noteq> CHR ''%'' then unesc ret (to @ [c]) (a # b # r)
      else if hexval a \<le> 15 \<and> hexval b \<le> 15
           then unesc ret (to @ [char_of (nat (16 * hexval a + hexval b))]) r
           else unesc False to (a # b # r))"
| "unesc ret to (c # r) =
     (if c \<noteq> CHR ''%'' then unesc ret (to @ [c]) r else unesc False to r)"

lemma UrlUnescape_loop_unesc:
  assumes "int (length frm) < 2 ^ 64"
  shows "UrlUnescape_loop frm i ret to = unesc ret to (drop i frm)"
proof (induction "length frm - i" arbitrary: i ret to rule: less_induct)
  case less
  show ?case
  proof (cases "i < length frm")
    case False
    then show ?thesis by (simp add: UrlUnescape_loop.simps)
  next
    case True
    let ?L = "length frm"
    have d1: "drop i frm = frm ! i # drop (i + 1) frm"
      using True by (simp add: Cons_nth_drop_Suc)
    have IH: "\<And>k ret to. i < k \<Longrightarrow> UrlUnescape_loop frm k ret to = unesc ret to (drop k frm)"
      using less True by (metis diff_less_mono2)
    have u: "UrlUnescape_loop frm i ret to =
        (if frm ! i \<noteq> CHR ''%'' then unesc ret (to @ [frm ! i]) (drop (i + 1) frm)
         else if int i > size_minus_3 ?L \<or> hexval (char_at frm (i + 1)) > 15
                 \<or> hexval (char_at frm (i + 2)) > 15
              then unesc False to (drop (i + 1) frm)
         else unesc ret (to @ [char_of (nat (16 * hexval (char_at frm (i + 1)) +
                hexval (char_at frm (i + 2))))]) (drop (i + 3) frm))"
      using True by (subst UrlUnescape_loop.simps) (simp add: IH)
    show ?thesis
    proof (cases "i + 2 < ?L")
      case True
      then have d: "drop (i + 1) frm = frm ! (i + 1) # frm ! (i + 2) # drop (i + 3) frm"
        using Cons_nth_drop_Suc [of "i + 1" frm] Cons_nth_drop_Suc [of "i + 2" frm]
        by (simp add: numeral_2_eq_2 numeral_3_eq_3)
      have "size_minus_3 ?L = int ?L - 3"
        using True assms by (simp add: size_minus_3_def)
      then have "\<not> int i > size_minus_3 ?L" using True by simp
      with True show ?thesis unfolding u d1 d by (auto simp: char_at_def)
    next
      case False
      then have "hexval (char_at frm (i + 2)) > 15" by (simp add: char_at_def)
      then have u2: "UrlUnescape_loop frm i ret to =
        (if frm ! i \<noteq> CHR ''%'' then unesc ret (to @ [frm ! i]) (drop (i + 1) frm)
         else unesc False to (drop (i + 1) frm))" unfolding u by simp
      have "length (drop (i + 1) frm) < 2" using False by simp
      then consider "drop (i + 1) frm = []" | x where "drop (i + 1) frm = [x]"
        by (metis One_nat_def Suc_1 length_0_conv length_Suc_conv less_2_cases)
      then show ?thesis unfolding u2 d1 by cases simp_all
    qed
  qed
qed

lemma unesc_safe: "c \<noteq> CHR ''%'' \<Longrightarrow> unesc ret to (c # r) = unesc ret (to @ [c]) r"
  by (cases r rule: list.exhaust; cases "tl r") auto

lemma divmod16: "nat (16 * int (n div 16) + int (n mod 16)) = n"
  by (metis mult_div_mod_eq nat_int of_nat_add of_nat_mult of_nat_numeral)

lemma unesc_hex:
  "x < 16 \<Longrightarrow> y < 16 \<Longrightarrow>
     unesc ret to (CHR ''%'' # h2t_map x # h2t_map y # r) =
     unesc ret (to @ [char_of (nat (16 * int x + int y))]) r"
  by simp

lemma unesc_pct: "unesc ret to (pct_encode c @ r) = unesc ret (to @ [c]) r"
proof -
  have "of_char c div 16 < (16::nat)" "of_char c mod 16 < (16::nat)"
    using of_char_lt [of c] by (simp_all del: of_char_lt)
  from unesc_hex [OF this] show ?thesis by (simp only: pct_encode_def divmod16 append.simps char_of_char)
qed

lemma safe_not_pct: "is_safe_url_char c \<Longrightarrow> c \<noteq> CHR ''%''"
  by (auto simp: is_safe_url_char_def isalnum_def isdigit_def isupper_def islower_def)

lemma unesc_UrlEscape: "unesc ret to (UrlEscape s) = (ret, to @ s)"
proof (induction s arbitrary: to)
  case Nil
  then show ?case by (simp add: UrlEscape_def UrlEscapeAppend_def)
next
  case (Cons c s)
  have "UrlEscape (c # s) = (if is_safe_url_char c then [c] else pct_encode c) @ UrlEscape s"
    by (simp add: UrlEscape_def UrlEscapeAppend_def)
  with Cons show ?case by (auto simp: unesc_safe unesc_pct safe_not_pct)
qed

lemma length_UrlEscape: "length (UrlEscape s) \<le> 3 * length s"
  by (induction s) (auto simp: UrlEscape_def UrlEscapeAppend_def pct_encode_def)

text \<open>
  URL escaping is lossless: decoding the escaped form of any string (of a length a 64-bit
  \<open>size_t\<close> can hold) succeeds and gives the string back, appended to the target.
\<close>

theorem url_escape_roundtrip:
  assumes "int (length s) < 2 ^ 62"
  shows "UrlUnescapeAppend (UrlEscape s) target = (True, target @ s)"
proof -
  have "int (length (UrlEscape s)) \<le> 3 * int (length s)" using length_UrlEscape [of s] by simp
  then have "int (length (UrlEscape s)) < 2 ^ 64" using assms by simp
  then show ?thesis by (simp add: UrlUnescapeAppend_def UrlUnescape_loop_unesc unesc_UrlEscape)
qed

theorem url_escape_roundtrip_witness:
  "UrlUnescapeAppend (UrlEscape ''a b%c'') ''x'' = (True, ''xa b%c'')"
  using url_escape_roundtrip [of "''a b%c''" "''x''"] by simp

lemma unesc_no_pct: "CHR ''%'' \<notin> set s \<Longrightarrow> unesc ret to (s @ r) = unesc ret (to @ s) r"
  by (induction s arbitrary: to) (auto simp: unesc_safe)

text \<open>
  A percent sign that cannot start an escape sequence is dropped from the result,
  although the comment in the code announces that it is kept as it is.
\<close>

theorem url_unescape_drops_percent:
  assumes "CHR ''%'' \<notin> set s" and "int (length s) < 2 ^ 62"
  shows "UrlUnescape (s @ ''%'') = s"
proof -
  have "int (length (s @ ''%'')) < 2 ^ 64" using assms(2) by simp
  then have "UrlUnescapeAppend (s @ ''%'') [] = unesc True [] (s @ ''%'')"
    by (simp add: UrlUnescapeAppend_def UrlUnescape_loop_unesc)
  then show ?thesis using assms(1) by (simp add: UrlUnescape_def unesc_no_pct)
qed

theorem url_unescape_drops_percent_witness: "UrlUnescape ''100%'' = ''100''"
  using url_unescape_drops_percent [of "''100''"] by simp

section \<open>Checksums as hexadecimal strings\<close>

lemma unat_take_bit: "unat (take_bit n w) = take_bit n (unat w)"
  by (rule unsigned_take_bit_eq)

lemma unat_nibbles:
  fixes w :: "8 word"
  shows "unat (drop_bit 4 w) = unat w div 16" "unat (w AND 15) = unat w mod 16"
proof -
  show "unat (drop_bit 4 w) = unat w div 16"
    by (simp add: unat_drop_bit_eq drop_bit_eq_div [where 'a = nat] del: drop_bit_numeral_minus_bit1)
  have "w AND 15 = take_bit 4 w" by (simp add: take_bit_eq_mask mask_eq_exp_minus_1)
  then show "unat (w AND 15) = unat w mod 16"
    using unat_take_bit [of 4 w] take_bit_eq_mod [of 4 "unat w"] by simp
qed

lemma BytesToHexString_nth:
  assumes "i < n"
  shows "char_at (BytesToHexString b n) (i * 2) = h2t_map (unat (b ! i) div 16)"
    "char_at (BytesToHexString b n) (i * 2 + 1) = h2t_map (unat (b ! i) mod 16)"
    "length (BytesToHexString b n) = 2 * n"
proof -
  have *: "length (BytesToHexString b n) = 2 * n \<and> (\<forall>i < n.
      BytesToHexString b n ! (i * 2) = h2t_map (unat (b ! i) div 16) \<and>
      BytesToHexString b n ! (i * 2 + 1) = h2t_map (unat (b ! i) mod 16))"
  proof (induction n)
    case 0
    then show ?case by (simp add: BytesToHexString_def)
  next
    case (Suc n)
    have "BytesToHexString b (Suc n) = BytesToHexString b n @
        [h2t_map (unat (b ! n) div 16), h2t_map (unat (b ! n) mod 16)]"
      by (simp add: BytesToHexString_def unat_nibbles)
    with Suc show ?case by (auto simp: nth_append less_Suc_eq)
  qed
  with assms show "char_at (BytesToHexString b n) (i * 2) = h2t_map (unat (b ! i) div 16)"
    "char_at (BytesToHexString b n) (i * 2 + 1) = h2t_map (unat (b ! i) mod 16)"
    "length (BytesToHexString b n) = 2 * n"
    by (auto simp: char_at_def)
qed

lemma byte_of_nibbles:
  "(word_of_int (int (unat w div 16) * 16 + int (unat w mod 16)) :: 8 word) = w"
proof -
  have "int (unat w div 16) * 16 + int (unat w mod 16) = uint w"
    by (metis div_mult_mod_eq of_nat_add of_nat_mult of_nat_numeral uint_nat)
  then show ?thesis by simp
qed

lemma CsAsciiToBin_loop_hex:
  assumes "i + k = n" and "n \<le> length t" and "n \<le> length b"
    and "take i t = take i b"
  shows "CsAsciiToBin_loop (BytesToHexString b n) t i k = (True, take n b @ drop n t)"
  using assms
proof (induction k arbitrary: i t)
  case 0
  then show ?case by (simp) (metis append_take_drop_id)
next
  case (Suc k)
  have i: "i < n" using Suc.prems(1) by simp
  have lt: "unat (b ! i) div 16 < 16" "unat (b ! i) mod 16 < 16"
    using unsigned_less [of "b ! i", where ?'a = nat] by simp_all
  have m: "\<not> 15 < unat (b ! i) mod 16" using lt(2) by linarith
  have "take (Suc i) (t[i := b ! i]) = take (Suc i) b"
    using Suc.prems i by (simp add: take_Suc_conv_app_nth)
  moreover have "drop n (t[i := b ! i]) = drop n t" using i by simp
  moreover have "CsAsciiToBin_loop (BytesToHexString b n) t i (Suc k) =
      CsAsciiToBin_loop (BytesToHexString b n) (t[i := b ! i]) (i + 1) k"
    using lt(1) byte_of_nibbles [of "b ! i"] BytesToHexString_nth [OF i, of b] m by simp
  ultimately show ?case using Suc.IH [of "i + 1" "t[i := b ! i]"] Suc.prems i by simp
qed

text \<open>
  The hexadecimal form of a checksum parses back to its bytes, whatever the target
  buffer held before, and bytes of the buffer beyond the checksum are not touched.
\<close>

theorem hex_roundtrip:
  assumes "n \<le> length b" and "n \<le> length t"
  shows "CsAsciiToBin (BytesToHexString b n) t n = (True, take n b @ drop n t)"
  unfolding CsAsciiToBin_def by (rule CsAsciiToBin_loop_hex) (use assms in simp_all)

theorem hex_roundtrip_witness:
  "CsAsciiToBin (BytesToHexString [171, 7] 2) [0, 0, 9] 2 = (True, [171, 7, 9])"
  using hex_roundtrip [of 2 "[171, 7]" "[0, 0, 9]"] by simp

section \<open>Tokenizing\<close>

lemma fields_all_seps: "set s \<subseteq> set seps \<Longrightarrow> fields seps s = []"
  by (subst fields.simps) (auto simp: Let_def)

lemma fields_drop_sep: "c \<in> set seps \<Longrightarrow> fields seps (c # s) = fields seps s"
  by (subst (1 2) fields.simps) simp

lemma Tokenize_loop_fields:
  "Tokenize_loop s sep pos out = out @ fields sep (drop pos s)"
proof (induction s sep pos out rule: Tokenize_loop.induct)
  case (1 s sep pos out)
  show ?case
  proof (cases "pos < length s")
    case False
    then show ?thesis by (simp add: Tokenize_loop.simps fields_all_seps)
  next
    case True
    show ?thesis
    proof (cases "find_pos (\<lambda>c. c \<notin> set sep) (drop pos s)")
      case None
      then have "set (drop pos s) \<subseteq> set sep" by (auto simp: find_pos_None)
      with None True show ?thesis
        by (simp add: Tokenize_loop.simps find_pos_from_def fields_all_seps)
    next
      case (Some i)
      let ?p = "pos + i" and ?t = "drop (pos + i) s"
      let ?p2 = "case find_pos_from (\<lambda>c. c \<in> set sep) s ?p of None \<Rightarrow> length s | Some q \<Rightarrow> q"
      let ?k = "length (takeWhile (\<lambda>c. c \<notin> set sep) ?t)"
      have p: "?p < length s" using find_pos_lt [OF Some] by simp
      have t: "?t = dropWhile (\<lambda>c. c \<in> set sep) (drop pos s)"
        using find_pos_take_drop(2) [OF Some] by (simp add: add.commute)
      have "(case find_first_of ?t sep of None \<Rightarrow> length ?t | Some i \<Rightarrow> i) = ?k"
        by (rule find_first_of_takeWhile)
      then have p2: "?p2 = ?p + ?k"
        using p by (auto simp: find_pos_from_def find_first_of_def split: option.splits)
      have F: "fields sep (drop pos s) = takeWhile (\<lambda>c. c \<notin> set sep) ?t #
          fields sep (dropWhile (\<lambda>c. c \<notin> set sep) ?t)"
        using p by (subst fields.simps) (simp add: Let_def t [symmetric])
      have dW: "dropWhile (\<lambda>c. c \<notin> set sep) ?t = drop ?p2 s"
        unfolding p2 by (simp add: dropWhile_eq_drop add.commute)
      have rest: "fields sep (drop ?p2 s) = fields sep (drop (?p2 + 1) s)"
      proof (cases "drop ?p2 s")
        case Nil
        then show ?thesis by simp
      next
        case (Cons c cs)
        then have "c \<in> set sep" using dW by (metis (mono_tags, lifting) dropWhile_eq_Cons_conv)
        moreover have "drop (?p2 + 1) s = cs" using Cons by (metis Suc_eq_plus1 drop_Suc list.sel(3) tl_drop)
        ultimately show ?thesis using Cons by (simp add: fields_drop_sep)
      qed
      have tk: "take (?p2 - ?p) ?t = takeWhile (\<lambda>c. c \<notin> set sep) ?t"
        unfolding p2 by (simp add: takeWhile_eq_take [symmetric])
      have sP: "find_pos_from (\<lambda>c. c \<notin> set sep) s pos = Some ?p"
        using Some by (simp add: find_pos_from_def)
      have "Tokenize_loop s sep pos out = Tokenize_loop s sep (?p2 + 1) (out @ [take (?p2 - ?p) ?t])"
        using True sP by (subst Tokenize_loop.simps) (simp add: Let_def)
      also have "\<dots> = (out @ [take (?p2 - ?p) ?t]) @ fields sep (drop (?p2 + 1) s)"
        using 1 [OF True sP refl] by simp
      finally show ?thesis using F dW rest tk by simp
    qed
  qed
qed

text \<open>
  \<open>Tokenize\<close> without appending and the non-strict splitting iterator agree: both produce
  the maximal runs of non-separator characters, and \<open>Tokenize\<close> returns their number.
\<close>

theorem Tokenize_eq_iterator:
  "Tokenize s sep out False 0 = (to_vector False False s sep, length (to_vector False False s sep))"
  by (simp add: Tokenize_def Tokenize_loop_fields to_vector_fields)

section \<open>Base64 of the authorization headers\<close>

text \<open>Reference: the RFC 4648 encoding and decoding on groups of three bytes.\<close>

definition al :: "nat \<Rightarrow> char" where "al n = b64_alphabet ! n"

fun b64_ref :: "string \<Rightarrow> string" where
  "b64_ref [] = []"
| "b64_ref [a] = [al (of_char a div 4), al (of_char a mod 4 * 16), CHR ''='', CHR ''='']"
| "b64_ref [a, b] = [al (of_char a div 4), al (of_char a mod 4 * 16 + of_char b div 16),
     al (of_char b mod 16 * 4), CHR ''='']"
| "b64_ref (a # b # c # r) = al (of_char a div 4) # al (of_char a mod 4 * 16 + of_char b div 16) #
     al (of_char b mod 16 * 4 + of_char c div 64) # al (of_char c mod 64) # b64_ref r"

definition unal :: "char \<Rightarrow> nat option" where
  "unal c = find_chr b64_alphabet c"

fun b64_decode :: "string \<Rightarrow> string option" where
  "b64_decode [] = Some []"
| "b64_decode (p # q # r # s # rest) =
     (case (unal p, unal q) of
        (Some i, Some j) \<Rightarrow>
          if r = CHR ''='' \<and> s = CHR ''='' \<and> rest = [] then Some [char_of (i * 4 + j div 16)]
          else (case unal r of None \<Rightarrow> None | Some k \<Rightarrow>
            if s = CHR ''='' \<and> rest = []
            then Some [char_of (i * 4 + j div 16), char_of (j mod 16 * 16 + k div 4)]
            else (case unal s of None \<Rightarrow> None | Some l \<Rightarrow>
              map_option (\<lambda>t. char_of (i * 4 + j div 16) # char_of (j mod 16 * 16 + k div 4) #
                 char_of (k mod 4 * 64 + l) # t) (b64_decode rest)))
      | _ \<Rightarrow> None)"
| "b64_decode _ = None"

lemma unal_al_all: "list_all (\<lambda>n. unal (al n) = Some n \<and> al n \<noteq> CHR ''='') [0..<64]"
  by code_simp

lemma unal_al [simp]: "n < 64 \<Longrightarrow> unal (al n) = Some n" "n < 64 \<Longrightarrow> al n \<noteq> CHR ''=''"
  using unal_al_all by (auto simp: list_all_iff)

lemma radix_div_mod: "l < m \<Longrightarrow> (h * m + l) div m = h" "l < m \<Longrightarrow> (h * m + l) mod m = (l::nat)"
  by simp_all

lemma b64_regroup:
  fixes a b c :: nat
  assumes "a < 256" "b < 256" "c < 256"
  shows "a div 4 * 4 + (a mod 4 * 16 + b div 16) div 16 = a"
    "(a mod 4 * 16 + b div 16) mod 16 * 16 + (b mod 16 * 4 + c div 64) div 4 = b"
    "(b mod 16 * 4 + c div 64) mod 4 * 64 + c mod 64 = c"
proof -
  have "b div 16 < 16" "c div 64 < 4" using assms by simp_all
  then show "a div 4 * 4 + (a mod 4 * 16 + b div 16) div 16 = a"
    "(a mod 4 * 16 + b div 16) mod 16 * 16 + (b mod 16 * 4 + c div 64) div 4 = b"
    "(b mod 16 * 4 + c div 64) mod 4 * 64 + c mod 64 = c"
    by (simp_all only: radix_div_mod div_mult_mod_eq)
qed

lemma b64_index_bounds:
  fixes a b c :: nat
  assumes "a < 256" "b < 256" "c < 256"
  shows "a div 4 < 64" "a mod 4 * 16 + b div 16 < 64" "b mod 16 * 4 + c div 64 < 64" "c mod 64 < 64"
proof -
  have "b div 16 < 16" "c div 64 < 4" "a mod 4 < 4" "b mod 16 < 16" using assms by simp_all
  then show "a mod 4 * 16 + b div 16 < 64" "b mod 16 * 4 + c div 64 < 64" by linarith+
qed (use assms in simp_all)

lemma b64_decode_three:
  fixes a b c :: nat
  assumes "a < 256" "b < 256" "c < 256"
  shows "b64_decode (al (a div 4) # al (a mod 4 * 16 + b div 16) # al (b mod 16 * 4 + c div 64) #
      al (c mod 64) # rest) =
      map_option (\<lambda>t. char_of a # char_of b # char_of c # t) (b64_decode rest)"
  using b64_index_bounds [OF assms] by (simp only: b64_decode.simps unal_al option.case prod.case
      b64_regroup [OF assms] if_False simp_thms)

lemma b64_decode_two:
  fixes a b :: nat
  assumes "a < 256" "b < 256"
  shows "b64_decode [al (a div 4), al (a mod 4 * 16 + b div 16), al (b mod 16 * 4), CHR ''=''] =
      Some [char_of a, char_of b]"
  using b64_index_bounds [OF assms, of 0] b64_regroup(1,2) [OF assms, of 0]
  by (simp only: b64_decode.simps unal_al option.case prod.case if_False if_True simp_thms
      div_0 add_0_right zero_less_numeral)

lemma b64_decode_one:
  fixes a :: nat
  assumes "a < 256"
  shows "b64_decode [al (a div 4), al (a mod 4 * 16), CHR ''='', CHR ''=''] = Some [char_of a]"
  using b64_index_bounds [OF assms, of 0 0] b64_regroup(1) [OF assms, of 0 0]
  by (simp only: b64_decode.simps unal_al option.case prod.case if_False if_True simp_thms
      div_0 add_0_right zero_less_numeral)

lemma b64_decode_ref: "b64_decode (b64_ref s) = Some s"
  by (induction s rule: b64_ref.induct)
    (simp_all only: b64_ref.simps b64_decode.simps(1) b64_decode_one b64_decode_two b64_decode_three
      of_char_lt option.map char_of_char)

lemma b64_at_shift:
  assumes "x < 2 ^ 24"
  shows "b64_at (drop_bit 18 (word_of_nat x)) = al (x div 2 ^ 18)"
    "b64_at (drop_bit 12 (word_of_nat x) AND 63) = al (x div 2 ^ 12 mod 64)"
    "b64_at (drop_bit 6 (word_of_nat x) AND 63) = al (x div 2 ^ 6 mod 64)"
    "b64_at (word_of_nat x AND 63) = al (x mod 64)"
proof -
  have u: "unat (word_of_nat x :: 32 word) = x"
    using assms by (simp add: unat_of_nat)
  have m: "unat (w AND 63) = unat w mod 64" for w :: "32 word"
  proof -
    have "w AND 63 = take_bit 6 w" by (simp add: take_bit_eq_mask mask_eq_exp_minus_1)
    then show ?thesis
      using unat_take_bit [of 6 w] take_bit_eq_mod [of 6 "unat w"] by simp
  qed
  have d: "unat (drop_bit n (word_of_nat x :: 32 word)) = x div 2 ^ n" for n
    using unat_drop_bit_eq [of n "word_of_nat x :: 32 word"] u by (simp add: drop_bit_eq_div)
  show "b64_at (drop_bit 18 (word_of_nat x)) = al (x div 2 ^ 18)"
    "b64_at (drop_bit 12 (word_of_nat x) AND 63) = al (x div 2 ^ 12 mod 64)"
    "b64_at (drop_bit 6 (word_of_nat x) AND 63) = al (x div 2 ^ 6 mod 64)"
    "b64_at (word_of_nat x AND 63) = al (x mod 64)"
    by (simp_all only: b64_at_def al_def m d u)
qed

lemma push8: "push_bit 8 (word_of_nat x :: 32 word) = word_of_nat (x * 256)"
  by (simp add: push_bit_eq_mult)

lemma b64_groups:
  fixes a b c :: nat
  assumes "a < 256" "b < 256" "c < 256"
  shows "(a * 256 + b) * 256 + c < 2 ^ 24"
    "((a * 256 + b) * 256 + c) div 2 ^ 18 = a div 4"
    "((a * 256 + b) * 256 + c) div 2 ^ 12 mod 64 = a mod 4 * 16 + b div 16"
    "((a * 256 + b) * 256 + c) div 2 ^ 6 mod 64 = b mod 16 * 4 + c div 64"
    "((a * 256 + b) * 256 + c) mod 64 = c mod 64"
proof -
  let ?x = "(a * 256 + b) * 256 + c"
  define a1 a0 b1 b0 c1 c0 where d: "a1 = a div 4" "a0 = a mod 4" "b1 = b div 16" "b0 = b mod 16"
    "c1 = c div 64" "c0 = c mod 64"
  have e: "a = a1 * 4 + a0" "b = b1 * 16 + b0" "c = c1 * 64 + c0" unfolding d by simp_all
  have lt: "a1 < 64" "a0 < 4" "b1 < 16" "b0 < 16" "c1 < 4" "c0 < 64"
    using assms unfolding d by simp_all
  have x: "?x = (a1 * 64 + (a0 * 16 + b1)) * 4096 + (b0 * 256 + c1 * 64 + c0)" unfolding e by simp
  have x2: "?x = ((a1 * 4096 + a0 * 1024 + b1 * 64) + (b0 * 4 + c1)) * 64 + c0" unfolding e by simp
  have "?x div 4096 = a1 * 64 + (a0 * 16 + b1)"
    unfolding x by (rule radix_div_mod) (use lt in linarith)
  moreover have s: "a0 * 16 + b1 < 64" "b0 * 4 + c1 < 64" using lt by linarith+
  ultimately show "?x div 2 ^ 12 mod 64 = a mod 4 * 16 + b div 16"
    and "?x div 2 ^ 18 = a div 4"
    using div_mult2_eq [of ?x 4096 64] radix_div_mod [OF s(1), of a1] by (simp_all add: d [symmetric])
  have "?x div 64 = (a1 * 64 + a0 * 16 + b1) * 64 + (b0 * 4 + c1)"
    using lt(6) unfolding x2 by simp
  then have "?x div 64 mod 64 = b0 * 4 + c1"
    using radix_div_mod(2) [OF s(2), of "a1 * 64 + a0 * 16 + b1"] by (simp only:)
  then show "?x div 2 ^ 6 mod 64 = b mod 16 * 4 + c div 64"
    unfolding d(3-6) [symmetric]
    by (simp only: power_numeral pow.simps Num.sqr.simps num.simps mult_num_simps)
  show "?x mod 64 = c mod 64" unfolding x2 d(6) [symmetric] by (rule radix_div_mod(2) [OF lt(6)])
  show "?x < 2 ^ 24" using assms by simp
qed

lemma b64_three:
  "fold b64_step [a, b, c] (0, 0, out) = (0, 0, out @
     [al (of_char a div 4), al (of_char a mod 4 * 16 + of_char b div 16),
      al (of_char b mod 16 * 4 + of_char c div 64), al (of_char c mod 64)])"
proof -
  let ?x = "(of_char a * 256 + of_char b) * 256 + of_char c :: nat"
  have w: "push_bit 8 (push_bit 8 (word_of_nat (of_char a)) + word_of_nat (of_char b)) +
      word_of_nat (of_char c) = (word_of_nat ?x :: 32 word)"
    by (simp only: push8 of_nat_add [symmetric])
  let ?w = "push_bit 8 (push_bit 8 (word_of_nat (of_char a)) + word_of_nat (of_char b)) +
      word_of_nat (of_char c) :: 32 word"
  have g: "?x < 2 ^ 24" "?x div 2 ^ 18 = of_char a div 4"
    "?x div 2 ^ 12 mod 64 = of_char a mod 4 * 16 + of_char b div 16"
    "?x div 2 ^ 6 mod 64 = of_char b mod 16 * 4 + of_char c div 64" "?x mod 64 = of_char c mod 64"
    by (rule b64_groups; rule of_char_lt)+
  have "fold b64_step [a, b, c] (0, 0, out) = (0, 0, out @ [b64_at (drop_bit 18 ?w),
      b64_at (drop_bit 12 ?w AND 63), b64_at (drop_bit 6 ?w AND 63), b64_at (?w AND 63)])"
    by (simp add: b64_step_def Let_def)
  then show ?thesis by (simp only: w b64_at_shift [OF g(1)] g(2-5))
qed

lemma EncodeBase64_ref: "b64_finish (fold b64_step s (0, 0, out)) = out @ b64_ref s"
proof (induction s arbitrary: out rule: b64_ref.induct)
  case 1
  then show ?case by (simp add: b64_finish_def)
next
  case (2 a)
  let ?x = "(of_char a * 256 + 0) * 256 + 0 :: nat"
  have w: "push_bit 8 (push_bit 8 (word_of_nat (of_char a))) = (word_of_nat ?x :: 32 word)"
    by (simp only: push8 add_0_right)
  have g: "?x < 2 ^ 24" "?x div 2 ^ 18 = of_char a div 4" "?x div 2 ^ 12 mod 64 = of_char a mod 4 * 16 + 0 div 16"
    by (rule b64_groups; simp)+
  have "b64_finish (fold b64_step [a] (0, 0, out)) =
      out @ [b64_at (drop_bit 18 (push_bit 8 (push_bit 8 (word_of_nat (of_char a))))),
        b64_at (drop_bit 12 (push_bit 8 (push_bit 8 (word_of_nat (of_char a)))) AND 63)] @ ''==''"
    by (simp add: b64_finish_def b64_step_def Let_def del: push_bit_push_bit)
  then show ?case
    by (simp only: w b64_at_shift [OF g(1)] g(2,3)) simp
next
  case (3 a b)
  let ?x = "(of_char a * 256 + of_char b) * 256 + 0 :: nat"
  let ?w = "push_bit 8 (push_bit 8 (word_of_nat (of_char a)) + word_of_nat (of_char b)) :: 32 word"
  have w: "?w = word_of_nat ?x" by (simp only: push8 of_nat_add [symmetric] add_0_right)
  have g: "?x < 2 ^ 24" "?x div 2 ^ 18 = of_char a div 4"
    "?x div 2 ^ 12 mod 64 = of_char a mod 4 * 16 + of_char b div 16"
    "?x div 2 ^ 6 mod 64 = of_char b mod 16 * 4 + 0 div 64"
    by (rule b64_groups; simp)+
  have "b64_finish (fold b64_step [a, b] (0, 0, out)) =
      out @ [b64_at (drop_bit 18 ?w), b64_at (drop_bit 12 ?w AND 63), b64_at (drop_bit 6 ?w AND 63),
        CHR ''='']"
    by (simp add: b64_finish_def b64_step_def Let_def)
  then show ?case
    by (simp only: w b64_at_shift [OF g(1)] g(2-4)) simp
next
  case (4 a b c r)
  have "fold b64_step (a # b # c # r) (0, 0, out) = fold b64_step r (fold b64_step [a, b, c] (0, 0, out))"
    by simp
  with 4 show ?case by (simp only: b64_three) simp
qed

text \<open>
  The base64 text of an authorization header decodes, by the RFC 4648 rules, to exactly
  the bytes that were encoded; padding included.
\<close>

theorem base64_roundtrip: "b64_decode (EncodeBase64 s) = Some s"
  by (simp add: EncodeBase64_def EncodeBase64_ref b64_decode_ref)

end
