(* ===== verification/HttpUrl.thy ===== *)
theory HttpUrl
  imports Meta
begin

text \<open>
  \<open>src/ahttpurl.h\<close>, \<open>src/ahttpurl.cc\<close>, \<open>src/portutils.h\<close> and \<open>makeHostPortKey\<close> of
  \<open>src/caddrinfo.cc\<close>: parsing and printing of the URLs that name mirrors, proxies and
  client requests. The model is that of a build with \<open>HAVE_SSL\<close>.

  The parser has one access outside of a string: the last character of an empty host. Where
  the code would perform it, the model's result is \<open>None\<close>.
\<close>

record tHttpUrl =
  nPort :: "16 word"
  sHost :: string
  sPath :: string
  sUserPass :: string
  bSSL :: bool

definition url_clear :: tHttpUrl where
  "url_clear = \<lparr>nPort = 0, sHost = [], sPath = [], sUserPass = [], bSSL = False\<rparr>"

definition GetProtoPrefix :: "tHttpUrl \<Rightarrow> string" where
  "GetProtoPrefix u = (if bSSL u then ''https://'' else ''http://'')"

definition GetDefaultPortForProto :: "tHttpUrl \<Rightarrow> 16 word" where
  "GetDefaultPortForProto u = (if bSSL u then 443 else 80)"

definition GetPort :: "tHttpUrl \<Rightarrow> 16 word" where
  "GetPort u = (if nPort u \<noteq> 0 then nPort u else GetDefaultPortForProto u)"

text \<open>\<open>tPortFmter::fmt\<close>: \<open>%hi\<close> prints a signed short, into a buffer of six bytes.\<close>

definition port_fmt :: "16 word \<Rightarrow> string" where
  "port_fmt p = (if p = 80 then ''80'' else if p = 443 then ''443'' else take 5 (int_str (sint p)))"

definition makeHostPortKey :: "string \<Rightarrow> 16 word \<Rightarrow> string" where
  "makeHostPortKey sHostname p =
     [char_of (unat p mod 256), char_of (unat p div 256)] @ sHostname"

definition GetHostPortKey :: "tHttpUrl \<Rightarrow> string" where
  "GetHostPortKey u = makeHostPortKey (sHost u) (GetPort u)"

section \<open>Parsing\<close>

text \<open>
  The dispatch on the beginning of the URL: start of the host, SSL flag, whether a bracket
  must be closed, whether a port is excluded; \<open>None\<close> for a foreign protocol.
\<close>

definition url_scheme :: "string \<Rightarrow> (nat \<times> bool \<times> bool \<times> bool) option" where
  "url_scheme url =
     (if strncasecmp_eq url ''http://'' 7 then Some (7, False, False, False)
      else if strncasecmp_eq url ''https://'' 8 then Some (8, True, False, False)
      else if isalnum (char_at url 0) then Some (0, False, False, False)
      else if char_at url 0 = CHR ''['' then Some (0, False, True, False)
      else if startsWith url ''::'' then Some (0, False, False, True)
      else if find_sub ''://'' url \<noteq> None then None
      else Some (0, False, False, False))"

definition skip_slashes :: "string \<Rightarrow> nat \<Rightarrow> nat" where
  "skip_slashes url i = i + length (takeWhile (\<lambda>c. c = CHR ''/'') (drop i url))"

text \<open>End of the host part and the path.\<close>

definition url_path :: "string \<Rightarrow> nat \<Rightarrow> nat \<times> string" where
  "url_path url hStart =
     (case find_pos_from (\<lambda>c. c = CHR ''/'') url hStart of
        None \<Rightarrow>
          (case find_pos_from (\<lambda>c. c = CHR ''?'') url hStart of
             Some q \<Rightarrow> (q, ''/'' @ drop q url)
           | None \<Rightarrow> (length url, ''/''))
      | Some hEnd \<Rightarrow>
          let pStart = skip_slashes url hEnd - 1
          in (hEnd, if pStart = 0 then ''/'' else drop pStart url))"

text \<open>
  Port suffix of the host: \<open>None\<close> if it is malformed, otherwise the host without it and the
  port. \<open>atoi\<close> truncates a \<open>long\<close> to 32 bits.
\<close>

definition url_port :: "string \<Rightarrow> bool \<Rightarrow> (string \<times> 16 word) option" where
  "url_port host bCheckBrac =
     (let p = (if bCheckBrac
               then find_pos_from (\<lambda>c. c = CHR '':'') host
                      (case rfind_chr host (CHR '']'') of None \<Rightarrow> 0 | Some q \<Rightarrow> q + 1)
               else rfind_chr host (CHR '':''))
      in case p of
           None \<Rightarrow> Some (host, 0)
         | Some q \<Rightarrow>
             if q = length host - 1 then None
             else if \<not> list_all isdigit (drop (q + 1) host) then None
             else let pVal = to_int32 (atoll (drop (q + 1) host))
                  in if pVal > 65535 then None else Some (take q host, word_of_int pVal))"

text \<open>Removal of square brackets; the inner \<open>None\<close> is the rejection of unmatched ones.\<close>

definition url_brackets :: "string \<Rightarrow> bool \<Rightarrow> (string \<times> bool) option option" where
  "url_brackets host0 brac0 =
     (let v6 = char_at host0 0 = CHR ''['';
          brac1 = brac0 \<or> v6;
          host1 = (if v6 then drop 1 host0 else host0)
      in if host1 = [] then None
         else let cl = last host1 = CHR '']'';
                  brac2 = (if cl then \<not> brac1 else brac1);
                  host2 = (if cl then butlast host1 else host1)
              in Some (if brac2 then None else Some (host2, v6)))"

definition SetHttpUrl :: "string \<Rightarrow> bool \<Rightarrow> (bool \<times> tHttpUrl) option" where
  "SetHttpUrl sUrlRaw unescape =
     (let url = trimFront_str (trimBack_str (if unescape then UrlUnescape sUrlRaw else sUrlRaw)
                                 SPACECHARS) SPACECHARS;
          u0 = url_clear
      in if url = [] then Some (False, u0)
         else case url_scheme url of
           None \<Rightarrow> Some (False, u0)
         | Some (hs0, ssl, brac, noPort) \<Rightarrow>
             let u1 = u0\<lparr>bSSL := ssl\<rparr>;
                 hStart = skip_slashes url hs0
             in if hStart \<ge> length url then Some (False, u1)
                else let (hEnd, path) = url_path url hStart;
                         u2 = u1\<lparr>sPath := path\<rparr>
                     in if url ! hStart = CHR ''_'' then Some (False, u2)
                        else let h0 = take (hEnd - hStart) (drop hStart url);
                                 (cred, h1) = (case rfind_chr h0 (CHR ''@'') of
                                      None \<Rightarrow> ([], h0)
                                    | Some l \<Rightarrow> (UrlUnescape (take l h0), drop (l + 1) h0));
                                 u3 = u2\<lparr>sUserPass := cred, sHost := h1\<rparr>
                             in case (if noPort then Some (h1, 0) else url_port h1 brac) of
                                  None \<Rightarrow> Some (False, u3)
                                | Some (h2, port) \<Rightarrow>
                                    (case url_brackets h2 brac of
                                       None \<Rightarrow> None
                                     | Some None \<Rightarrow> Some (False, u3\<lparr>sHost := h2, nPort := port\<rparr>)
                                     | Some (Some (h3, v6)) \<Rightarrow>
                                         let h4 = (if v6 then h3 else UrlUnescape h3)
                                         in Some (find_sub '':::'' h4 = None,
                                                  u3\<lparr>sHost := h4, nPort := port\<rparr>)))"

section \<open>Printing\<close>

definition ToURI :: "tHttpUrl \<Rightarrow> bool \<Rightarrow> bool \<Rightarrow> string" where
  "ToURI u bUrlEscaped hostOnly =
     (let s = GetProtoPrefix u;
          port = (if nPort u \<noteq> 0 then '':'' @ port_fmt (nPort u) else [])
      in if bUrlEscaped then UrlEscapeAppend (sPath u) (UrlEscapeAppend (sHost u) s @ port)
         else s @ sHost u @ port @ (if hostOnly then [] else sPath u))"

section \<open>Printing and parsing are inverse\<close>

definition host_char :: "char \<Rightarrow> bool" where
  "host_char c \<longleftrightarrow> isalnum c \<or> c = CHR ''.'' \<or> c = CHR ''-''"

definition good_host :: "string \<Rightarrow> bool" where
  "good_host h \<longleftrightarrow> h \<noteq> [] \<and> list_all host_char h \<and> length h < 1024"

definition good_path :: "string \<Rightarrow> bool" where
  "good_path p \<longleftrightarrow> p \<noteq> [] \<and> hd p = CHR ''/'' \<and> last p \<notin> set SPACECHARS \<and>
     (tl p = [] \<or> hd (tl p) \<noteq> CHR ''/'')"

lemma host_char_not:
  assumes "host_char c"
  shows "c \<noteq> CHR ''/''" "c \<noteq> CHR '':''" "c \<noteq> CHR ''@''" "c \<noteq> CHR ''[''" "c \<noteq> CHR '']''"
    "c \<noteq> CHR ''%''" "c \<noteq> CHR ''_''"
  using assms by (auto simp: host_char_def isalnum_def isdigit_def isupper_def islower_def)

lemma not_host_char: "\<not> host_char (CHR ''/'')" "\<not> host_char (CHR ''@'')"
  by (simp_all add: host_char_def isalnum_def isdigit_def isupper_def islower_def)

lemma host_char_digit: "isdigit c \<Longrightarrow> host_char c"
  by (simp add: host_char_def isalnum_def)

lemma nat_str_80: "nat_str 80 = ''80''"
  by code_simp

lemma nat_str_443: "nat_str 443 = ''443''"
  by code_simp

lemma uint_small: "unat (p :: 16 word) < 2 ^ 15 \<Longrightarrow> uint p < 2 ^ 15"
proof -
  assume "unat p < 2 ^ 15"
  then have "int (unat p) < int (2 ^ 15)" by (simp only: of_nat_less_iff)
  then show ?thesis by simp
qed

lemma port_fmt_small:
  assumes "unat p < 2 ^ 15"
  shows "port_fmt p = nat_str (unat p)"
proof -
  have "sint p = int (unat p)"
    using uint_small [OF assms] signed_take_bit_int_eq_self [of 15 "uint p"] uint_ge_0 [of p]
    by (simp add: sint_uint)
  then have i: "int_str (sint p) = nat_str (unat p)" by (simp add: int_str_def)
  have "length (nat_str (unat p)) \<le> 5"
    using assms length_nat_str [of "unat p" 4] by simp
  moreover have "p = 80 \<Longrightarrow> nat_str (unat p) = ''80''" "p = 443 \<Longrightarrow> nat_str (unat p) = ''443''"
    using nat_str_80 nat_str_443 by simp_all
  ultimately show ?thesis by (simp add: port_fmt_def i)
qed

lemma url_port_print:
  assumes "list_all host_char h" and "unat p < 2 ^ 15"
  shows "url_port (h @ (if p \<noteq> 0 then '':'' @ port_fmt p else [])) False = Some (h, p)"
proof (cases "p = 0")
  case True
  have "CHR '':'' \<notin> set h" using assms(1) host_char_not(2) by (auto simp: list_all_iff)
  then have "rfind_chr h (CHR '':'') = None" by (auto simp: rfind_chr_def rfind_pos_None)
  with True show ?thesis by (simp add: url_port_def)
next
  case False
  let ?d = "nat_str (unat p)"
  have dg: "\<forall>c \<in> set ?d. isdigit c" by (rule nat_str_digits)
  have "\<forall>y \<in> set ?d. \<not> y = CHR '':''" using dg by (auto simp: isdigit_def)
  then have r: "rfind_chr (h @ CHR '':'' # ?d) (CHR '':'') = Some (length h)"
    unfolding rfind_chr_def by (intro rfind_pos_split) simp_all
  have "unat p < 2 ^ 63" using assms(2) by simp
  then have "atoll ?d = int (unat p)" by (rule atoll_nat_str)
  moreover have "to_int32 (int (unat p)) = int (unat p)"
    using uint_small [OF assms(2)] by (intro to_int32_small) simp_all
  moreover have "length h \<noteq> length (h @ CHR '':'' # ?d) - 1" by simp
  moreover have "int (unat p) \<le> 65535" using uint_small [OF assms(2)] by simp
  ultimately show ?thesis
    using False r dg by (simp add: url_port_def port_fmt_small [OF assms(2)] list_all_iff)
qed

lemma no_char_rfind: "c \<notin> set s \<Longrightarrow> rfind_chr s c = None"
  by (auto simp: rfind_chr_def rfind_pos_None)

lemma find_sub_char_None: "c \<notin> set s \<Longrightarrow> c \<in> set pat \<Longrightarrow> find_sub pat s = None"
  unfolding find_sub_None_iff by (metis in_set_dropD in_set_takeD)

lemma UrlUnescape_id: "CHR ''%'' \<notin> set s \<Longrightarrow> int (length s) < 2 ^ 64 \<Longrightarrow> UrlUnescape s = s"
  using unesc_no_pct [of s True "[]" "[]"]
  by (simp add: UrlUnescape_def UrlUnescapeAppend_def UrlUnescape_loop_unesc)

lemma url_path_print:
  assumes "\<forall>c \<in> set hp. c \<noteq> CHR ''/''" and "good_path path" and "0 < length pre + length hp"
  shows "url_path (pre @ hp @ path) (length pre) = (length pre + length hp, path)"
proof -
  obtain r where path: "path = CHR ''/'' # r" and r: "r = [] \<or> hd r \<noteq> CHR ''/''"
    using assms(2) by (cases path) (auto simp: good_path_def)
  have "find_pos (\<lambda>c. c = CHR ''/'') (hp @ CHR ''/'' # r) = Some (length hp)"
    using assms(1) by (intro find_pos_split) simp_all
  then have f: "find_pos_from (\<lambda>c. c = CHR ''/'') (pre @ hp @ path) (length pre) =
      Some (length pre + length hp)"
    by (simp add: find_pos_from_def path)
  have d: "drop (length pre + length hp) (pre @ hp @ path) = path" by simp
  have "takeWhile (\<lambda>c. c = CHR ''/'') path = ''/''"
    using r by (cases r) (simp_all add: path)
  then have "skip_slashes (pre @ hp @ path) (length pre + length hp) = length pre + length hp + 1"
    unfolding skip_slashes_def d by simp
  with f d assms(3) show ?thesis by (auto simp: url_path_def Let_def)
qed

lemma url_scheme_print:
  "url_scheme (GetProtoPrefix u @ rest) =
     Some (if bSSL u then 8 else 7, bSSL u, False, False)"
proof -
  have h: "\<And>s. c_str (CHR ''h'' # s) = CHR ''h'' # c_str s"
    "\<And>s. c_str (CHR ''t'' # s) = CHR ''t'' # c_str s"
    "\<And>s. c_str (CHR ''p'' # s) = CHR ''p'' # c_str s"
    "\<And>s. c_str (CHR ''s'' # s) = CHR ''s'' # c_str s"
    "\<And>s. c_str (CHR '':'' # s) = CHR '':'' # c_str s"
    "\<And>s. c_str (CHR ''/'' # s) = CHR ''/'' # c_str s"
    by (simp_all add: c_str_def)
  have "c_str [] = []" by (simp add: c_str_def)
  with h show ?thesis
    by (simp add: url_scheme_def GetProtoPrefix_def strncasecmp_eq_def tolower_def isupper_def)
qed

lemma hp_chars:
  assumes "good_host h" and "unat p < 2 ^ 15"
  shows "c \<in> set (h @ (if p \<noteq> 0 then '':'' @ port_fmt p else [])) \<Longrightarrow>
    host_char c \<or> c = CHR '':''"
  using assms nat_str_digits [of "unat p"]
  by (auto simp: good_host_def list_all_iff port_fmt_small host_char_digit split: if_splits)

text \<open>
  C35. A URL with a plain host name, a port below 32768 (or none), no credentials and a path with one
  leading slash is printed and parsed back to the same value.
\<close>

theorem url_print_parse:
  assumes "good_host (sHost u)" and "good_path (sPath u)" and "unat (nPort u) < 2 ^ 15"
    and "sUserPass u = []"
  shows "SetHttpUrl (ToURI u False False) False = Some (True, u)"
proof -
  let ?pre = "GetProtoPrefix u" and ?h = "sHost u" and ?p = "nPort u"
  let ?hp = "?h @ (if ?p \<noteq> 0 then '':'' @ port_fmt ?p else [])"
  let ?url = "?pre @ ?hp @ sPath u"
  have uri: "ToURI u False False = ?url" by (simp add: ToURI_def)
  have lp: "length ?pre = (if bSSL u then 8 else 7)" by (simp add: GetProtoPrefix_def)
  have hne: "?h \<noteq> []" and hc: "list_all host_char ?h" and hl: "length ?h < 1024"
    using assms(1) by (auto simp: good_host_def)
  have hpc: "c \<in> set ?hp \<Longrightarrow> host_char c \<or> c = CHR '':''" for c
    by (rule hp_chars [OF assms(1,3)])
  have nin: "x \<notin> set ?hp" if "\<not> host_char x" "x \<noteq> CHR '':''" for x using hpc [of x] that by blast
  have tb: "trimBack_str ?url SPACECHARS = ?url"
    using assms(2) by (intro trimBack_str_id) (auto simp: good_path_def)
  have tf: "trimFront_str ?url SPACECHARS = ?url"
    by (intro trimFront_str_id) (auto simp: GetProtoPrefix_def SPACECHARS_def)
  have hd_h: "host_char (hd ?h)" using hne hc by (cases ?h) auto
  have sk: "skip_slashes ?url (length ?pre) = length ?pre"
    using hd_h hne host_char_not(1) by (cases ?h) (auto simp: skip_slashes_def)
  have pa: "url_path ?url (length ?pre) = (length ?pre + length ?hp, sPath u)"
  proof (rule url_path_print [OF _ assms(2)])
    show "\<forall>c \<in> set ?hp. c \<noteq> CHR ''/''" using nin [OF not_host_char(1)] by auto
  qed (simp add: lp)
  have c0: "?url ! length ?pre \<noteq> CHR ''_''"
    using hd_h hne host_char_not(7) by (cases ?h) auto
  have at: "rfind_chr ?hp (CHR ''@'') = None"
    using nin [OF not_host_char(2)] by (intro no_char_rfind) simp
  have po: "url_port ?hp False = Some (?h, ?p)" by (rule url_port_print [OF hc assms(3)])
  have br: "url_brackets ?h False = Some (Some (?h, False))"
  proof -
    have "last ?h \<noteq> CHR '']''" "hd ?h \<noteq> CHR ''[''"
      using hne hc host_char_not(4,5) by (auto simp: list_all_iff)
    then show ?thesis using hne by (cases ?h) (auto simp: url_brackets_def char_at_def)
  qed
  have un: "UrlUnescape ?h = ?h"
    using hc hl host_char_not(6) by (intro UrlUnescape_id) (auto simp: list_all_iff)
  have tri: "find_sub '':::'' ?h = None"
    using hc host_char_not(2) by (intro find_sub_char_None [of "CHR '':''"]) (auto simp: list_all_iff)
  have tk: "take (length ?pre + length ?hp - length ?pre) (drop (length ?pre) ?url) = ?hp" by simp
  have lt: "\<not> length ?pre \<ge> length ?url" using hne by simp
  have ne: "?url \<noteq> []" using hne by simp
  have "SetHttpUrl (ToURI u False False) False =
      Some (True, url_clear\<lparr>bSSL := bSSL u, sPath := sPath u, sUserPass := [], sHost := ?h, nPort := ?p\<rparr>)"
    unfolding SetHttpUrl_def uri Let_def if_False tb tf if_not_P [OF ne]
      url_scheme_print option.case prod.case lp [symmetric] sk if_not_P [OF lt] pa
      if_not_P [OF c0] tk at po br un tri
    by simp
  then show ?thesis using assms(4) by (simp add: url_clear_def)
qed

theorem url_print_parse_witness:
  "SetHttpUrl (ToURI \<lparr>nPort = 8080, sHost = ''ftp.debian.org'', sPath = ''/debian/'',
      sUserPass = [], bSSL = True\<rparr> False False) False =
    Some (True, \<lparr>nPort = 8080, sHost = ''ftp.debian.org'', sPath = ''/debian/'',
      sUserPass = [], bSSL = True\<rparr>)"
  by (rule url_print_parse)
    (simp_all add: good_host_def good_path_def host_char_def isalnum_def isdigit_def islower_def
      isupper_def SPACECHARS_def)

text \<open>
  From port 32768 on the printed port is negative (the format is that of a signed short), so
  the printed URL does not name the port.
\<close>

theorem port_fmt_negative:
  assumes "2 ^ 15 \<le> unat p"
  shows "\<exists>ds. port_fmt p = CHR ''-'' # ds"
proof -
  have "int (2 ^ 15) \<le> int (unat p)" using assms by (simp only: of_nat_le_iff)
  then have u: "2 ^ 15 \<le> uint p" by simp
  have "uint p < 2 ^ 16" using uint_lt2p [of p] by simp
  moreover have "(uint p + 32768) mod 65536 = uint p - 32768"
    using u calculation minus_mod_self2 [of "uint p + 32768" "65536 :: int"] by simp
  ultimately have "sint p = uint p - 2 ^ 16"
    using u by (simp add: sint_uint signed_take_bit_int_eq_self signed_take_bit_eq_take_bit_shift take_bit_eq_mod)
  moreover have "p \<noteq> 80" "p \<noteq> 443" using assms by auto
  ultimately show ?thesis using u \<open>uint p < 2 ^ 16\<close> by (simp add: port_fmt_def int_str_def)
qed

theorem port_fmt_negative_witness: "\<exists>ds. port_fmt 40000 = CHR ''-'' # ds"
  using port_fmt_negative [of 40000] by simp

text \<open>
  The key of the connection, DNS and blacklist tables separates its arguments: two host and
  port pairs with the same key are the same pair.
\<close>

theorem makeHostPortKey_inject:
  "makeHostPortKey h p = makeHostPortKey h' p' \<longleftrightarrow> h = h' \<and> p = p'"
proof
  assume eq: "makeHostPortKey h p = makeHostPortKey h' p'"
  have lt: "unat (q :: 16 word) div 256 < 256" for q
    using unsigned_less [of q, where ?'a = nat] by simp
  have "char_of (unat p mod 256) = (char_of (unat p' mod 256) :: char)"
    "char_of (unat p div 256) = (char_of (unat p' div 256) :: char)" and h: "h = h'"
    using eq by (simp_all add: makeHostPortKey_def)
  then have "unat p mod 256 = unat p' mod 256" "unat p div 256 = unat p' div 256"
    by (metis mod_mod_trivial of_char_of, metis lt mod_less of_char_of)
  then have "unat p = unat p'" by (metis div_mult_mod_eq)
  with h show "h = h' \<and> p = p'" by (simp add: word_unat_eq_iff)
qed simp

lemma url_path_slash:
  assumes "i < length url" and "url ! i \<noteq> CHR ''/''"
  shows "\<exists>r. snd (url_path url i) = CHR ''/'' # r \<and> (r = [] \<or> hd r \<noteq> CHR ''/'')"
proof (cases "find_pos_from (\<lambda>c. c = CHR ''/'') url i")
  case None
  then show ?thesis
  proof (cases "find_pos_from (\<lambda>c. c = CHR ''?'') url i")
    case None
    with \<open>find_pos_from (\<lambda>c. c = CHR ''/'') url i = None\<close> show ?thesis by (simp add: url_path_def)
  next
    case (Some q)
    then have "hd (drop q url) = CHR ''?''"
      by (auto simp: find_pos_from_def find_pos_Some hd_drop_conv_nth)
    with Some None show ?thesis by (simp add: url_path_def)
  qed
next
  case (Some e)
  let ?t = "takeWhile (\<lambda>c. c = CHR ''/'') (drop e url)"
  have e: "i \<le> e" "e < length url" "url ! e = CHR ''/''"
    using Some by (auto simp: find_pos_from_def find_pos_Some)
  with assms have "0 < e" by (cases e) auto
  have dr: "drop e url = CHR ''/'' # drop (Suc e) url" using e by (metis Cons_nth_drop_Suc)
  then have tl: "0 < length ?t" by simp
  let ?p = "e + length ?t - 1"
  have rep: "?t = replicate (length ?t) (CHR ''/'')"
    by (rule replicate_length_same [symmetric]) (auto dest: set_takeWhileD)
  have le: "length ?t \<le> length (drop e url)" by (rule length_takeWhile_le)
  have np: "url ! ?p = CHR ''/''"
  proof -
    have "drop e url ! (length ?t - 1) = ?t ! (length ?t - 1)"
      using tl by (simp add: takeWhile_nth)
    also have "\<dots> = CHR ''/''" using rep tl by (metis diff_less nth_replicate zero_less_one)
    finally have "drop e url ! (length ?t - 1) = CHR ''/''" .
    moreover have "e + (length ?t - 1) = ?p" using tl by linarith
    ultimately show ?thesis using nth_drop [of e url "length ?t - 1"] e(2) by simp
  qed
  have lt: "?p < length url" using le tl e(2) by simp
  have "drop ?p url = CHR ''/'' # drop (Suc ?p) url" using np lt by (metis Cons_nth_drop_Suc)
  moreover have "drop (Suc ?p) url = dropWhile (\<lambda>c. c = CHR ''/'') (drop e url)"
    using tl by (simp add: dropWhile_eq_drop add.commute)
  moreover have "r = [] \<or> hd r \<noteq> CHR ''/''" if "r = dropWhile (\<lambda>c. c = CHR ''/'') (drop e url)" for r
    using that hd_dropWhile by blast
  ultimately show ?thesis
    using Some \<open>0 < e\<close> tl by (auto simp: url_path_def skip_slashes_def Let_def)
qed

lemma skip_slashes_stop:
  assumes "skip_slashes url i < length url"
  shows "url ! skip_slashes url i \<noteq> CHR ''/''"
proof -
  let ?t = "takeWhile (\<lambda>c. c = CHR ''/'') (drop i url)"
  have "length ?t < length (drop i url)" using assms by (simp add: skip_slashes_def)
  then have "drop i url ! length ?t \<noteq> CHR ''/''" using nth_length_takeWhile by blast
  then show ?thesis using assms by (simp add: skip_slashes_def nth_drop)
qed

lemma accepted_url_parts:
  assumes "SetHttpUrl s e = Some (True, u)"
  shows "\<exists>url hs. skip_slashes url hs < length url \<and> sPath u = snd (url_path url (skip_slashes url hs)) \<and> find_sub '':::'' (sHost u) = None"
proof -
  define url where "url = trimFront_str (trimBack_str (if e then UrlUnescape s else s) SPACECHARS) SPACECHARS"
  obtain hs ssl brac noPort where sc: "url_scheme url = Some (hs, ssl, brac, noPort)" "url \<noteq> []"
    using assms by (auto simp: SetHttpUrl_def Let_def url_def [symmetric] split: if_splits option.splits)
  define st where "st = skip_slashes url hs"
  have lt: "st < length url" using assms sc unfolding SetHttpUrl_def Let_def url_def [symmetric] by (simp add: st_def [symmetric] split: if_splits)
  obtain hEnd path where p: "url_path url st = (hEnd, path)" by fastforce
  obtain cred h1 where c: "(case rfind_chr (take (hEnd - st) (drop st url)) (CHR ''@'') of
                                      None \<Rightarrow> ([], take (hEnd - st) (drop st url))
                                    | Some l \<Rightarrow> (UrlUnescape (take l (take (hEnd - st) (drop st url))), drop (l + 1) (take (hEnd - st) (drop st url)))) = (cred, h1)" by fastforce
  show ?thesis
    using assms sc lt p unfolding SetHttpUrl_def Let_def url_def [symmetric]
    by (intro exI [of _ url] exI [of _ hs], simp add: st_def [symmetric] c split: if_splits option.splits prod.splits, fastforce+)
qed

text \<open>
  Every URL the parser accepts has a path that starts with exactly one slash, and a host
  without three colons in a row.
\<close>

theorem accepted_url_shape:
  assumes "SetHttpUrl s e = Some (True, u)"
  shows "(\<exists>r. sPath u = CHR ''/'' # r \<and> (r = [] \<or> hd r \<noteq> CHR ''/'')) \<and>
    find_sub '':::'' (sHost u) = None"
proof -
  from accepted_url_parts [OF assms] obtain url hs where
    i: "skip_slashes url hs < length url" and p: "sPath u = snd (url_path url (skip_slashes url hs))"
    and t: "find_sub '':::'' (sHost u) = None" by blast
  with url_path_slash [OF i skip_slashes_stop [OF i]] show ?thesis by simp
qed

theorem accepted_url_shape_witness:
  "\<exists>r. ''/path'' = CHR ''/'' # r \<and> (r = [] \<or> hd r \<noteq> CHR ''/'')"
proof -
  have "SetHttpUrl ''http://meh:1234//path'' False =
      Some (True, \<lparr>nPort = 1234, sHost = ''meh'', sPath = ''/path'', sUserPass = [], bSSL = False\<rparr>)"
    by code_simp
  from accepted_url_shape [OF this] show ?thesis by simp
qed

end
