(* ===== verification/AcBuf.thy ===== *)
theory AcBuf
  imports Strings
begin

text \<open>
  \<open>src/acbuf.h\<close> and \<open>src/acbuf.cc\<close>: the byte buffer with read and write positions that all
  network and file code uses, and the append operation of its stream variant \<open>tSS\<close>.

  The locale \<open>byte_queue\<close> is the contract its clients rely on (response parsing, sending): the
  visible bytes form a queue. It is interpreted on the buffer operations below.
  Failing allocation (\<open>setsize\<close> returning false, \<open>std::bad_alloc\<close>) is not modelled.
\<close>

record acbuf =
  ab_r :: nat
  ab_w :: nat
  ab_capa :: nat
  ab_mem :: string

definition acbuf_new :: acbuf where
  "acbuf_new = \<lparr>ab_r = 0, ab_w = 0, ab_capa = 0, ab_mem = []\<rparr>"

definition ab_size :: "acbuf \<Rightarrow> nat" where "ab_size b = ab_w b - ab_r b"
definition ab_empty :: "acbuf \<Rightarrow> bool" where "ab_empty b \<longleftrightarrow> ab_w b = ab_r b"
definition ab_freecapa :: "acbuf \<Rightarrow> nat" where "ab_freecapa b = ab_capa b - ab_w b"

definition ab_view :: "acbuf \<Rightarrow> string" where
  "ab_view b = take (ab_w b - ab_r b) (drop (ab_r b) (ab_mem b))"

definition ab_clear :: "acbuf \<Rightarrow> acbuf" where
  "ab_clear b = b\<lparr>ab_w := 0, ab_r := 0\<rparr>"

definition ab_erase :: "nat \<Rightarrow> acbuf \<Rightarrow> acbuf" where
  "ab_erase pos b =
     (let b1 = b\<lparr>ab_w := ab_r b + pos\<rparr> in if ab_r b1 = ab_w b1 then ab_clear b1 else b1)"

definition ab_drop :: "nat \<Rightarrow> acbuf \<Rightarrow> acbuf" where
  "ab_drop count b =
     (let b1 = b\<lparr>ab_r := ab_r b + count\<rparr> in if ab_r b1 = ab_w b1 then ab_clear b1 else b1)"

definition ab_got :: "nat \<Rightarrow> acbuf \<Rightarrow> acbuf" where
  "ab_got count b = b\<lparr>ab_w := ab_w b + count\<rparr>"

text \<open>\<open>memmove\<close> of \<open>w + 1 - r\<close> bytes to the start; the bytes behind them keep their values.\<close>

definition ab_move :: "acbuf \<Rightarrow> acbuf" where
  "ab_move b =
     (if ab_r b = 0 then b
      else let n = ab_w b + 1 - ab_r b
           in b\<lparr>ab_mem := take n (drop (ab_r b) (ab_mem b)) @ drop n (ab_mem b),
                ab_w := ab_w b - ab_r b, ab_r := 0\<rparr>)"

text \<open>
  \<open>realloc\<close> keeps the common prefix; fresh bytes are unspecified in C and NUL here, the last one
  is set to NUL by the code.
\<close>

definition ab_setsize :: "nat \<Rightarrow> acbuf \<Rightarrow> acbuf" where
  "ab_setsize c b =
     (if ab_capa b = c then b
      else let m = take (c + 1) (ab_mem b)
           in b\<lparr>ab_mem := take c (m @ replicate (c + 1 - length m) (CHR 0x00)) @ [CHR 0x00],
                ab_capa := c\<rparr>)"

definition ab_reserve_atleast :: "nat \<Rightarrow> acbuf \<Rightarrow> acbuf" where
  "ab_reserve_atleast n b =
     (if ab_w b + n + 1 < ab_capa b then b else ab_setsize (2 * (ab_w b + n)) b)"

text \<open>Writing at \<open>wptr()\<close>, as \<open>memcpy\<close> and \<open>read\<close> do.\<close>

definition ab_write :: "string \<Rightarrow> acbuf \<Rightarrow> acbuf" where
  "ab_write s b =
     b\<lparr>ab_mem := take (ab_w b) (ab_mem b) @ s @ drop (ab_w b + length s) (ab_mem b)\<rparr>"

definition tss_add :: "string \<Rightarrow> acbuf \<Rightarrow> acbuf" where
  "tss_add s b = ab_got (length s) (ab_write s (ab_reserve_atleast (length s) b))"

text \<open>
  \<open>sysread\<close>: one \<open>read\<close> of at most \<open>min maxlen freecapa\<close> bytes; \<open>avail\<close> is what the descriptor
  can deliver, \<open>Inl e\<close> an error number other than \<open>EINTR\<close> (which is retried).
\<close>

definition ab_sysread :: "nat \<Rightarrow> int + string \<Rightarrow> acbuf \<Rightarrow> int \<times> acbuf" where
  "ab_sysread maxlen avail b =
     (case avail of
        Inl e \<Rightarrow> (- e, b)
      | Inr bytes \<Rightarrow>
          let d = take (min maxlen (ab_freecapa b)) bytes
          in (int (length d), if d = [] then b else ab_got (length d) (ab_write d b)))"

text \<open>
  \<open>dumpall(fd, limit)\<close>: the loop of \<open>write\<close> calls. The list gives their results: \<open>Inr n\<close> for
  \<open>n\<close> bytes accepted (the kernel takes at most what is offered), \<open>Inl True\<close> for \<open>EINTR\<close> or
  \<open>EAGAIN\<close>, \<open>Inl False\<close> for any other failure. Result: return value, bytes written, buffer;
  \<open>None\<close> if the list ends before the loop does.
\<close>

fun dumpall_loop :: "(bool + nat) list \<Rightarrow> nat \<Rightarrow> int \<Rightarrow> string \<Rightarrow> acbuf \<Rightarrow> (int \<times> string \<times> acbuf) option" where
  "dumpall_loop ws 0 ret out b = Some (ret, out, b)"
| "dumpall_loop [] (Suc l) ret out b = None"
| "dumpall_loop (Inl True # ws) (Suc l) ret out b = dumpall_loop ws (Suc l) ret out b"
| "dumpall_loop (Inl False # ws) (Suc l) ret out b = Some (-1, out, b)"
| "dumpall_loop (Inr n # ws) (Suc l) ret out b =
     (let k = min n (Suc l) in
      if k = 0 then Some (-1, out, b)
      else dumpall_loop ws (Suc l - k) ret (out @ take k (ab_view b)) (ab_drop k b))"

definition ab_dumpall :: "(bool + nat) list \<Rightarrow> nat \<Rightarrow> acbuf \<Rightarrow> (int \<times> string \<times> acbuf) option" where
  "ab_dumpall ws limit b =
     (let l = min limit (ab_size b) in dumpall_loop ws l (int l) [] b)"

section \<open>Invariant\<close>

definition ab_inv :: "acbuf \<Rightarrow> bool" where
  "ab_inv b \<longleftrightarrow> ab_r b \<le> ab_w b \<and> ab_w b \<le> ab_capa b \<and>
     (ab_capa b = 0 \<and> ab_mem b = [] \<or> length (ab_mem b) = ab_capa b + 1)"

named_theorems ab_defs "definitions of the buffer operations"

lemmas [ab_defs] = ab_size_def ab_empty_def ab_freecapa_def ab_view_def ab_clear_def ab_erase_def
  ab_drop_def ab_got_def ab_move_def ab_setsize_def ab_reserve_atleast_def ab_write_def tss_add_def
  ab_inv_def Let_def

lemma ab_view_length: "ab_inv b \<Longrightarrow> length (ab_view b) = ab_size b"
  by (auto simp: ab_defs)

lemma ab_inv_new: "ab_inv acbuf_new"
  by (simp add: ab_defs acbuf_new_def)

lemma ab_inv_clear: "ab_inv b \<Longrightarrow> ab_inv (ab_clear b)"
  by (auto simp: ab_defs)

lemma ab_inv_drop: "ab_inv b \<Longrightarrow> n \<le> ab_size b \<Longrightarrow> ab_inv (ab_drop n b)"
  by (auto simp: ab_defs)

lemma ab_inv_move: "ab_inv b \<Longrightarrow> ab_inv (ab_move b)"
  by (auto simp: ab_defs)

lemma ab_view_drop:
  assumes "ab_inv b" and "n \<le> ab_size b"
  shows "ab_view (ab_drop n b) = drop n (ab_view b)"
proof (cases "ab_r b + n = ab_w b")
  case True
  then have "ab_w b - ab_r b = n" by simp
  with True show ?thesis by (simp add: ab_drop_def ab_clear_def ab_view_def)
next
  case False
  then show ?thesis by (simp add: ab_drop_def ab_view_def drop_take add.commute diff_diff_left)
qed

lemma ab_view_move: "ab_inv b \<Longrightarrow> ab_view (ab_move b) = ab_view b"
  by (auto simp: ab_move_def ab_view_def Let_def take_append Suc_diff_le ab_inv_def)

lemma ab_view_clear: "ab_view (ab_clear b) = []"
  by (simp add: ab_defs)

lemma ab_view_cong:
  "ab_w b' = ab_w b \<Longrightarrow> ab_r b' = ab_r b \<Longrightarrow> take (ab_w b) (ab_mem b') = take (ab_w b) (ab_mem b) \<Longrightarrow>
     ab_view b' = ab_view b"
  by (metis ab_view_def drop_take)

lemma ab_setsize_fields:
  "ab_w (ab_setsize c b) = ab_w b" "ab_r (ab_setsize c b) = ab_r b" "ab_capa (ab_setsize c b) = c"
  by (simp_all add: ab_setsize_def Let_def)

lemma ab_setsize_props:
  assumes "ab_inv b" and "ab_w b \<le> c"
  shows "ab_inv (ab_setsize c b)" "ab_view (ab_setsize c b) = ab_view b"
proof -
  show "ab_inv (ab_setsize c b)"
    using assms by (simp add: ab_inv_def ab_setsize_fields) (auto simp: ab_setsize_def Let_def)
  have "ab_w b \<le> length (ab_mem b)" using assms by (auto simp: ab_inv_def)
  with assms(2) show "ab_view (ab_setsize c b) = ab_view b"
    by (intro ab_view_cong) (simp_all add: ab_setsize_fields, simp add: ab_setsize_def Let_def min_def)
qed

lemma ab_reserve_props:
  assumes "ab_inv b"
  shows "ab_inv (ab_reserve_atleast n b)" "ab_view (ab_reserve_atleast n b) = ab_view b"
    "ab_w (ab_reserve_atleast n b) = ab_w b" "ab_r (ab_reserve_atleast n b) = ab_r b"
    "ab_w b + n \<le> ab_capa (ab_reserve_atleast n b)"
  using assms ab_setsize_props [OF assms, of "2 * (ab_w b + n)"]
  by (simp_all add: ab_reserve_atleast_def ab_setsize_fields)

lemma ab_write_got_props:
  assumes "ab_inv b" and "ab_w b + length s \<le> ab_capa b"
  shows "ab_inv (ab_got (length s) (ab_write s b))"
    "ab_view (ab_got (length s) (ab_write s b)) = ab_view b @ s"
proof -
  have le: "ab_w b \<le> length (ab_mem b)" "ab_r b \<le> ab_w b" using assms by (auto simp: ab_inv_def)
  show "ab_inv (ab_got (length s) (ab_write s b))"
    using assms by (auto simp: ab_inv_def ab_got_def ab_write_def)
  show "ab_view (ab_got (length s) (ab_write s b)) = ab_view b @ s"
    using le by (simp add: ab_view_def ab_got_def ab_write_def drop_take take_append min_absorb2)
qed

lemma ab_inv_add: "ab_inv b \<Longrightarrow> ab_inv (tss_add s b)"
  and ab_view_add: "ab_inv b \<Longrightarrow> ab_view (tss_add s b) = ab_view b @ s"
  using ab_reserve_props [of b "length s"] ab_write_got_props [of "ab_reserve_atleast (length s) b" s]
  by (simp_all add: tss_add_def)

section \<open>The queue contract\<close>

locale byte_queue =
  fixes new :: "'q" and add :: "string \<Rightarrow> 'q \<Rightarrow> 'q" and consume :: "nat \<Rightarrow> 'q \<Rightarrow> 'q"
    and view :: "'q \<Rightarrow> string" and inv :: "'q \<Rightarrow> bool"
  assumes inv_new: "inv new"
    and inv_add: "inv q \<Longrightarrow> inv (add s q)"
    and inv_consume: "inv q \<Longrightarrow> n \<le> length (view q) \<Longrightarrow> inv (consume n q)"
    and view_new: "view new = []"
    and view_add: "inv q \<Longrightarrow> view (add s q) = view q @ s"
    and view_consume: "inv q \<Longrightarrow> n \<le> length (view q) \<Longrightarrow> view (consume n q) = drop n (view q)"
begin

lemma fold_add: "inv q \<Longrightarrow> inv (fold add ss q) \<and> view (fold add ss q) = view q @ concat ss"
  by (induction ss arbitrary: q) (simp_all add: inv_add view_add)

lemma consume_add:
  "inv q \<Longrightarrow> n \<le> length (view q) \<Longrightarrow> view (consume n (add s q)) = drop n (view q) @ s"
  by (simp add: view_consume inv_add view_add)

lemma consume_all: "inv q \<Longrightarrow> view (consume (length (view q)) q) = []"
  by (simp add: view_consume)

lemma consume_twice:
  "inv q \<Longrightarrow> n + m \<le> length (view q) \<Longrightarrow>
     view (consume m (consume n q)) = view (consume (n + m) q)"
  by (simp add: view_consume inv_consume add.commute)

end

interpretation ab: byte_queue acbuf_new tss_add ab_drop ab_view ab_inv
  by unfold_locales
    (simp_all add: ab_inv_new ab_inv_add ab_view_add ab_view_length ab_inv_drop ab_view_drop,
      simp add: ab_view_def acbuf_new_def)

section \<open>Properties\<close>

text \<open>
  Chunks appended to the stream buffer come out in order: after any sequence of appends the
  visible contents are the old ones followed by the chunks, the positions stay within the
  capacity, and consuming bytes removes exactly that many from the front.
\<close>

theorem acbuf_fifo:
  assumes "ab_inv b" and "n \<le> length (ab_view b @ concat ss)"
  shows "ab_inv (fold tss_add ss b) \<and>
    ab_view (ab_drop n (fold tss_add ss b)) = drop n (ab_view b @ concat ss)"
  using ab.fold_add [OF assms(1), of ss] ab.view_consume assms(2) by simp

theorem acbuf_fifo_witness:
  "ab_view (ab_drop 3 (fold tss_add [''ab'', ''cde''] acbuf_new)) = ''de''"
  using acbuf_fifo [OF ab.inv_new, of 3 "[''ab'', ''cde'']"] by (simp add: ab.view_new)

lemma dumpall_loop_spec:
  assumes "ab_inv b" and "l \<le> ab_size b" and "dumpall_loop ws l ret out b = Some (r, out', b')"
  shows "\<exists>k \<le> l. out' = out @ take k (ab_view b) \<and> ab_view b' = drop k (ab_view b) \<and> ab_inv b' \<and>
    (r = ret \<and> k = l \<or> r = -1)"
  using assms
proof (induction ws l ret out b rule: dumpall_loop.induct)
  case (5 n ws l ret out b)
  let ?k = "min n (Suc l)"
  show ?case
  proof (cases "?k = 0")
    case True
    with 5(2,4) show ?thesis by (intro exI [of _ 0]) (auto simp: Let_def)
  next
    case False
    have le: "?k \<le> ab_size b" using 5(3) by simp
    have inv: "ab_inv (ab_drop ?k b)" by (rule ab_inv_drop [OF 5(2) le])
    have vw: "ab_view (ab_drop ?k b) = drop ?k (ab_view b)" by (rule ab_view_drop [OF 5(2) le])
    have sz: "Suc l - ?k \<le> ab_size (ab_drop ?k b)"
      using 5(3) ab_view_length [OF inv] ab_view_length [OF 5(2)] vw by simp
    obtain k where k: "k \<le> Suc l - ?k" "out' = (out @ take ?k (ab_view b)) @ take k (drop ?k (ab_view b))"
      "ab_view b' = drop k (drop ?k (ab_view b))" "ab_inv b'" "r = ret \<and> k = Suc l - ?k \<or> r = -1"
      using 5(1) [OF refl False inv sz] 5(4) False vw by (auto simp: Let_def)
    then show ?thesis
      by (intro exI [of _ "?k + k"]) (auto simp: take_add [symmetric] add.commute)
  qed
qed (auto intro!: exI [of _ 0])

text \<open>
  Whatever the kernel does with the single \<open>write\<close> calls, \<open>dumpall\<close> writes a prefix of the
  buffer contents and leaves exactly the rest in the buffer; if it reports success it has written
  the whole requested amount and returns it.
\<close>

theorem dumpall_writes_prefix:
  assumes "ab_inv b" and "ab_dumpall ws limit b = Some (r, out, b')"
  shows "out @ ab_view b' = ab_view b \<and> ab_inv b' \<and>
    (r \<noteq> -1 \<longrightarrow> out = take limit (ab_view b) \<and> r = int (length out))"
proof -
  let ?l = "min limit (ab_size b)"
  obtain k where k: "k \<le> ?l" "out = take k (ab_view b)" "ab_view b' = drop k (ab_view b)" "ab_inv b'"
    "r = int ?l \<and> k = ?l \<or> r = -1"
    using dumpall_loop_spec [OF assms(1), of ?l ws "int ?l" "[]" r out b'] assms(2)
    by (auto simp: ab_dumpall_def Let_def)
  then show ?thesis using ab_view_length [OF assms(1)] by (auto simp: min_def split: if_splits)
qed

theorem dumpall_writes_prefix_witness:
  "ab_dumpall [Inr 2, Inl True, Inr 9] 4 (tss_add ''abcdef'' acbuf_new) \<noteq> None"
proof -
  let ?b = "tss_add ''abcdef'' acbuf_new"
  have i: "ab_inv ?b" by (simp add: ab.inv_add ab.inv_new)
  obtain r out b' where d: "ab_dumpall [Inr 2, Inl True, Inr 9] 4 ?b = Some (r, out, b')"
    by (simp add: ab_dumpall_def ab_defs acbuf_new_def numeral_eq_Suc)
  then show ?thesis using dumpall_writes_prefix [OF i d] by simp
qed

end
