(* ===== verification/HttpDate.thy ===== *)
theory HttpDate
  imports AcBuf Meta
begin

text \<open>
  \<open>src/httpdate.h\<close> and \<open>src/httpdate.cc\<close>: the lazy HTTP date, the remote status line and the
  small metadata file ("head") that is stored beside every cached file.

  \<open>strptime\<close>, \<open>strftime\<close> and \<open>gmtime_r\<close> are modelled for the conversions the format strings of
  the program use, in the C locale (the program never calls \<open>setlocale\<close>), as glibc documents them.
  \<open>mktime\<close> depends on the time zone of the process and is the argument \<open>mk\<close> of the definitions
  that use it; \<open>timegm_ref\<close> is its value for a process that runs in UTC.
\<close>

section \<open>Calendar functions of the C library\<close>

record tm =
  tm_sec :: int
  tm_min :: int
  tm_hour :: int
  tm_mday :: int
  tm_mon :: int
  tm_year :: int
  tm_wday :: int

definition tm_zero :: tm where
  "tm_zero = \<lparr>tm_sec = 0, tm_min = 0, tm_hour = 0, tm_mday = 0, tm_mon = 0, tm_year = 0, tm_wday = 0\<rparr>"

definition wday_names :: "string list" where
  "wday_names = [''Sunday'', ''Monday'', ''Tuesday'', ''Wednesday'', ''Thursday'', ''Friday'', ''Saturday'']"

definition mon_names :: "string list" where
  "mon_names = [''January'', ''February'', ''March'', ''April'', ''May'', ''June'', ''July'', ''August'',
     ''September'', ''October'', ''November'', ''December'']"

text \<open>A full name or its three-letter form, ignoring case; the number and the unread rest.\<close>

fun match_name :: "string list \<Rightarrow> int \<Rightarrow> string \<Rightarrow> (int \<times> string) option" where
  "match_name [] k s = None"
| "match_name (n # ns) k s =
     (if map tolower (take (length n) s) = map tolower n then Some (k, drop (length n) s)
      else if map tolower (take 3 s) = map tolower (take 3 n) then Some (k, drop 3 s)
      else match_name ns (k + 1) s)"

fun get_num_loop :: "int \<Rightarrow> nat \<Rightarrow> int \<Rightarrow> string \<Rightarrow> int \<times> string" where
  "get_num_loop hi (Suc n) v (c # r) =
     (if v * 10 \<le> hi \<and> isdigit c then get_num_loop hi n (v * 10 + digit_val c) r else (v, c # r))"
| "get_num_loop hi n v s = (v, s)"

definition get_number :: "int \<Rightarrow> int \<Rightarrow> nat \<Rightarrow> string \<Rightarrow> (int \<times> string) option" where
  "get_number lo hi n s =
     (case dropWhile (\<lambda>c. c = CHR '' '') s of
        [] \<Rightarrow> None
      | c # r \<Rightarrow>
          if isdigit c then
            (case get_num_loop hi (n - 1) (digit_val c) r of
               (v, rest) \<Rightarrow> if v < lo \<or> hi < v then None else Some (v, rest))
          else None)"

definition strptime_conv :: "char \<Rightarrow> string \<Rightarrow> tm \<Rightarrow> (string \<times> tm) option" where
  "strptime_conv k s t =
     (if k = CHR ''a'' \<or> k = CHR ''A'' then map_option (\<lambda>(v, r). (r, t\<lparr>tm_wday := v\<rparr>)) (match_name wday_names 0 s)
      else if k = CHR ''b'' then map_option (\<lambda>(v, r). (r, t\<lparr>tm_mon := v\<rparr>)) (match_name mon_names 0 s)
      else if k = CHR ''d'' then map_option (\<lambda>(v, r). (r, t\<lparr>tm_mday := v\<rparr>)) (get_number 1 31 2 s)
      else if k = CHR ''Y'' then map_option (\<lambda>(v, r). (r, t\<lparr>tm_year := v - 1900\<rparr>)) (get_number 0 9999 4 s)
      else if k = CHR ''y'' then
        map_option (\<lambda>(v, r). (r, t\<lparr>tm_year := (if v \<ge> 69 then v else v + 100)\<rparr>)) (get_number 0 99 2 s)
      else if k = CHR ''H'' then map_option (\<lambda>(v, r). (r, t\<lparr>tm_hour := v\<rparr>)) (get_number 0 23 2 s)
      else if k = CHR ''M'' then map_option (\<lambda>(v, r). (r, t\<lparr>tm_min := v\<rparr>)) (get_number 0 59 2 s)
      else if k = CHR ''S'' then map_option (\<lambda>(v, r). (r, t\<lparr>tm_sec := v\<rparr>)) (get_number 0 61 2 s)
      else None)"

fun strptime :: "string \<Rightarrow> string \<Rightarrow> tm \<Rightarrow> (string \<times> tm) option" where
  "strptime [] s t = Some (s, t)"
| "strptime (c # fmt) s t =
     (if isspace c then strptime fmt (dropWhile isspace s) t
      else if c = CHR ''%'' then
        (case fmt of
           [] \<Rightarrow> None
         | k # fmt' \<Rightarrow>
             (case strptime_conv k s t of None \<Rightarrow> None | Some (s', t') \<Rightarrow> strptime fmt' s' t'))
      else (case s of
              [] \<Rightarrow> None
            | x # s' \<Rightarrow> if x = c then strptime fmt s' t else None))"

definition pad2 :: "int \<Rightarrow> string" where
  "pad2 v = (if 0 \<le> v \<and> v < 10 then ''0'' @ int_str v else int_str v)"

definition name3 :: "string list \<Rightarrow> int \<Rightarrow> string" where
  "name3 ns v = (if 0 \<le> v \<and> nat v < length ns then take 3 (ns ! nat v) else ''?'')"

definition strftime_conv :: "char \<Rightarrow> tm \<Rightarrow> string" where
  "strftime_conv k t =
     (if k = CHR ''a'' then name3 wday_names (tm_wday t)
      else if k = CHR ''b'' then name3 mon_names (tm_mon t)
      else if k = CHR ''d'' then pad2 (tm_mday t)
      else if k = CHR ''Y'' then int_str (tm_year t + 1900)
      else if k = CHR ''H'' then pad2 (tm_hour t)
      else if k = CHR ''M'' then pad2 (tm_min t)
      else if k = CHR ''S'' then pad2 (tm_sec t)
      else [])"

fun strftime :: "string \<Rightarrow> tm \<Rightarrow> string" where
  "strftime [] t = []"
| "strftime (c # fmt) t =
     (if c = CHR ''%'' then (case fmt of [] \<Rightarrow> [] | k # fmt' \<Rightarrow> strftime_conv k t @ strftime fmt' t)
      else c # strftime fmt t)"

definition leap :: "int \<Rightarrow> bool" where
  "leap y \<longleftrightarrow> 4 dvd y \<and> (\<not> 100 dvd y \<or> 400 dvd y)"

definition year_len :: "int \<Rightarrow> int" where
  "year_len y = (if leap y then 366 else 365)"

definition month_lens :: "int \<Rightarrow> int list" where
  "month_lens y = [31, if leap y then 29 else 28, 31, 30, 31, 30, 31, 31, 30, 31, 30, 31]"

function year_of :: "int \<Rightarrow> int \<Rightarrow> int \<times> int" where
  "year_of y d = (if d < year_len y then (y, d) else year_of (y + 1) (d - year_len y))"
  by pat_completeness auto
termination
  by (relation "measure (\<lambda>(y, d). nat d)") (auto simp: year_len_def split: if_splits)

declare year_of.simps [simp del]

fun month_of :: "int list \<Rightarrow> int \<Rightarrow> int \<Rightarrow> int \<times> int" where
  "month_of [] m d = (m, d)"
| "month_of (l # ls) m d = (if d < l then (m, d) else month_of ls (m + 1) (d - l))"

text \<open>\<open>gmtime_r\<close> for a time since 1970.\<close>

definition gmtime :: "time_t \<Rightarrow> tm" where
  "gmtime t =
     (let days = t div 86400; s = t mod 86400;
          (y, yd) = year_of 1970 days;
          (m, d) = month_of (month_lens y) 0 yd
      in \<lparr>tm_sec = s mod 60, tm_min = s div 60 mod 60, tm_hour = s div 3600, tm_mday = d + 1,
          tm_mon = m, tm_year = y - 1900, tm_wday = (4 + days) mod 7\<rparr>)"

function days_before_year :: "int \<Rightarrow> int" where
  "days_before_year y = (if y \<le> 1970 then 0 else days_before_year (y - 1) + year_len (y - 1))"
  by pat_completeness auto
termination
  by (relation "measure (\<lambda>y. nat (y - 1970))") auto

declare days_before_year.simps [simp del]

definition timegm_ref :: "tm \<Rightarrow> time_t" where
  "timegm_ref t =
     (days_before_year (tm_year t + 1900)
       + sum_list (take (nat (tm_mon t)) (month_lens (tm_year t + 1900))) + tm_mday t - 1) * 86400
     + tm_hour t * 3600 + tm_min t * 60 + tm_sec t"

section \<open>The date class\<close>

definition date_fmts :: "string list" where
  "date_fmts = [''%a, %d %b %Y %H:%M:%S GMT'', ''%A, %d-%b-%y %H:%M:%S GMT'', ''%a %b %d %H:%M:%S %Y'']"

definition date_buf_size :: nat where "date_buf_size = 30"

fun ParseDate_fmts :: "string list \<Rightarrow> string \<Rightarrow> tm option" where
  "ParseDate_fmts [] s = None"
| "ParseDate_fmts (f # fs) s =
     (case strptime f s tm_zero of
        Some (rest, t) \<Rightarrow> if length s - length rest > 23 then Some t else ParseDate_fmts fs s
      | None \<Rightarrow> ParseDate_fmts fs s)"

definition ParseDate :: "string \<Rightarrow> tm option" where
  "ParseDate s = ParseDate_fmts date_fmts (c_str s)"

definition ParseDate_time :: "(tm \<Rightarrow> time_t) \<Rightarrow> string \<Rightarrow> time_t \<Rightarrow> time_t" where
  "ParseDate_time mk s onError = (case ParseDate s of Some t \<Rightarrow> mk t | None \<Rightarrow> onError)"

text \<open>The formatted text, empty if the function reports 0.\<close>

definition FormatTime :: "nat \<Rightarrow> tm \<Rightarrow> string" where
  "FormatTime bufLen t =
     (if bufLen < 30 then []
      else let s = strftime (hd date_fmts) t;
               len = (if length s < bufLen then length s else 0)
           in if len \<ge> bufLen \<or> len < 10 then [] else s)"

text \<open>
  \<open>hd_text\<close> holds the \<open>length\<close> bytes in use of \<open>buf\<close>; an unset date has none.
\<close>

record tHttpDate =
  hd_text :: string
  hd_isnorm :: bool

definition date_unset :: tHttpDate where
  "date_unset = \<lparr>hd_text = [], hd_isnorm = False\<rparr>"

definition date_isSet :: "tHttpDate \<Rightarrow> bool" where
  "date_isSet d \<longleftrightarrow> hd_text d \<noteq> [] \<and> hd (hd_text d) \<noteq> CHR 0x00"

definition date_view :: "tHttpDate \<Rightarrow> string" where
  "date_view d = (if date_isSet d then hd_text d else [])"

definition date_value :: "(tm \<Rightarrow> time_t) \<Rightarrow> tHttpDate \<Rightarrow> time_t \<Rightarrow> time_t" where
  "date_value mk d ifBad = (if date_isSet d then ParseDate_time mk (hd_text d) ifBad else ifBad)"

definition tHttpDate_time :: "time_t \<Rightarrow> tHttpDate" where
  "tHttpDate_time val =
     (if val \<ge> 0 then date_unset\<lparr>hd_text := FormatTime date_buf_size (gmtime val)\<rparr> else date_unset)"

definition date_normalized :: "string \<Rightarrow> tHttpDate" where
  "date_normalized s =
     (case ParseDate s of
        None \<Rightarrow> date_unset
      | Some t \<Rightarrow>
          let f = FormatTime date_buf_size t in
          if f \<noteq> [] then \<lparr>hd_text = f, hd_isnorm = True\<rparr> else date_unset)"

definition tHttpDate_cstr :: "string option \<Rightarrow> bool \<Rightarrow> tHttpDate" where
  "tHttpDate_cstr p forceNorm =
     (case p of
        None \<Rightarrow> date_unset
      | Some s \<Rightarrow>
          if c_str s = [] then date_unset
          else if \<not> forceNorm \<and> length (c_str s) < date_buf_size
          then \<lparr>hd_text = c_str s, hd_isnorm = False\<rparr>
          else date_normalized s)"

definition tHttpDate_sv :: "string \<Rightarrow> bool \<Rightarrow> tHttpDate" where
  "tHttpDate_sv s forceNorm =
     (if s = [] then date_unset
      else if \<not> forceNorm \<and> length s < date_buf_size then \<lparr>hd_text = s, hd_isnorm = False\<rparr>
      else date_normalized s)"

definition date_eq :: "(tm \<Rightarrow> time_t) \<Rightarrow> tHttpDate \<Rightarrow> tHttpDate \<Rightarrow> bool" where
  "date_eq mk a b \<longleftrightarrow>
     date_isSet a = date_isSet b \<and>
     (c_str (hd_text a) = c_str (hd_text b) \<or> date_value mk a (-1) = date_value mk b (-2))"

definition date_eq_cstr :: "(tm \<Rightarrow> time_t) \<Rightarrow> tHttpDate \<Rightarrow> string option \<Rightarrow> bool" where
  "date_eq_cstr mk a other =
     (let otherSet = (case other of None \<Rightarrow> False | Some s \<Rightarrow> c_str s \<noteq> []);
          s = (case other of None \<Rightarrow> [] | Some s \<Rightarrow> c_str s)
      in if date_isSet a then
           otherSet \<and> (take date_buf_size s = take date_buf_size (c_str (hd_text a)) \<or>
             date_value mk a (-1) = ParseDate_time mk s (-2))
         else \<not> otherSet)"

definition date_le :: "(tm \<Rightarrow> time_t) \<Rightarrow> tHttpDate \<Rightarrow> tHttpDate \<Rightarrow> bool" where
  "date_le mk a b \<longleftrightarrow> date_value mk a (-1) \<le> date_value mk b (-2)"

definition date_ge :: "(tm \<Rightarrow> time_t) \<Rightarrow> tHttpDate \<Rightarrow> tHttpDate \<Rightarrow> bool" where
  "date_ge mk a b \<longleftrightarrow> date_value mk a (-1) \<ge> date_value mk b (-2)"

definition date_lt :: "(tm \<Rightarrow> time_t) \<Rightarrow> tHttpDate \<Rightarrow> tHttpDate \<Rightarrow> bool" where
  "date_lt mk a b = date_ge mk b a"

definition date_gt :: "(tm \<Rightarrow> time_t) \<Rightarrow> tHttpDate \<Rightarrow> tHttpDate \<Rightarrow> bool" where
  "date_gt mk a b = date_le mk b a"

section \<open>Remote status\<close>

record tRemoteStatus =
  st_code :: int
  st_msg :: string

definition isRedirect :: "tRemoteStatus \<Rightarrow> bool" where
  "isRedirect s \<longleftrightarrow> st_code s \<in> {301, 302, 303, 307, 308}"

definition mustNotHaveBody :: "tRemoteStatus \<Rightarrow> bool" where
  "mustNotHaveBody s \<longleftrightarrow>
     (if st_code s \<in> {304, 204} then True else st_code s \<ge> 100 \<and> st_code s < 200)"

text \<open>
  The constructor that parses a status line. \<open>after\<close> are the bytes in memory behind the view
  \<open>s\<close>: \<open>svtol\<close> hands a pointer to \<open>strtol\<close> and sees them. The conversion result is a \<open>long\<close>
  stored to an \<open>int\<close>.
\<close>

definition parse_status :: "string \<Rightarrow> int \<Rightarrow> bool \<Rightarrow> string \<Rightarrow> tRemoteStatus" where
  "parse_status s errorCode stripHttpPrefix after =
     (let bad = \<lparr>st_code = errorCode, st_msg = ''Invalid header line''\<rparr>;
          (ok1, w1) = Next False False (split_walk_init s SPACECHARS);
          (ok2, w2) = (if ok1 \<and> stripHttpPrefix \<and> startsWith (sw_view w1) ''HTTP/1''
                       then Next False False w1 else (ok1, w1));
          tok = sw_view w2;
          code = to_int32 (svtol (sw_input w2 @ after) 0)
      in if \<not> ok2 \<or> tok = [] \<or> code = 0 then bad
         else let msg = sw_right False w2 in
           if msg = [] then bad else \<lparr>st_code = code, st_msg = msg\<rparr>)"

section \<open>The stored head of a cache item\<close>

definition svRN :: string where "svRN = [CHR 0x0D, CHR 0x0A]"
definition laMoPfx :: string where "laMoPfx = ''Last-Modified: ''"
definition origSrcPfx :: string where "origSrcPfx = ''X-Original-Source: ''"

text \<open>The three output pointers, \<open>None\<close> while nothing was stored through them.\<close>

record head_data =
  hdat_len :: "off_t option"
  hdat_mod :: "tHttpDate option"
  hdat_src :: "string option"

definition head_none :: head_data where
  "head_none = \<lparr>hdat_len = None, hdat_mod = None, hdat_src = None\<rparr>"

fun ParseHead_lines :: "string \<Rightarrow> (nat \<times> string) list \<Rightarrow> head_data \<Rightarrow> bool \<times> head_data" where
  "ParseHead_lines buf [] d = (True, d)"
| "ParseHead_lines buf ((off, it) # ls) d =
     (if it = [] then (True, d)
      else if hdat_len d = None \<and> startsWith it ''Content-Length:''
      then ParseHead_lines buf ls (d\<lparr>hdat_len := Some (atoofft (drop (off + 15) buf))\<rparr>)
      else if hdat_mod d = None \<and> startsWith it laMoPfx
      then ParseHead_lines buf ls
             (d\<lparr>hdat_mod := Some (tHttpDate_sv (trimBoth (drop (length laMoPfx) it) SPACECHARS) False)\<rparr>)
      else if hdat_src d = None \<and> startsWith it origSrcPfx
      then ParseHead_lines buf ls
             (d\<lparr>hdat_src := Some (trimBoth (drop (length origSrcPfx) it) SPACECHARS)\<rparr>)
      else ParseHead_lines buf ls d)"

text \<open>
  \<open>file\<close> is the contents of the head file, \<open>None\<close> if it cannot be read. The function is called
  with all three output pointers. The result for an unreadable file is \<open>-1\<close> converted to
  \<open>bool\<close>.
\<close>

definition ParseHeadFromStorage :: "string option \<Rightarrow> bool \<times> head_data" where
  "ParseHeadFromStorage file =
     (case file of
        None \<Rightarrow> (True, head_none)
      | Some buf \<Rightarrow>
          if buf = [] then (False, head_none)
          else (case split_by_str svRN 0 buf of
                  [] \<Rightarrow> (False, head_none)
                | (off, it) # ls \<Rightarrow>
                    if startsWith it ''HTTP/1.1 200'' then ParseHead_lines buf ls head_none
                    else (False, head_none)))"

definition head_text :: "off_t \<Rightarrow> tHttpDate \<Rightarrow> string \<Rightarrow> string" where
  "head_text contLen lastModified origSrc =
     ''HTTP/1.1 200 OK'' @ svRN @
     (if contLen \<ge> 0 then ''Content-Length: '' @ offttos contLen @ svRN else []) @
     (if date_isSet lastModified then ''Last-Modified: '' @ date_view lastModified @ svRN else []) @
     (if origSrc \<noteq> [] then ''X-Original-Source: '' @ origSrc @ svRN else []) @ svRN"

text \<open>
  \<open>write_res\<close> is what \<open>dumpall\<close> returns for the path and the text; the boolean result of the
  function is true for every number but 0, also for \<open>-1\<close>. The second component is the text
  handed to \<open>dumpall\<close>.
\<close>

definition StoreHeadToStorage :: "string \<Rightarrow> off_t \<Rightarrow> tHttpDate \<Rightarrow> string \<Rightarrow> int \<Rightarrow> bool \<times> string option" where
  "StoreHeadToStorage path contLen lastModified origSrc write_res =
     (if path = [] then (False, None)
      else (write_res \<noteq> 0, Some (head_text contLen lastModified origSrc)))"

section \<open>Lines of a head\<close>

lemma find_sub_RN_line:
  "find_sub svRN l = None \<Longrightarrow> find_sub svRN (l @ svRN @ rest) = Some (length l)"
proof (induction l)
  case Nil
  then show ?case by (simp add: svRN_def)
next
  case (Cons x l)
  then have ne: "take 2 (x # l) \<noteq> svRN" and IH: "find_sub svRN (l @ svRN @ rest) = Some (length l)"
    by (auto simp: svRN_def split: if_splits)
  have "take 2 (x # l @ svRN @ rest) \<noteq> svRN"
    using ne by (cases l) (auto simp: svRN_def)
  with IH show ?case by (simp add: svRN_def)
qed

lemma split_RN_line:
  assumes "find_sub svRN l = None"
  shows "split_by_str svRN off (l @ svRN @ rest) =
    (off, l) # split_by_str svRN (off + length l + 2) rest"
  using split_by_str_Some [OF find_sub_RN_line [OF assms, of rest], of off]
  by (simp add: svRN_def)

lemma split_RN_end:
  "split_by_str svRN off svRN = [(off, []), (off + 2, [])]"
  using split_RN_line [of "[]" off "[]"] split_by_str_None [of svRN "[]"] by (simp add: svRN_def)

lemma find_sub_RN_no_nl: "CHR 0x0A \<notin> set l \<Longrightarrow> find_sub svRN l = None"
proof (induction l)
  case (Cons x l)
  then show ?case by (cases l) (auto simp: svRN_def)
qed (simp add: svRN_def)

lemma find_sub_RN_append_no_nl:
  assumes "CHR 0x0A \<notin> set p" and "find_sub svRN l = None" and "p \<noteq> [] \<longrightarrow> last p \<noteq> CHR 0x0D"
  shows "find_sub svRN (p @ l) = None"
  using assms(1,3)
proof (induction p)
  case Nil
  with assms(2) show ?case by simp
next
  case (Cons x p)
  have IH: "find_sub svRN (p @ l) = None" using Cons by (auto split: if_splits)
  have "take 2 (x # p @ l) \<noteq> svRN" using Cons.prems by (cases p) (auto simp: svRN_def)
  with IH show ?case by (simp add: svRN_def)
qed

definition is_trimmed :: "string \<Rightarrow> bool" where
  "is_trimmed s \<longleftrightarrow> trimBoth s SPACECHARS = s"

definition head_value_ok :: "string \<Rightarrow> bool" where
  "head_value_ok s \<longleftrightarrow> is_trimmed s \<and> find_sub svRN s = None"

lemma atoll_skip_space: "atoll (CHR '' '' # s) = atoll s"
  by (simp add: atoll_def strtoll_def strtol10_def c_str_def isspace_def Let_def)

lemma atoll_nat_str_line: "n < 2 ^ 63 \<Longrightarrow> atoll (nat_str n @ svRN @ rest) = int n"
proof -
  assume n: "n < 2 ^ 63"
  have z: "CHR 0x00 \<notin> set (nat_str n)" using nat_str_digits [of n] by (auto simp: isdigit_def)
  have "int n < int (2 ^ 63)" using n by (simp only: of_nat_less_iff)
  moreover have "c_str (svRN @ rest) = [] \<or> \<not> isdigit (hd (c_str (svRN @ rest)))"
    by (simp add: svRN_def c_str_def isdigit_def)
  ultimately show ?thesis
    using strtol10_nat_str [of "c_str (svRN @ rest)" n LLONG_MAX LLONG_MIN] z
    by (simp add: atoll_def strtoll_def c_str_append LLONG_MAX_def LLONG_MIN_def)
qed

lemma startsWith_append [simp]: "startsWith (p @ s) p"
  by (simp add: startsWith_def)

lemma ParseHead_len:
  assumes "0 \<le> n" "n < 2 ^ 63" "hdat_len d = None" "buf = pre @ (''Content-Length: '' @ offttos n) @ svRN @ rest"
  shows "ParseHead_lines buf ((length pre, ''Content-Length: '' @ offttos n) # ls) d =
    ParseHead_lines buf ls (d\<lparr>hdat_len := Some n\<rparr>)"
proof -
  have "nat n < 2 ^ 63" using assms(1,2) by (simp add: nat_less_iff)
  then have "atoll (nat_str (nat n) @ svRN @ rest) = n"
    using atoll_nat_str_line [of "nat n" rest] assms(1) by simp
  then show ?thesis using assms
    by (simp add: startsWith_def offttos_def int_str_def atoofft_def atoll_skip_space)
qed

lemma ParseHead_mod:
  assumes "hdat_mod d = None" "head_value_ok v" "v \<noteq> []" "length v < 30"
  shows "ParseHead_lines buf ((off, ''Last-Modified: '' @ v) # ls) d =
    ParseHead_lines buf ls (d\<lparr>hdat_mod := Some \<lparr>hd_text = v, hd_isnorm = False\<rparr>\<rparr>)"
  using assms by (simp add: startsWith_def laMoPfx_def head_value_ok_def is_trimmed_def tHttpDate_sv_def
      date_buf_size_def)

lemma ParseHead_src:
  assumes "hdat_src d = None" "head_value_ok v"
  shows "ParseHead_lines buf ((off, ''X-Original-Source: '' @ v) # ls) d =
    ParseHead_lines buf ls (d\<lparr>hdat_src := Some v\<rparr>)"
  using assms by (simp add: startsWith_def laMoPfx_def origSrcPfx_def head_value_ok_def is_trimmed_def)

lemma find_sub_RN_key:
  assumes "find_sub svRN v = None"
  shows "find_sub svRN (''Content-Length: '' @ v) = None"
    and "find_sub svRN (''Last-Modified: '' @ v) = None"
    and "find_sub svRN (''X-Original-Source: '' @ v) = None"
proof -
  show "find_sub svRN (''Content-Length: '' @ v) = None"
    by (rule find_sub_RN_append_no_nl [OF _ assms]) simp_all
  show "find_sub svRN (''Last-Modified: '' @ v) = None"
    by (rule find_sub_RN_append_no_nl [OF _ assms]) simp_all
  show "find_sub svRN (''X-Original-Source: '' @ v) = None"
    by (rule find_sub_RN_append_no_nl [OF _ assms]) simp_all
qed

lemma find_sub_RN_digits: "find_sub svRN (nat_str n) = None"
  using nat_str_digits [of n] by (intro find_sub_RN_no_nl) (auto simp: isdigit_def)

definition head_opt :: "bool \<Rightarrow> string \<Rightarrow> string" where
  "head_opt c l = (if c then l @ svRN else [])"

lemma head_step:
  assumes "c \<Longrightarrow> find_sub svRN l = None" and "\<not> c \<Longrightarrow> d' = d"
    and "\<And>ls. c \<Longrightarrow> ParseHead_lines (pre @ head_opt c l @ rest) ((length pre, l) # ls) d =
           ParseHead_lines (pre @ head_opt c l @ rest) ls d'"
  shows "ParseHead_lines (pre @ head_opt c l @ rest) (split_by_str svRN (length pre) (head_opt c l @ rest)) d =
    ParseHead_lines ((pre @ head_opt c l) @ rest)
      (split_by_str svRN (length (pre @ head_opt c l)) rest) d'"
proof (cases c)
  case True
  have l2: "length svRN = 2" by (simp add: svRN_def)
  show ?thesis
    using True split_RN_line [OF assms(1) [OF True], of "length pre" rest] assms(3) [OF True]
    by (simp add: head_opt_def l2 del: ParseHead_lines.simps)
next
  case False
  then show ?thesis using assms(2) by (simp add: head_opt_def)
qed


lemma head_text_opts:
  "head_text n m src = ''HTTP/1.1 200 OK'' @ svRN @
     head_opt (n \<ge> 0) (''Content-Length: '' @ offttos n) @
     head_opt (date_isSet m) (''Last-Modified: '' @ hd_text m) @
     head_opt (src \<noteq> []) (''X-Original-Source: '' @ src) @ svRN"
  by (simp add: head_text_def head_opt_def date_view_def)

lemma ParseHead_head_text:
  assumes "n < 2 ^ 63" and "head_value_ok (hd_text m)" and "length (hd_text m) < 30"
    and "head_value_ok src"
  shows "ParseHeadFromStorage (Some (head_text n m src)) =
    (True, \<lparr>hdat_len = (if n \<ge> 0 then Some n else None),
            hdat_mod = (if date_isSet m then Some \<lparr>hd_text = hd_text m, hd_isnorm = False\<rparr> else None),
            hdat_src = (if src \<noteq> [] then Some src else None)\<rparr>)"
proof -
  let ?o0 = "''HTTP/1.1 200 OK'' @ svRN"
  let ?o1 = "head_opt (n \<ge> 0) (''Content-Length: '' @ offttos n)"
  let ?o2 = "head_opt (date_isSet m) (''Last-Modified: '' @ hd_text m)"
  let ?o3 = "head_opt (src \<noteq> []) (''X-Original-Source: '' @ src)"
  let ?b = "?o0 @ ?o1 @ ?o2 @ ?o3 @ svRN"
  let ?d1 = "head_none\<lparr>hdat_len := (if n \<ge> 0 then Some n else None)\<rparr>"
  let ?d2 = "?d1\<lparr>hdat_mod := (if date_isSet m then Some \<lparr>hd_text = hd_text m, hd_isnorm = False\<rparr> else None)\<rparr>"
  let ?d3 = "?d2\<lparr>hdat_src := (if src \<noteq> [] then Some src else None)\<rparr>"
  have f0: "find_sub svRN ''HTTP/1.1 200 OK'' = None" by (rule find_sub_RN_no_nl) simp
  have sp: "split_by_str svRN 0 ?b =
      (0, ''HTTP/1.1 200 OK'') # split_by_str svRN (length ?o0) (?o1 @ ?o2 @ ?o3 @ svRN)"
    using split_RN_line [OF f0, of 0 "?o1 @ ?o2 @ ?o3 @ svRN"] by (simp add: svRN_def)
  have "ParseHead_lines ?b (split_by_str svRN (length ?o0) (?o1 @ ?o2 @ ?o3 @ svRN)) head_none =
      ParseHead_lines ((?o0 @ ?o1) @ ?o2 @ ?o3 @ svRN)
        (split_by_str svRN (length (?o0 @ ?o1)) (?o2 @ ?o3 @ svRN)) ?d1"
  proof (rule head_step)
    show "find_sub svRN (''Content-Length: '' @ offttos n) = None" if "n \<ge> 0"
      using that find_sub_RN_key(1) [OF find_sub_RN_digits, of "nat n"] by (simp add: offttos_def int_str_def del: find_sub.simps)
    show "?d1 = head_none" if "\<not> 0 \<le> n" using that by (simp add: head_none_def)
    show "ParseHead_lines ?b ((length ?o0, ''Content-Length: '' @ offttos n) # ls) head_none =
        ParseHead_lines ?b ls ?d1" if "n \<ge> 0" for ls
      using ParseHead_len [OF that assms(1), of head_none ?b ?o0 "?o2 @ ?o3 @ svRN" ls] that
      by (simp add: head_none_def head_opt_def del: ParseHead_lines.simps)
  qed
  also have "\<dots> = ParseHead_lines (((?o0 @ ?o1) @ ?o2) @ ?o3 @ svRN)
        (split_by_str svRN (length ((?o0 @ ?o1) @ ?o2)) (?o3 @ svRN)) ?d2"
  proof (rule head_step)
    show "find_sub svRN (''Last-Modified: '' @ hd_text m) = None"
      using assms(2) find_sub_RN_key(2) by (simp add: head_value_ok_def del: find_sub.simps append.simps)
    show "?d2 = ?d1" if "\<not> date_isSet m" using that by (simp add: head_none_def)
    show "ParseHead_lines ((?o0 @ ?o1) @ ?o2 @ ?o3 @ svRN)
         ((length (?o0 @ ?o1), ''Last-Modified: '' @ hd_text m) # ls) ?d1 =
        ParseHead_lines ((?o0 @ ?o1) @ ?o2 @ ?o3 @ svRN) ls ?d2" if "date_isSet m" for ls
      using that by (subst ParseHead_mod [OF _ assms(2) _ assms(3)]) (simp_all add: head_none_def date_isSet_def)
  qed
  also have "\<dots> = ParseHead_lines ((((?o0 @ ?o1) @ ?o2) @ ?o3) @ svRN)
        (split_by_str svRN (length (((?o0 @ ?o1) @ ?o2) @ ?o3)) svRN) ?d3"
  proof (rule head_step)
    show "find_sub svRN (''X-Original-Source: '' @ src) = None"
      using assms(4) find_sub_RN_key(3) by (simp add: head_value_ok_def del: find_sub.simps append.simps)
    show "?d3 = ?d2" if "\<not> src \<noteq> []" using that by (simp add: head_none_def)
    show "ParseHead_lines (((?o0 @ ?o1) @ ?o2) @ ?o3 @ svRN)
         ((length ((?o0 @ ?o1) @ ?o2), ''X-Original-Source: '' @ src) # ls) ?d2 =
        ParseHead_lines (((?o0 @ ?o1) @ ?o2) @ ?o3 @ svRN) ls ?d3" if "src \<noteq> []" for ls
      using that by (subst ParseHead_src [OF _ assms(4)]) (simp_all add: head_none_def)
  qed
  also have "\<dots> = (True, ?d3)" by (simp add: split_RN_end)
  finally have P: "ParseHead_lines ?b (split_by_str svRN (length ?o0) (?o1 @ ?o2 @ ?o3 @ svRN)) head_none = (True, ?d3)" .
  have "startsWith ''HTTP/1.1 200 OK'' ''HTTP/1.1 200''" by (simp add: startsWith_def)
  with P sp show ?thesis
    by (simp add: head_text_opts ParseHeadFromStorage_def head_none_def del: ParseHead_lines.simps)
qed

text \<open>
  What is stored in the head file of a cache item is read back: the content length (unless it
  was unknown), the date string and the original source, for values that are single trimmed lines.
\<close>

theorem head_store_parse:
  assumes "n < 2 ^ 63" and "head_value_ok (hd_text m)" and "length (hd_text m) < 30"
    and "head_value_ok src"
  shows "ParseHeadFromStorage (Some (head_text n m src)) =
    (True, \<lparr>hdat_len = (if n \<ge> 0 then Some n else None),
            hdat_mod = (if date_isSet m then Some \<lparr>hd_text = hd_text m, hd_isnorm = False\<rparr> else None),
            hdat_src = (if src \<noteq> [] then Some src else None)\<rparr>)"
  by (rule ParseHead_head_text [OF assms])

section \<open>Printing and parsing a date\<close>

lemma pad2_digits:
  assumes "0 \<le> v" "v < 100"
  shows "pad2 v = [digit_chr (nat v div 10), digit_chr (nat v mod 10)]"
proof -
  have n: "nat v < 100" using assms by simp
  have z: "''0'' = [digit_chr 0]" by code_simp
  show ?thesis
  proof (cases "v < 10")
    case True
    then have "nat v < 10" by simp
    then show ?thesis using True assms z by (simp add: pad2_def int_str_def nat_str.simps [of "nat v"])
  next
    case False
    then have "\<not> nat v < 10" "nat v div 10 < 10" using n by auto
    then show ?thesis using False assms
      by (simp add: pad2_def int_str_def nat_str.simps [of "nat v"] nat_str.simps [of "nat v div 10"])
  qed
qed

lemma nat_str_4:
  assumes "1000 \<le> n" "n < 10000"
  shows "nat_str n = [digit_chr (n div 1000), digit_chr (n div 100 mod 10), digit_chr (n div 10 mod 10), digit_chr (n mod 10)]"
proof -
  have "\<not> n < 10" "\<not> n div 10 < 10" "\<not> n div 100 < 10" "n div 1000 < 10" using assms by auto
  then show ?thesis
    by (simp add: nat_str.simps [of n] nat_str.simps [of "n div 10"] nat_str.simps [of "n div 100"]
        nat_str.simps [of "n div 1000"] div_mult2_eq [symmetric])
qed

lemma digit_chr_no_space: "d < 10 \<Longrightarrow> digit_chr d \<noteq> CHR '' ''"
  using isdigit_digit_chr [of d] by (auto simp: isdigit_def simp del: isdigit_digit_chr)

lemma get_number_pad2:
  assumes "lo \<le> v" "v \<le> hi" "0 \<le> v" "v < 100"
  shows "get_number lo hi 2 (pad2 v @ rest) = Some (v, rest)"
proof -
  let ?a = "nat v div 10" and ?b = "nat v mod 10"
  have ab: "?a < 10" "?b < 10" "int ?a * 10 + int ?b = v"
    using assms by (auto simp: zdiv_int zmod_int)
  then have "int ?a * 10 \<le> hi" using assms by linarith
  moreover have "digit_chr ?a \<noteq> CHR '' ''" using ab(1) by (rule digit_chr_no_space)
  ultimately show ?thesis
    using ab assms by (simp add: get_number_def pad2_digits numeral_2_eq_2)
qed

lemma get_number_year:
  assumes "1000 \<le> y" "y \<le> 9999"
  shows "get_number 0 9999 4 (int_str y @ rest) = Some (y, rest)"
proof -
  let ?n = "nat y"
  have n: "1000 \<le> ?n" "?n < 10000" using assms by auto
  have lt: "?n div 1000 < 10" "?n div 100 mod 10 < 10" "?n div 10 mod 10 < 10" "?n mod 10 < 10" using n by auto
  have i: "int ?n = y" using assms by simp
  have "y div 1000 = y div 100 div 10" "y div 100 = y div 10 div 10" by (simp_all add: zdiv_zmult2_eq [symmetric])
  then have e1: "int (?n div 1000) * 10 + int (?n div 100 mod 10) = y div 100"
    and e2: "y div 100 * 10 + int (?n div 10 mod 10) = y div 10"
    and e3: "y div 10 * 10 + int (?n mod 10) = y"
    by (simp_all only: zdiv_int zmod_int i of_nat_numeral div_mult_mod_eq)
  have e: "int_str y = nat_str ?n" using assms by (simp add: int_str_def)
  have le: "int (?n div 1000) * 10 \<le> 9999" "y div 100 * 10 \<le> 9999" "y div 10 * 10 \<le> 9999"
    using assms by (auto simp: zdiv_int)
  have "get_num_loop 9999 (Suc (Suc (Suc 0))) (int (?n div 1000))
      (digit_chr (?n div 100 mod 10) # digit_chr (?n div 10 mod 10) # digit_chr (?n mod 10) # rest) = (y, rest)"
    using lt le by (simp only: get_num_loop.simps isdigit_digit_chr digit_val_digit_chr e1 e2 e3 if_True simp_thms)
  then show ?thesis
    using lt(1) digit_chr_no_space [OF lt(1)] assms
    by (simp add: get_number_def e nat_str_4 [OF n] numeral_3_eq_3)
qed

lemma match_wday:
  assumes "0 \<le> v" "v < 7"
  shows "match_name wday_names 0 (name3 wday_names v @ CHR '','' # rest) = Some (v, CHR '','' # rest)"
proof -
  consider "v = 0" | "v = 1" | "v = 2" | "v = 3" | "v = 4" | "v = 5" | "v = 6" using assms by linarith
  then show ?thesis
    by cases (simp_all add: wday_names_def name3_def tolower_def isupper_def)
qed

lemma less_12_cases:
  "0 \<le> v \<Longrightarrow> v < 12 \<Longrightarrow> v = 0 \<or> v = 1 \<or> v = 2 \<or> v = 3 \<or> v = 4 \<or> v = 5 \<or> v = 6 \<or> v = 7 \<or>
     v = 8 \<or> v = 9 \<or> v = 10 \<or> v = (11::int)"
  by presburger

lemma match_mon:
  assumes "0 \<le> v" "v < 12"
  shows "match_name mon_names 0 (name3 mon_names v @ CHR '' '' # rest) = Some (v, CHR '' '' # rest)"
  using less_12_cases [OF assms]
  by (elim disjE) (simp_all add: mon_names_def name3_def tolower_def isupper_def)


definition tm_ok :: "tm \<Rightarrow> bool" where
  "tm_ok t \<longleftrightarrow> 0 \<le> tm_sec t \<and> tm_sec t \<le> 59 \<and> 0 \<le> tm_min t \<and> tm_min t \<le> 59 \<and>
     0 \<le> tm_hour t \<and> tm_hour t \<le> 23 \<and> 1 \<le> tm_mday t \<and> tm_mday t \<le> 31 \<and>
     0 \<le> tm_mon t \<and> tm_mon t < 12 \<and> 0 \<le> tm_wday t \<and> tm_wday t < 7 \<and>
     1000 \<le> tm_year t + 1900 \<and> tm_year t + 1900 \<le> 9999"

lemma strftime_fmt0:
  "strftime (hd date_fmts) t =
     name3 wday_names (tm_wday t) @ '', '' @ pad2 (tm_mday t) @ '' '' @ name3 mon_names (tm_mon t) @ '' '' @
     int_str (tm_year t + 1900) @ '' '' @ pad2 (tm_hour t) @ '':'' @ pad2 (tm_min t) @ '':'' @
     pad2 (tm_sec t) @ '' GMT''"
  by (simp add: date_fmts_def strftime_conv_def)

lemma pad2_no_space: "0 \<le> v \<Longrightarrow> v < 100 \<Longrightarrow> dropWhile isspace (pad2 v @ r) = pad2 v @ r"
  by (simp add: pad2_digits digit_not_space)

lemma int_str_no_space: "0 \<le> v \<Longrightarrow> dropWhile isspace (int_str v @ r) = int_str v @ r"
proof -
  assume v: "0 \<le> v"
  obtain c cs where n: "nat_str (nat v) = c # cs" by (metis nat_str_nonempty neq_Nil_conv)
  then have "isdigit c" using nat_str_digits [of "nat v"] by simp
  then show ?thesis using v n by (simp add: int_str_def digit_not_space)
qed

lemma mon_no_space:
  assumes "0 \<le> v" "v < 12"
  shows "dropWhile isspace (name3 mon_names v @ r) = name3 mon_names v @ r"
  using less_12_cases [OF assms]
  by (elim disjE) (simp_all add: mon_names_def name3_def isspace_def)

lemma strptime_lit: "\<not> isspace c \<Longrightarrow> c \<noteq> CHR ''%'' \<Longrightarrow> strptime (c # fmt) (c # s) t = strptime fmt s t"
  by simp

lemma strptime_sp: "strptime (CHR '' '' # fmt) (CHR '' '' # s) t = strptime fmt (dropWhile isspace s) t"
  by (simp add: isspace_def)

lemma strptime_pct:
  "strptime (CHR ''%'' # k # fmt) s t =
     (case strptime_conv k s t of None \<Rightarrow> None | Some (s', t') \<Rightarrow> strptime fmt s' t')"
  by (simp add: isspace_def)

lemma strptime_print:
  assumes "tm_ok t"
  shows "strptime (hd date_fmts) (strftime (hd date_fmts) t) tm_zero = Some ([], t)"
proof -
  note ok = assms [unfolded tm_ok_def]
  have sp: "\<not> isspace (CHR '','')" "\<not> isspace (CHR '':'')" "\<not> isspace (CHR ''G'')" "\<not> isspace (CHR ''M'')"
    "\<not> isspace (CHR ''T'')" by (simp_all add: isspace_def)
  have gmt: "dropWhile isspace ''GMT'' = ''GMT''" by (simp add: isspace_def)
  show ?thesis
    using ok match_wday [of "tm_wday t"] match_mon [of "tm_mon t"] sp gmt unfolding strftime_fmt0
    by (simp add: date_fmts_def strptime_lit strptime_sp strptime_pct strptime_conv_def
        get_number_pad2 get_number_year pad2_no_space int_str_no_space mon_no_space tm_zero_def
        del: strptime.simps(2))
qed


section \<open>Calendar arithmetic\<close>

lemma year_of_spec:
  "0 \<le> d \<Longrightarrow> 1970 \<le> y \<Longrightarrow> year_of y d = (y', d') \<Longrightarrow>
     y \<le> y' \<and> 0 \<le> d' \<and> d' < year_len y' \<and> days_before_year y' + d' = days_before_year y + d"
proof (induction y d rule: year_of.induct)
  case (1 y d)
  show ?case
  proof (cases "d < year_len y")
    case True
    then show ?thesis using 1(2,4) by (simp add: year_of.simps [of y d])
  next
    case False
    then have r: "year_of (y + 1) (d - year_len y) = (y', d')" using 1(4) by (simp add: year_of.simps [of y d])
    have "days_before_year (y + 1) = days_before_year y + year_len y"
      using 1(3) by (subst days_before_year.simps) simp
    then show ?thesis using 1(1) [OF False _ _ r] False 1(3) by simp
  qed
qed

lemma month_of_spec:
  "0 \<le> d \<Longrightarrow> d < sum_list ls \<Longrightarrow> month_of ls m d = (m', d') \<Longrightarrow>
     m \<le> m' \<and> nat (m' - m) < length ls \<and> 0 \<le> d' \<and> d' < ls ! nat (m' - m) \<and>
     sum_list (take (nat (m' - m)) ls) + d' = d"
proof (induction ls m d rule: month_of.induct)
  case (2 l ls m d)
  show ?case
  proof (cases "d < l")
    case True
    then show ?thesis using 2(2,4) by auto
  next
    case False
    then have IH: "m + 1 \<le> m'" "nat (m' - (m + 1)) < length ls" "0 \<le> d'" "d' < ls ! nat (m' - (m + 1))"
      "sum_list (take (nat (m' - (m + 1))) ls) + d' = d - l"
      using 2(1) [OF False] 2(3,4) by auto
    have "nat (m' - m) = Suc (nat (m' - (m + 1)))" using IH(1) by simp
    then show ?thesis using IH by simp
  qed
qed simp

lemma sum_month_lens: "sum_list (month_lens y) = year_len y"
  by (simp add: month_lens_def year_len_def)

lemma month_len_le: "k < 12 \<Longrightarrow> month_lens y ! k \<le> 31"
  by (auto simp: month_lens_def nth_Cons split: nat.splits)

lemma tm_ok_parts:
  assumes "1970 \<le> y" "y - 1900 + 1900 \<le> 9999" "0 \<le> m" "nat m < 12" "0 \<le> d" "d + 1 \<le> 31" "0 \<le> h" "h \<le> 23"
    and "0 \<le> mi" "mi \<le> 59" "0 \<le> sc" "sc \<le> 59" "0 \<le> wd" "wd < 7"
  shows "tm_ok \<lparr>tm_sec = sc, tm_min = mi, tm_hour = h, tm_mday = d + 1, tm_mon = m, tm_year = y - 1900, tm_wday = wd\<rparr>"
  using assms by (simp add: tm_ok_def nat_less_iff)

lemma gmtime_spec:
  assumes "0 \<le> t"
  shows "timegm_ref (gmtime t) = t"
    and "tm_year (gmtime t) + 1900 \<le> 9999 \<Longrightarrow> tm_ok (gmtime t)"
proof -
  let ?days = "t div 86400" and ?s = "t mod 86400"
  obtain y yd where y: "year_of 1970 ?days = (y, yd)" by fastforce
  obtain m d where m: "month_of (month_lens y) 0 yd = (m, d)" by fastforce
  have d0: "days_before_year 1970 = 0" by (subst days_before_year.simps) simp
  have ys: "1970 \<le> y" "0 \<le> yd" "yd < year_len y" "days_before_year y + yd = ?days"
    using year_of_spec [OF _ _ y] assms d0 by auto
  have ms: "0 \<le> m" "nat m < 12" "0 \<le> d" "d < month_lens y ! nat m" "sum_list (take (nat m) (month_lens y)) + d = yd"
    using month_of_spec [OF ys(2) _ m] ys(3) by (auto simp: sum_month_lens, simp add: month_lens_def)
  have g: "gmtime t = \<lparr>tm_sec = ?s mod 60, tm_min = ?s div 60 mod 60, tm_hour = ?s div 3600, tm_mday = d + 1,
          tm_mon = m, tm_year = y - 1900, tm_wday = (4 + ?days) mod 7\<rparr>"
    by (simp add: gmtime_def y m Let_def)
  have dm: "?s div 3600 = ?s div 60 div 60" by (simp add: zdiv_zmult2_eq [symmetric])
  have "?s div 3600 * 3600 + ?s div 60 mod 60 * 60 + ?s mod 60 = ?s" unfolding dm by presburger
  moreover have "?days * 86400 + ?s = t" by simp
  moreover have "timegm_ref (gmtime t) =
      ((days_before_year y + (sum_list (take (nat m) (month_lens y)) + d)) * 86400) +
      ?s div 3600 * 3600 + ?s div 60 mod 60 * 60 + ?s mod 60"
    by (simp add: g timegm_ref_def)
  ultimately show "timegm_ref (gmtime t) = t" by (simp only: ms(5) ys(4))
  have sr: "0 \<le> ?s" "?s < 86400" by simp_all
  have dm2: "d + 1 \<le> 31" using ms(4) month_len_le [OF ms(2), of y] by linarith
  have hms: "0 \<le> ?s div 3600" "?s div 3600 \<le> 23" "0 \<le> ?s div 60 mod 60" "?s div 60 mod 60 \<le> 59" "0 \<le> ?s mod 60" "?s mod 60 \<le> 59"
    "0 \<le> (4 + ?days) mod 7" "(4 + ?days) mod 7 < 7"
    using sr by (auto simp: div_less_iff_less_mult zle_add1_eq_le [symmetric] simp del: zle_add1_eq_le)
  show "tm_ok (gmtime t)" if "tm_year (gmtime t) + 1900 \<le> 9999"
    unfolding g by (rule tm_ok_parts [OF ys(1) _ ms(1-3) dm2 hms]) (use that in \<open>simp add: g\<close>)
qed


lemma length_name3: "0 \<le> v \<Longrightarrow> nat v < length ns \<Longrightarrow> \<forall>n \<in> set ns. 3 \<le> length n \<Longrightarrow> length (name3 ns v) = 3"
  using nth_mem [of "nat v" ns] by (fastforce simp: name3_def min_def)

lemma length_strftime:
  assumes "tm_ok t"
  shows "length (strftime (hd date_fmts) t) = 29"
proof -
  note ok = assms [unfolded tm_ok_def]
  have "length (name3 wday_names (tm_wday t)) = 3" using ok by (intro length_name3) (auto simp: wday_names_def)
  moreover have "length (name3 mon_names (tm_mon t)) = 3" using ok by (intro length_name3) (auto simp: mon_names_def)
  moreover have "length (int_str (tm_year t + 1900)) = 4"
    using ok nat_str_4 [of "nat (tm_year t + 1900)"] by (simp add: int_str_def nat_le_iff le_nat_iff nat_less_iff)
  ultimately show ?thesis unfolding strftime_fmt0 using ok by (simp add: pad2_digits)
qed

lemma FormatTime_ok: "tm_ok t \<Longrightarrow> FormatTime date_buf_size t = strftime (hd date_fmts) t"
  by (simp add: FormatTime_def date_buf_size_def length_strftime Let_def)

lemma strftime_no_nul:
  assumes "tm_ok t"
  shows "CHR 0x00 \<notin> set (strftime (hd date_fmts) t)"
proof -
  note ok = assms [unfolded tm_ok_def]
  have w: "CHR 0x00 \<notin> set (name3 wday_names v)" "CHR 0x00 \<notin> set (name3 mon_names u)" for v u
  proof -
    have "\<forall>n \<in> set wday_names. CHR 0x00 \<notin> set n" "\<forall>n \<in> set mon_names. CHR 0x00 \<notin> set n"
      by (simp_all add: wday_names_def mon_names_def)
    then show "CHR 0x00 \<notin> set (name3 wday_names v)" "CHR 0x00 \<notin> set (name3 mon_names u)"
      by (auto simp: name3_def dest: in_set_takeD)
  qed
  have i: "CHR 0x00 \<notin> set (int_str v)" if "0 \<le> v" for v
    using that nat_str_digits [of "nat v"] by (auto simp: int_str_def isdigit_def)
  have "CHR 0x00 \<notin> set (pad2 v)" if "0 \<le> v" for v using that i by (auto simp: pad2_def)
  then show ?thesis unfolding strftime_fmt0 using w i ok by simp
qed

lemma ParseDate_Format: "tm_ok t \<Longrightarrow> ParseDate (FormatTime date_buf_size t) = Some t"
  by (simp add: ParseDate_def c_str_id strftime_no_nul FormatTime_ok)
    (simp add: date_fmts_def strptime_print [unfolded date_fmts_def, simplified] length_strftime [unfolded date_fmts_def, simplified])

text \<open>
  In a process that runs in UTC, a time that is turned into an HTTP date and read back is the
  same time, up to the end of the year 9999.
\<close>

theorem date_time_roundtrip:
  assumes "0 \<le> t" and "tm_year (gmtime t) + 1900 \<le> 9999"
  shows "date_value timegm_ref (tHttpDate_time t) ifBad = t"
proof -
  have ok: "tm_ok (gmtime t)" by (rule gmtime_spec(2) [OF assms])
  have f: "hd_text (tHttpDate_time t) = strftime (hd date_fmts) (gmtime t)"
    using assms(1) FormatTime_ok [OF ok] by (simp add: tHttpDate_time_def)
  have "strftime (hd date_fmts) (gmtime t) \<noteq> []" using length_strftime [OF ok] by auto
  then have "date_isSet (tHttpDate_time t)"
    using strftime_no_nul [OF ok] by (auto simp: date_isSet_def f simp del: strftime.simps dest: hd_in_set)
  then show ?thesis
    using ParseDate_Format [OF ok] FormatTime_ok [OF ok] gmtime_spec(1) [OF assms(1)]
    by (simp add: date_value_def ParseDate_time_def f)
qed

theorem date_time_roundtrip_witness:
  "date_value timegm_ref (tHttpDate_time 784111777) (-1) = 784111777"
proof -
  have "tm_year (gmtime 784111777) + 1900 \<le> 9999" by code_simp
  then show ?thesis using date_time_roundtrip [of 784111777 "-1"] by simp
qed

text \<open>
  Whatever text or time a date is made from, it fits the 30 byte buffer with its terminator,
  and a normalised date in range is a fixed point: formatting what it parses to gives it again.
\<close>

theorem date_fits_buffer:
  "length (hd_text (tHttpDate_sv s f)) < date_buf_size \<and>
   length (hd_text (tHttpDate_cstr p f)) < date_buf_size \<and>
   length (hd_text (tHttpDate_time t)) < date_buf_size \<and>
   (tm_ok u \<longrightarrow> date_normalized (FormatTime date_buf_size u) =
      \<lparr>hd_text = FormatTime date_buf_size u, hd_isnorm = True\<rparr>)"
proof (intro conjI impI)
  have F: "length (FormatTime date_buf_size u) < date_buf_size" for u
    by (simp add: FormatTime_def date_buf_size_def Let_def)
  have N: "length (hd_text (date_normalized s)) < date_buf_size" for s
    by (simp add: date_normalized_def date_unset_def Let_def F split: option.splits) (simp add: date_buf_size_def)
  have U: "length (hd_text date_unset) < date_buf_size" by (simp add: date_unset_def date_buf_size_def)
  show "length (hd_text (tHttpDate_sv s f)) < date_buf_size" by (simp add: tHttpDate_sv_def N U)
  show "length (hd_text (tHttpDate_cstr p f)) < date_buf_size"
    by (simp add: tHttpDate_cstr_def N U split: option.splits)
  show "length (hd_text (tHttpDate_time t)) < date_buf_size" by (simp add: tHttpDate_time_def F U)
next
  assume ok: "tm_ok u"
  then have "FormatTime date_buf_size u \<noteq> []" using FormatTime_ok length_strftime by fastforce
  then show "date_normalized (FormatTime date_buf_size u) =
      \<lparr>hd_text = FormatTime date_buf_size u, hd_isnorm = True\<rparr>"
    using ParseDate_Format [OF ok] by (simp add: date_normalized_def)
qed

theorem date_fits_buffer_witness:
  "date_normalized (FormatTime date_buf_size (gmtime 0)) =
     \<lparr>hd_text = FormatTime date_buf_size (gmtime 0), hd_isnorm = True\<rparr>"
proof -
  have "tm_ok (gmtime 0)" by code_simp
  then show ?thesis using date_fits_buffer [of "[]" False None 0 "gmtime 0"] by simp
qed

text \<open>
  The operators \<open><\<close> and \<open>>\<close> of dates are not strict orders: every date is less than itself,
  and exactly the dates that are set and parse are also greater than themselves.
\<close>

theorem date_less_not_strict:
  "date_lt mk d d \<and> (date_gt mk d d \<longleftrightarrow> date_isSet d \<and> ParseDate (hd_text d) \<noteq> None)"
  by (auto simp: date_lt_def date_ge_def date_gt_def date_le_def date_value_def ParseDate_time_def
      split: option.splits)

end
