(* ===== verification/Header.thy ===== *)
theory Header
  imports HttpDate
begin

text \<open>
  \<open>src/header.h\<close> and \<open>src/header.cc\<close>: the HTTP header container, its incremental parser \<open>Load\<close>
  and printer \<open>ToString\<close>, and the extraction of client headers that are passed on.

  The parser works on the slices of the strict splitter, which \<open>split_by_str\<close> describes with their
  offsets. A header value is a C string, so a stored value ends at its first NUL.
  Failing allocations are not modelled.
\<close>

section \<open>Data\<close>

datatype eHeadType = INVALID | HEAD | GET | POST | CONNECT | ANSWER

datatype eHeadPos = CONNECTION | CONTENT_LENGTH | IF_MODIFIED_SINCE | RANGE | IFRANGE
  | CONTENT_RANGE | LAST_MODIFIED | PROXY_CONNECTION | TRANSFER_ENCODING | XORIG
  | AUTHORIZATION | XFORWARDEDFOR | LOCATION | CONTENT_TYPE | CACHE_CONTROL

text \<open>The local variable \<open>lastSetId\<close>, with the two special values of the enum.\<close>

datatype last_id = HEADPOS_MAX | HEADPOS_UNK_EXPORT | Pos eHeadPos

definition mapId2Headname :: "(eHeadPos \<times> string) list" where
  "mapId2Headname =
     [(CONNECTION, ''Connection''), (CONTENT_LENGTH, ''Content-Length''),
      (IF_MODIFIED_SINCE, ''If-Modified-Since''), (RANGE, ''Range''), (IFRANGE, ''If-Range''),
      (CONTENT_RANGE, ''Content-Range''), (LAST_MODIFIED, ''Last-Modified''),
      (PROXY_CONNECTION, ''Proxy-Connection''), (TRANSFER_ENCODING, ''Transfer-Encoding''),
      (XORIG, ''X-Original-Source''), (AUTHORIZATION, ''Authorization''),
      (XFORWARDEDFOR, ''X-Forwarded-For''), (LOCATION, ''Location''),
      (CONTENT_TYPE, ''Content-Type''), (CACHE_CONTROL, ''Cache-Control'')]"

record header =
  hdr_h :: "eHeadPos \<Rightarrow> string option"
  hdr_type :: eHeadType
  hdr_proto :: char
  hdr_status :: tRemoteStatus

definition header_new :: header where
  "header_new = \<lparr>hdr_h = (\<lambda>_. None), hdr_type = INVALID, hdr_proto = CHR ''1'',
     hdr_status = \<lparr>st_code = 500, st_msg = []\<rparr>\<rparr>"

text \<open>Copying: everything but the protocol version, which keeps its old value (a new object: 1.1).\<close>

definition header_assign :: "header \<Rightarrow> header \<Rightarrow> header" where
  "header_assign s h = h\<lparr>hdr_type := hdr_type s, hdr_status := hdr_status s, hdr_h := hdr_h s\<rparr>"

definition header_copy :: "header \<Rightarrow> header" where
  "header_copy s = header_assign s header_new"

definition header_del :: "eHeadPos \<Rightarrow> header \<Rightarrow> header" where
  "header_del i h = h\<lparr>hdr_h := (hdr_h h)(i := None)\<rparr>"

definition header_clear :: "header \<Rightarrow> header" where
  "header_clear h = h\<lparr>hdr_h := (\<lambda>_. None), hdr_status := \<lparr>st_code = -1, st_msg = []\<rparr>, hdr_type := INVALID\<rparr>"

definition header_set :: "eHeadPos \<Rightarrow> string option \<Rightarrow> header \<Rightarrow> header" where
  "header_set i v h = h\<lparr>hdr_h := (hdr_h h)(i := map_option c_str v)\<rparr>"

definition header_set_num :: "eHeadPos \<Rightarrow> off_t \<Rightarrow> header \<Rightarrow> header" where
  "header_set_num i n h = header_set i (Some (offttos n)) h"

definition setStatus :: "int \<Rightarrow> string \<Rightarrow> header \<Rightarrow> header" where
  "setStatus cod msg h = h\<lparr>hdr_status := \<lparr>st_code = cod, st_msg = msg\<rparr>\<rparr>"

definition isAnswer :: "header \<Rightarrow> bool" where
  "isAnswer h \<longleftrightarrow> st_code (hdr_status h) \<ge> 0"

section \<open>Parsing\<close>

fun resolve_in :: "(eHeadPos \<times> string) list \<Rightarrow> string \<Rightarrow> last_id" where
  "resolve_in [] key = HEADPOS_MAX"
| "resolve_in ((p, n) # ps) key =
     (if length key = length n \<and> strncasecmp_eq n key (length key) then Pos p else resolve_in ps key)"

definition resolvePos :: "string \<Rightarrow> last_id" where
  "resolvePos key = resolve_in mapId2Headname key"

text \<open>
  The outcome of \<open>Load\<close>: the returned number, the header object and the list of unknown headers,
  or the fault of \<open>strappend\<close> on a null pointer.
\<close>

datatype load_result = LoadRet int header "(string \<times> string) list" | LoadFault

text \<open>
  The loop over the lines behind the first one. \<open>wantUnk\<close>: an output vector for unknown headers
  was passed.
\<close>

fun Load_lines :: "bool \<Rightarrow> (nat \<times> string) list \<Rightarrow> last_id \<Rightarrow> header \<Rightarrow> (string \<times> string) list \<Rightarrow> load_result" where
  "Load_lines wantUnk [] lastSetId h unk = LoadRet 0 h unk"
| "Load_lines wantUnk ((off, it) # ls) lastSetId h unk =
     (if it = [] then
        (case ls of
           (off2, _) # _ \<Rightarrow> LoadRet (int off2) h unk
         | [] \<Rightarrow> LoadRet 0 h unk)
      else
        let sv = trimBoth it SPACECHARS in
        if trimFront (trimBack it SPACECHARS) SPACECHARS \<noteq> trimBack it SPACECHARS then
          (case lastSetId of
             HEADPOS_UNK_EXPORT \<Rightarrow> Load_lines wantUnk ls lastSetId h (unk @ [([], sv)])
           | Pos i \<Rightarrow>
               (case strappend (hdr_h h i) '' '' sv of
                  None \<Rightarrow> LoadFault
                | Some v \<Rightarrow> Load_lines wantUnk ls lastSetId (h\<lparr>hdr_h := (hdr_h h)(i \<mapsto> v)\<rparr>) unk)
           | HEADPOS_MAX \<Rightarrow> LoadRet (-2) h unk)
        else
          (case find_chr sv (CHR '':'') of
             None \<Rightarrow> LoadRet (if ls \<noteq> [] then -4 else 0) h unk
           | Some pos \<Rightarrow>
               let value = trimFront (drop (pos + 1) sv) SPACECHARS;
                   key = trimBack (take pos sv) SPACECHARS
               in if key = [] then LoadRet (if ls \<noteq> [] then -5 else 0) h unk
                  else
                    (case resolvePos key of
                       Pos i \<Rightarrow>
                         Load_lines wantUnk ls (Pos i)
                           (if value = [] then header_del i h else header_set i (Some value) h) unk
                     | _ \<Rightarrow>
                         if wantUnk then Load_lines wantUnk ls HEADPOS_UNK_EXPORT h (unk @ [(key, value)])
                         else Load_lines wantUnk ls HEADPOS_MAX h unk)))"

text \<open>The request methods and the answer prefix: the type and the number of bytes cut off.\<close>

definition head_kind :: "string \<Rightarrow> (eHeadType \<times> nat) option" where
  "head_kind input =
     (if startsWith input ''HTTP/1.'' \<and> length input > 7 then Some (ANSWER, 8)
      else if startsWith input ''GET '' then Some (GET, 4)
      else if startsWith input ''HEAD '' then Some (HEAD, 5)
      else if startsWith input ''POST '' then Some (POST, 5)
      else if startsWith input ''CONNECT '' then Some (CONNECT, 8)
      else None)"

text \<open>The first line; \<open>None\<close> when \<open>Load\<close> returns 0 because of it, with the header as it is then.\<close>

definition Load_first :: "string \<Rightarrow> string \<Rightarrow> header \<Rightarrow> bool \<times> header" where
  "Load_first it after h =
     (if hdr_type h = ANSWER then
        let st = parse_status it (-1) False after
        in (st_code st \<ge> 0, h\<lparr>hdr_status := st\<rparr>)
      else
        let l = trimBoth it SPACECHARS in
        if length l < 10 then (False, h)
        else
          let h2 = h\<lparr>hdr_proto := last l\<rparr>;
              u = trimBack (take (length l - 9) l) SPACECHARS
          in if u = [] then (False, h2)
             else (True, h2\<lparr>hdr_status := \<lparr>st_code = -1, st_msg = u\<rparr>\<rparr>))"

text \<open>
  \<open>Load(input, unkHeaderMap)\<close>; \<open>after\<close> are the bytes in memory behind the input, see
  \<open>parse_status\<close>.
\<close>

definition Load :: "bool \<Rightarrow> string \<Rightarrow> string \<Rightarrow> header \<Rightarrow> load_result" where
  "Load wantUnk input after h =
     (if length input < 9 then LoadRet 0 h []
      else
        (case head_kind input of
           None \<Rightarrow> LoadRet (-1) (h\<lparr>hdr_type := INVALID\<rparr>) []
         | Some (k, pfx) \<Rightarrow>
             let h1 = h\<lparr>hdr_type := k,
                        hdr_proto := (if k = ANSWER then input ! 7 else hdr_proto h)\<rparr>
             in if drop pfx input = [] then LoadRet 0 h1 []
                else
                  (case split_by_str svRN pfx (drop pfx input) of
                     [] \<Rightarrow> LoadRet 0 h1 []
                   | (off, it) # ls \<Rightarrow>
                       (case Load_first it (drop (off + length it) input @ after) h1 of
                          (ok, h2) \<Rightarrow>
                            if ok then Load_lines wantUnk ls HEADPOS_MAX h2 []
                            else LoadRet 0 h2 []))))"

section \<open>Printing\<close>

definition header_line :: "header \<Rightarrow> eHeadPos \<times> string \<Rightarrow> string" where
  "header_line h = (\<lambda>(p, n). case hdr_h h p of None \<Rightarrow> [] | Some v \<Rightarrow> n @ '': '' @ v @ svRN)"

text \<open>\<open>now\<close> is the value of \<open>GetTime()\<close>.\<close>

definition ToString :: "time_t \<Rightarrow> header \<Rightarrow> string" where
  "ToString now h =
     ''HTTP/1.'' @ [hdr_proto h] @ '' '' @ int_str (st_code (hdr_status h)) @ '' '' @
     st_msg (hdr_status h) @ svRN @ concat (map (header_line h) mapId2Headname) @
     ''Date: '' @ date_view (tHttpDate_time now) @ svRN @ svRN"

section \<open>Headers that are passed on\<close>

definition tabooHeadersPassThrough :: "string list" where
  "tabooHeadersPassThrough =
     [''Host'', ''Cache-Control'', ''Proxy-Authorization'', ''Accept'', ''User-Agent'']"

definition tabooHeadersForCaching :: "string list" where
  "tabooHeadersForCaching = tabooHeadersPassThrough @ [''Accept-Encoding'']"

fun custom_loop :: "string list \<Rightarrow> (string \<times> string) list \<Rightarrow> bool \<Rightarrow> string \<Rightarrow> string" where
  "custom_loop taboo [] forbidden ret = ret"
| "custom_loop taboo ((k, v) # us) forbidden ret =
     (if k = [] then
        (if forbidden then custom_loop taboo us forbidden ret
         else custom_loop taboo us forbidden (take (length ret - 2) ret @ '' '' @ v @ svRN))
      else
        let f = (\<exists>x \<in> set taboo. scaseequals x k)
        in custom_loop taboo us f (if f then ret else ret @ k @ '': '' @ v @ svRN))"

text \<open>\<open>None\<close> stands for the fault inside \<open>Load\<close>.\<close>

definition ExtractCustomHeaders :: "string \<Rightarrow> string \<Rightarrow> bool \<Rightarrow> string option" where
  "ExtractCustomHeaders reqHead after isPassThrough =
     (if reqHead = [] then Some []
      else (case Load True reqHead after header_new of
              LoadFault \<Rightarrow> None
            | LoadRet _ _ unk \<Rightarrow>
                Some (custom_loop (if isPassThrough then tabooHeadersPassThrough else tabooHeadersForCaching)
                        unk False [])))"

instantiation eHeadPos :: enum
begin

definition enum_eHeadPos :: "eHeadPos list" where
  "enum_eHeadPos = map fst mapId2Headname"

definition enum_all_eHeadPos :: "(eHeadPos \<Rightarrow> bool) \<Rightarrow> bool" where
  "enum_all_eHeadPos P \<longleftrightarrow> list_all P enum_class.enum"

definition enum_ex_eHeadPos :: "(eHeadPos \<Rightarrow> bool) \<Rightarrow> bool" where
  "enum_ex_eHeadPos P \<longleftrightarrow> list_ex P enum_class.enum"

instance
proof
  show U: "(UNIV :: eHeadPos set) = set enum_class.enum"
    by (auto simp: enum_eHeadPos_def mapId2Headname_def) (metis eHeadPos.exhaust)
  show "distinct (enum_class.enum :: eHeadPos list)"
    by (simp add: enum_eHeadPos_def mapId2Headname_def)
  show "enum_class.enum_all P = Ball UNIV P" for P :: "eHeadPos \<Rightarrow> bool"
    by (simp add: enum_all_eHeadPos_def U list_all_iff)
  show "enum_class.enum_ex P = Bex UNIV P" for P :: "eHeadPos \<Rightarrow> bool"
    by (simp add: enum_ex_eHeadPos_def U list_ex_iff)
qed

end

section \<open>Single lines\<close>

definition line_key :: "string \<Rightarrow> bool" where
  "line_key n \<longleftrightarrow> n \<noteq> [] \<and> hd n \<notin> set SPACECHARS \<and> last n \<notin> set SPACECHARS \<and> CHR '':'' \<notin> set n \<and>
     CHR 0x0A \<notin> set n \<and> CHR 0x0D \<notin> set n"

definition line_val :: "string \<Rightarrow> bool" where
  "line_val v \<longleftrightarrow> v \<noteq> [] \<and> hd v \<notin> set SPACECHARS \<and> last v \<notin> set SPACECHARS \<and>
     find_sub svRN v = None \<and> CHR 0x00 \<notin> set v"

lemma known_keys: "(p, n) \<in> set mapId2Headname \<Longrightarrow> line_key n \<and> resolvePos n = Pos p"
proof -
  have "\<forall>(p, n) \<in> set mapId2Headname. line_key n \<and> resolvePos n = Pos p" by code_simp
  then show "(p, n) \<in> set mapId2Headname \<Longrightarrow> line_key n \<and> resolvePos n = Pos p" by auto
qed

lemma trim_id:
  assumes "s \<noteq> []" "hd s \<notin> set junk" "last s \<notin> set junk"
  shows "trimBack s junk = s" "trimFront s junk = s" "trimBoth s junk = s"
proof -
  obtain xs x where s: "s = xs @ [x]" using assms(1) by (metis append_butlast_last_id)
  then show B: "trimBack s junk = s" using assms(3) by (simp add: str_simps)
  show F: "trimFront s junk = s" using assms(1,2) by (cases s) (auto simp: str_simps)
  show "trimBoth s junk = s" by (simp add: trimBoth_def B F)
qed

lemma line_split:
  assumes "line_key n" "line_val v"
  shows "trimBack (n @ '': '' @ v) SPACECHARS = n @ '': '' @ v"
    "trimFront (n @ '': '' @ v) SPACECHARS = n @ '': '' @ v"
    "trimBoth (n @ '': '' @ v) SPACECHARS = n @ '': '' @ v"
    "find_chr (n @ '': '' @ v) (CHR '':'') = Some (length n)"
    "trimFront ('' '' @ v) SPACECHARS = v" "trimBack n SPACECHARS = n"
proof -
  have "hd (n @ '': '' @ v) \<notin> set SPACECHARS" "last (n @ '': '' @ v) \<notin> set SPACECHARS"
    using assms by (auto simp: line_key_def line_val_def)
  then show "trimBack (n @ '': '' @ v) SPACECHARS = n @ '': '' @ v"
    "trimFront (n @ '': '' @ v) SPACECHARS = n @ '': '' @ v"
    "trimBoth (n @ '': '' @ v) SPACECHARS = n @ '': '' @ v"
    using trim_id [of "n @ '': '' @ v" SPACECHARS] by simp_all
  show "find_chr (n @ '': '' @ v) (CHR '':'') = Some (length n)"
    using assms find_pos_split [of "\<lambda>x. x = CHR '':''" "CHR '':''" n "CHR '' '' # v"]
    by (auto simp: find_chr_def line_key_def)
  show "trimFront ('' '' @ v) SPACECHARS = v"
    using assms(2) trim_id(2) [of v SPACECHARS]
    by (auto simp: line_val_def str_simps) (simp add: SPACECHARS_def)
  show "trimBack n SPACECHARS = n" using assms(1) trim_id(1) by (auto simp: line_key_def)
qed

lemma Load_line_known:
  assumes "(p, n) \<in> set mapId2Headname" "line_val v"
  shows "Load_lines w ((off, n @ '': '' @ v) # ls) l h unk = Load_lines w ls (Pos p) (header_set p (Some v) h) unk"
proof -
  have k: "line_key n" "resolvePos n = Pos p" using known_keys [OF assms(1)] by simp_all
  show ?thesis
    using line_split [OF k(1) assms(2)] k assms(2)
    by (simp add: Let_def line_val_def line_key_def)
qed

lemma Load_line_unknown:
  assumes "line_key n" "resolvePos n = HEADPOS_MAX" "line_val v"
  shows "Load_lines w ((off, n @ '': '' @ v) # ls) l h unk =
    (if w then Load_lines w ls HEADPOS_UNK_EXPORT h (unk @ [(n, v)]) else Load_lines w ls HEADPOS_MAX h unk)"
  using line_split [OF assms(1,3)] assms by (simp add: Let_def line_val_def line_key_def)

lemma find_sub_RN_field:
  assumes "line_key n" "find_sub svRN v = None"
  shows "find_sub svRN (n @ '': '' @ v) = None"
  using find_sub_RN_append_no_nl [of "n @ '': ''" v] assms by (simp add: line_key_def)

section \<open>Reading back a printed header\<close>

definition set_fields :: "header \<Rightarrow> (eHeadPos \<times> string) list \<Rightarrow> header \<Rightarrow> header" where
  "set_fields h ps g =
     g\<lparr>hdr_h := (\<lambda>p. if p \<in> fst ` set ps \<and> hdr_h h p \<noteq> None then hdr_h h p else hdr_h g p)\<rparr>"

lemma set_fields_Nil: "set_fields h [] g = g"
  by (simp add: set_fields_def)

lemma Load_fields:
  assumes "set ps \<subseteq> set mapId2Headname" "\<And>p v. hdr_h h p = Some v \<Longrightarrow> line_val v"
  shows "\<exists>l'. Load_lines w (split_by_str svRN off (concat (map (header_line h) ps) @ rest)) l g unk =
    Load_lines w (split_by_str svRN (off + length (concat (map (header_line h) ps))) rest) l'
      (set_fields h ps g) unk"
  using assms(1)
proof (induction ps arbitrary: off l g)
  case Nil
  then show ?case by (auto simp: set_fields_Nil)
next
  case (Cons x ps)
  obtain p n where x: "x = (p, n)" by fastforce
  have mem: "(p, n) \<in> set mapId2Headname" and sub: "set ps \<subseteq> set mapId2Headname" using Cons.prems x by auto
  show ?case
  proof (cases "hdr_h h p")
    case None
    then have "set_fields h (x # ps) g = set_fields h ps g"
      unfolding set_fields_def by (intro arg_cong [where f = "\<lambda>f. g\<lparr>hdr_h := f\<rparr>"]) (auto simp: x fun_eq_iff)
    with Cons.IH [OF sub] None show ?thesis by (simp add: header_line_def x)
  next
    case (Some v)
    then have v: "line_val v" using assms(2) by blast
    have c: "find_sub svRN (n @ '': '' @ v) = None"
      using find_sub_RN_field known_keys [OF mem] v by (auto simp: line_val_def)
    have s: "split_by_str svRN off (header_line h x @ r) =
        (off, n @ '': '' @ v) # split_by_str svRN (off + length (header_line h x)) r" for r
      using split_RN_line [OF c, of off r] Some by (simp add: header_line_def x svRN_def add.commute)
    have g: "set_fields h ps (header_set p (Some v) g) = set_fields h (x # ps) g"
      using Some v by (auto simp: set_fields_def header_set_def x line_val_def c_str_id fun_eq_iff)
    obtain l' where "Load_lines w (split_by_str svRN (off + length (header_line h x)) (concat (map (header_line h) ps) @ rest))
         (Pos p) (header_set p (Some v) g) unk =
       Load_lines w (split_by_str svRN (off + length (header_line h x) + length (concat (map (header_line h) ps))) rest) l'
         (set_fields h ps (header_set p (Some v) g)) unk"
      using Cons.IH [OF sub] by blast
    then show ?thesis
      using s Load_line_known [OF mem v, of w off] by (simp add: g add.assoc del: Load_lines.simps) blast
  qed
qed

lemma nat_str_no_nul: "CHR 0x00 \<notin> set (nat_str n)"
  using nat_str_digits [of n] by (auto simp: isdigit_def)

lemma parse_status_print:
  assumes "0 < c" "c < 2 ^ 31" "line_val msg"
  shows "parse_status ('' '' @ int_str c @ '' '' @ msg) e False after = \<lparr>st_code = c, st_msg = msg\<rparr>"
proof -
  let ?n = "nat c"
  have i: "int_str c = nat_str ?n" using assms(1) by (simp add: int_str_def)
  have ns: "\<forall>x \<in> set (nat_str ?n). x \<notin> set SPACECHARS"
    using nat_str_digits [of ?n] by (auto simp: SPACECHARS_def isdigit_def)
  obtain d ds where d: "nat_str ?n = d # ds" by (metis nat_str_nonempty neq_Nil_conv)
  have tf: "trimFront ('' '' @ nat_str ?n @ '' '' @ msg) SPACECHARS = nat_str ?n @ '' '' @ msg"
    using ns d by (simp add: str_simps SPACECHARS_def)
  have ff: "find_first_of (nat_str ?n @ '' '' @ msg) SPACECHARS = Some (length (nat_str ?n))"
    using ns find_pos_split [of "\<lambda>x. x \<in> set SPACECHARS" "CHR '' ''" "nat_str ?n" msg]
    by (simp add: find_first_of_def SPACECHARS_def)
  have nx: "Next False False (split_walk_init ('' '' @ nat_str ?n @ '' '' @ msg) SPACECHARS) =
     (True, \<lparr>sw_input = nat_str ?n @ '' '' @ msg, sw_slice_len = length (nat_str ?n), sw_seps = SPACECHARS, sw_first = True\<rparr>)"
    using tf ff by (simp add: Next_def split_walk_init_def Let_def)
  have cs: "c_str (nat_str ?n @ '' '' @ msg @ after) = nat_str ?n @ '' '' @ c_str (msg @ after)"
    using nat_str_no_nul [of ?n] c_str_append [of "nat_str ?n @ '' ''" "msg @ after"] by simp
  have sp: "\<not> isdigit (CHR '' '')" by (simp add: isdigit_def)
  have st: "strtoll (nat_str ?n @ '' '' @ msg @ after) = (c, '' '' @ c_str (msg @ after))"
    using strtol10_nat_str [of "'' '' @ c_str (msg @ after)" ?n LLONG_MAX LLONG_MIN] assms sp
    unfolding strtoll_def cs by (simp add: LLONG_MAX_def LLONG_MIN_def)
  have co: "to_int32 (svtol (nat_str ?n @ '' '' @ msg @ after) 0) = c"
    using assms to_int32_small [of c] unfolding svtol_def st by simp
  have r: "trimBoth ('' '' @ msg) SPACECHARS = msg"
  proof -
    have "last ('' '' @ msg) = last msg" "msg \<noteq> []" using assms(3) by (auto simp: line_val_def)
    then have "trimBack ('' '' @ msg) SPACECHARS = '' '' @ msg"
      using assms(3) by (cases msg rule: rev_cases) (auto simp: line_val_def str_simps)
    then show ?thesis using line_split(5) [OF _ assms(3), of "''x''"]
      by (simp add: trimBoth_def line_key_def SPACECHARS_def)
  qed
  show ?thesis
    using nx co r assms(1,3) d
    by (simp add: parse_status_def i Let_def sw_view_def sw_right_def line_val_def)
qed


lemma date_text_ok:
  assumes "0 \<le> now" "tm_year (gmtime now) + 1900 \<le> 9999"
  shows "line_val (date_view (tHttpDate_time now))"
proof -
  let ?t = "gmtime now"
  have ok: "tm_ok ?t" by (rule gmtime_spec(2) [OF assms])
  note r = ok [unfolded tm_ok_def]
  have f: "hd_text (tHttpDate_time now) = strftime (hd date_fmts) ?t"
    using assms(1) FormatTime_ok [OF ok] by (simp add: tHttpDate_time_def)
  have nz: "CHR 0x00 \<notin> set (strftime (hd date_fmts) ?t)" by (rule strftime_no_nul [OF ok])
  have ne: "strftime (hd date_fmts) ?t \<noteq> []" using length_strftime [OF ok] by auto
  have nh: "hd (strftime (hd date_fmts) ?t) \<noteq> CHR 0x00" using nz hd_in_set [OF ne] by metis
  have v: "date_view (tHttpDate_time now) = strftime (hd date_fmts) ?t"
    using ne f nh by (simp add: date_view_def date_isSet_def del: strftime.simps)
  have names: "\<forall>n \<in> set (wday_names @ mon_names). CHR 0x0A \<notin> set n" by code_simp
  have nl3: "CHR 0x0A \<notin> set (name3 wday_names i)" "CHR 0x0A \<notin> set (name3 mon_names i)" for i
    using names by (auto simp: name3_def dest: in_set_takeD)
  have nli: "CHR 0x0A \<notin> set (int_str i)" "CHR 0x0A \<notin> set (pad2 i)" if "0 \<le> i" for i
    using that nat_str_digits [of "nat i"] by (auto simp: int_str_def pad2_def isdigit_def)
  have "CHR 0x0A \<notin> set (strftime (hd date_fmts) ?t)" unfolding strftime_fmt0 using nl3 nli r by simp
  then have rn: "find_sub svRN (strftime (hd date_fmts) ?t) = None" by (rule find_sub_RN_no_nl)
  have l: "last (strftime (hd date_fmts) ?t) = CHR ''T''" unfolding strftime_fmt0 by simp
  have wd: "\<forall>n \<in> set wday_names. n \<noteq> [] \<and> hd n \<notin> set SPACECHARS" by code_simp
  have wl: "nat (tm_wday ?t) < length wday_names"
    using r by (simp add: wday_names_def flip: numeral_eq_Suc) linarith
  have "name3 wday_names (tm_wday ?t) \<noteq> [] \<and> hd (name3 wday_names (tm_wday ?t)) \<notin> set SPACECHARS"
    using wd nth_mem [OF wl] r wl by (auto simp: name3_def hd_take)
  then have "hd (strftime (hd date_fmts) ?t) \<notin> set SPACECHARS" unfolding strftime_fmt0 by simp
  then show ?thesis using ne nz rn l by (simp add: v line_val_def SPACECHARS_def)
qed

text \<open>
  C39. A response header that is printed parses back: \<open>Load\<close> consumes the whole text and yields
  the same protocol digit, status and known header fields, if the status code is positive and
  reason phrase and field values are trimmed single lines.
\<close>

theorem header_print_load:
  assumes "0 < st_code (hdr_status h)" "st_code (hdr_status h) < 2 ^ 31" "line_val (st_msg (hdr_status h))"
    and "\<forall>p v. hdr_h h p = Some v \<longrightarrow> line_val v"
    and "0 \<le> now" "tm_year (gmtime now) + 1900 \<le> 9999"
  shows "Load False (ToString now h) after header_new =
    LoadRet (int (length (ToString now h))) (h\<lparr>hdr_type := ANSWER\<rparr>) []"
proof -
  let ?c = "st_code (hdr_status h)" and ?m = "st_msg (hdr_status h)"
  let ?pre = "''HTTP/1.'' @ [hdr_proto h]"
  let ?l1 = "'' '' @ int_str ?c @ '' '' @ ?m"
  let ?d = "''Date'' @ '': '' @ date_view (tHttpDate_time now)"
  let ?fs = "concat (map (header_line h) mapId2Headname)"
  let ?h1 = "header_new\<lparr>hdr_type := ANSWER, hdr_proto := hdr_proto h\<rparr>"
  let ?h2 = "?h1\<lparr>hdr_status := \<lparr>st_code = ?c, st_msg = ?m\<rparr>\<rparr>"
  have tx: "ToString now h = ?pre @ ?l1 @ svRN @ ?fs @ ?d @ svRN @ svRN"
    by (simp add: ToString_def)
  have c1: "find_sub svRN ?l1 = None"
  proof -
    have "CHR 0x0A \<notin> set (nat_str (nat ?c))" using nat_str_digits [of "nat ?c"] by (auto simp: isdigit_def)
    then show ?thesis
      using find_sub_RN_append_no_nl [of "'' '' @ int_str ?c @ '' ''" ?m] assms(1,3)
      by (simp add: line_val_def int_str_def del: find_sub.simps)
  qed
  have dl: "line_val (date_view (tHttpDate_time now))" by (rule date_text_ok [OF assms(5,6)])
  have dk: "line_key ''Date''" "resolvePos ''Date'' = HEADPOS_MAX" by code_simp+
  have c2: "find_sub svRN ?d = None" using find_sub_RN_field [OF dk(1)] dl by (simp add: line_val_def)
  let ?o = "8 + length ?l1 + 2"
  have s1: "split_by_str svRN 8 (?l1 @ svRN @ ?fs @ ?d @ svRN @ svRN) =
      (8, ?l1) # split_by_str svRN ?o (?fs @ ?d @ svRN @ svRN)"
    using split_RN_line [OF c1] .
  obtain l' where L: "Load_lines False (split_by_str svRN ?o (?fs @ ?d @ svRN @ svRN)) HEADPOS_MAX ?h2 [] =
      Load_lines False (split_by_str svRN (?o + length ?fs) (?d @ svRN @ svRN)) l'
        (set_fields h mapId2Headname ?h2) []"
    using Load_fields [of mapId2Headname h False ?o "?d @ svRN @ svRN" HEADPOS_MAX ?h2 "[]"] assms(4) by blast
  have g: "set_fields h mapId2Headname ?h2 = h\<lparr>hdr_type := ANSWER\<rparr>"
  proof -
    have "p \<in> fst ` set mapId2Headname" for p by (cases p) (simp_all add: mapId2Headname_def)
    then have "hdr_h (set_fields h mapId2Headname ?h2) = hdr_h h"
      by (auto simp: set_fields_def header_new_def fun_eq_iff)
    moreover have "hdr_type (set_fields h mapId2Headname ?h2) = ANSWER"
      "hdr_proto (set_fields h mapId2Headname ?h2) = hdr_proto h"
      "hdr_status (set_fields h mapId2Headname ?h2) = hdr_status h"
      by (simp_all add: set_fields_def)
    ultimately show ?thesis by (cases h; cases "set_fields h mapId2Headname ?h2") simp
  qed
  have s2: "split_by_str svRN (?o + length ?fs) (?d @ svRN @ svRN) =
      [(?o + length ?fs, ?d), (?o + length ?fs + length ?d + 2, []), (?o + length ?fs + length ?d + 2 + 2, [])]"
    using split_RN_line [OF c2, of "?o + length ?fs" svRN] split_RN_end by simp
  have len: "length (ToString now h) = ?o + length ?fs + length ?d + 2 + 2"
    unfolding tx by (simp add: svRN_def)
  have "Load_lines False (split_by_str svRN ?o (?fs @ ?d @ svRN @ svRN)) HEADPOS_MAX ?h2 [] =
      LoadRet (int (length (ToString now h))) (h\<lparr>hdr_type := ANSWER\<rparr>) []"
    unfolding L s2 g len by (subst Load_line_unknown [OF dk dl]) simp
  then show ?thesis
    using s1 parse_status_print [OF assms(1-3)] assms(1)
    by (simp add: Load_def tx head_kind_def startsWith_def Load_first_def header_new_def Let_def svRN_def
        del: Load_lines.simps)
qed


theorem header_print_load_witness:
  "Load False (ToString 0 (header_set LOCATION (Some ''/x'') (setStatus 302 ''Found'' header_new))) [] header_new =
    LoadRet (int (length (ToString 0 (header_set LOCATION (Some ''/x'') (setStatus 302 ''Found'' header_new)))))
      ((header_set LOCATION (Some ''/x'') (setStatus 302 ''Found'' header_new))\<lparr>hdr_type := ANSWER\<rparr>) []"
proof (rule header_print_load)
  let ?h = "header_set LOCATION (Some ''/x'') (setStatus 302 ''Found'' header_new)"
  show "0 < st_code (hdr_status ?h)" "st_code (hdr_status ?h) < 2 ^ 31" by (simp_all add: setStatus_def header_set_def)
  show "line_val (st_msg (hdr_status ?h))" by code_simp
  have "line_val ''/x''" by code_simp
  then show "\<forall>p v. hdr_h ?h p = Some v \<longrightarrow> line_val v"
    by (auto simp: header_set_def setStatus_def header_new_def c_str_def)
  show "tm_year (gmtime 0) + 1900 \<le> 9999" by code_simp
qed simp

text \<open>
  A continuation line that follows a known header with an empty value makes the parser call
  \<open>strlen\<close> on a null pointer, for each known header.
\<close>

theorem Load_fault_on_empty_value:
  assumes "(p, n) \<in> set mapId2Headname" and "line_val v"
  shows "Load_lines w ((o1, n @ '':'') # (o2, '' '' @ v) # ls) l h unk = LoadFault"
proof -
  have k: "line_key n" "resolvePos n = Pos p" using known_keys [OF assms(1)] by simp_all
  have t: "trimBack (n @ '':'') SPACECHARS = n @ '':''" "trimFront (n @ '':'') SPACECHARS = n @ '':''"
    "trimBoth (n @ '':'') SPACECHARS = n @ '':''"
    using k trim_id [of "n @ '':''" SPACECHARS] by (auto simp: line_key_def SPACECHARS_def)
  have f: "find_chr (n @ '':'') (CHR '':'') = Some (length n)"
    using k find_pos_split [of "\<lambda>x. x = CHR '':''" "CHR '':''" n "[]"] by (auto simp: find_chr_def line_key_def)
  have b: "trimBack n SPACECHARS = n" using k trim_id(1) by (auto simp: line_key_def)
  have e: "trimFront [] SPACECHARS = []" by (simp add: str_simps)
  have 1: "Load_lines w ((o1, n @ '':'') # (o2, '' '' @ v) # ls) l h unk =
      Load_lines w ((o2, '' '' @ v) # ls) (Pos p) (header_del p h) unk"
    using t f b e k by (simp add: Let_def line_key_def)
  have c: "trimFront (trimBack ('' '' @ v) SPACECHARS) SPACECHARS \<noteq> trimBack ('' '' @ v) SPACECHARS"
  proof -
    have "trimBack ('' '' @ v) SPACECHARS = '' '' @ v"
      using assms(2) by (cases v rule: rev_cases) (auto simp: line_val_def str_simps)
    moreover have "trimFront ('' '' @ v) SPACECHARS = v" by (rule line_split(5) [OF k(1) assms(2)])
    ultimately show ?thesis by simp
  qed
  show ?thesis unfolding 1 using c by (simp add: Let_def strappend_def header_del_def)
qed

theorem Load_fault_on_empty_value_witness:
  "Load_lines False [(0, ''Location'' @ '':''), (11, '' '' @ ''x''), (15, []), (17, [])] HEADPOS_MAX header_new [] = LoadFault"
  by (rule Load_fault_on_empty_value [of LOCATION]) (code_simp, code_simp)

text \<open>The reported length.\<close>

lemma Load_lines_end:
  assumes "Load_lines w ls l h unk = LoadRet n h' unk'" "n > 0"
  shows "\<exists>pre o1 o2 v post. ls = pre @ (o1, []) # (o2, v) # post \<and> n = int o2"
  using assms
proof (induction ls arbitrary: l h unk)
  case (Cons x ls)
  obtain off it where x: "x = (off, it)" by fastforce
  show ?case
  proof (cases "it = []")
    case True
    with Cons.prems x show ?thesis by (cases ls) (auto intro!: exI [of _ "[]"])
  next
    case False
    have "\<exists>l h unk. Load_lines w ls l h unk = LoadRet n h' unk'"
      using Cons.prems False x by (simp add: Let_def split: if_splits option.splits last_id.splits) blast+
    then show ?thesis using Cons.IH Cons.prems(2) by (metis append_Cons)
  qed
qed simp

lemma split_adjacent:
  assumes "seps \<noteq> []" "split_by_str seps off s = xs @ (o1, v1) # (o2, v2) # ys"
  shows "off \<le> o1 \<and> o2 = o1 + length v1 + length seps \<and> o2 \<le> off + length s \<and>
    take (length seps) (drop (o1 + length v1 - off) s) = seps"
  using assms(2)
proof (induction xs arbitrary: off s)
  case Nil
  then obtain i where i: "find_sub seps s = Some i"
    by (cases "find_sub seps s") (auto simp: split_by_str_None)
  have le: "i + length seps \<le> length s" using find_sub_le [OF i] by simp
  have "(o2, v2) # ys = split_by_str seps (off + i + length seps) (drop (i + length seps) s)"
    and o: "o1 = off" "v1 = take i s"
    using Nil split_by_str_Some [OF i assms(1), of off] by auto
  then have "o2 = off + i + length seps"
    by (subst (asm) split_by_str.simps) (auto split: option.splits if_splits)
  then show ?case using o le find_sub_match [OF i] by auto
next
  case (Cons x xs)
  then obtain i where i: "find_sub seps s = Some i"
    by (cases "find_sub seps s") (auto simp: split_by_str_None)
  have le: "i + length seps \<le> length s" using find_sub_le [OF i] by simp
  have "split_by_str seps (off + i + length seps) (drop (i + length seps) s) = xs @ (o1, v1) # (o2, v2) # ys"
    using Cons.prems split_by_str_Some [OF i assms(1), of off] by auto
  from Cons.IH [OF this] le show ?case by (auto simp: add.commute)
qed


lemma Load_cases:
  assumes "Load w input after h = LoadRet n h' unk"
  shows "n \<le> 0 \<and> unk = [] \<or>
    (\<exists>pfx off it ls h2. split_by_str svRN pfx (drop pfx input) = (off, it) # ls \<and>
      Load_lines w ls HEADPOS_MAX h2 [] = LoadRet n h' unk)"
proof (cases "length input < 9 \<or> head_kind input = None")
  case True
  then show ?thesis using assms by (auto simp: Load_def split: if_splits)
next
  case False
  then obtain k pfx where k: "head_kind input = Some (k, pfx)" by auto
  obtain off it ls where sp: "split_by_str svRN pfx (drop pfx input) = (off, it) # ls"
    by (metis neq_Nil_conv split_by_str_nonempty surj_pair)
  let ?h1 = "h\<lparr>hdr_type := k, hdr_proto := (if k = ANSWER then input ! 7 else hdr_proto h)\<rparr>"
  obtain ok h2 where f: "Load_first it (drop (off + length it) input @ after) ?h1 = (ok, h2)" by fastforce
  have "Load w input after h =
      (if drop pfx input = [] then LoadRet 0 ?h1 []
       else if ok then Load_lines w ls HEADPOS_MAX h2 [] else LoadRet 0 h2 [])"
    using False k sp f by (simp add: Load_def Let_def)
  then show ?thesis
    using assms sp by (cases "drop pfx input = [] \<or> \<not> ok") (auto split: if_splits, metis+)
qed

lemma take_4_RNRN:
  assumes "take 2 (drop k s) = svRN" "take 2 (drop (k + 2) s) = svRN"
  shows "take 4 (drop k s) = svRN @ svRN"
proof -
  have "take 4 (drop k s) = take 2 (drop k s) @ take 2 (drop 2 (drop k s))"
    using take_add [of 2 2 "drop k s"] by simp
  with assms show ?thesis by (simp add: add.commute)
qed

text \<open>
  If the parser reports that it processed \<open>n\<close> bytes, these are bytes of the input and they end
  with the blank line, that is CR LF CR LF: a positive result means a complete head.
\<close>

theorem Load_consumes_head:
  assumes "Load w input after h = LoadRet n h' unk" and "n > 0"
  shows "4 \<le> n \<and> n \<le> int (length input) \<and> take 4 (drop (nat n - 4) input) = svRN @ svRN"
proof -
  obtain pfx off it ls h2 where sp: "split_by_str svRN pfx (drop pfx input) = (off, it) # ls"
    and L: "Load_lines w ls HEADPOS_MAX h2 [] = LoadRet n h' unk"
    using Load_cases [OF assms(1)] assms(2) by auto
  obtain pre o1 o2 v post where ls: "ls = pre @ (o1, []) # (o2, v) # post" and n: "n = int o2"
    using Load_lines_end [OF L assms(2)] by blast
  obtain xs o0 v0 where pre: "(off, it) # pre = xs @ [(o0, v0)]"
    by (metis append_butlast_last_id list.distinct(1) surj_pair)
  have s1: "split_by_str svRN pfx (drop pfx input) = ((off, it) # pre) @ (o1, []) # (o2, v) # post"
    and s0: "split_by_str svRN pfx (drop pfx input) = xs @ (o0, v0) # (o1, []) # (o2, v) # post"
    using sp ls pre by (simp, metis append.assoc append_Cons append_Nil)
  have rn: "svRN \<noteq> []" "length svRN = 2" by (simp_all add: svRN_def)
  note a1 = split_adjacent [OF rn(1) s1, unfolded rn(2), simplified]
  note a0 = split_adjacent [OF rn(1) s0, unfolded rn(2), simplified]
  have plen: "pfx \<le> length input" using a1 by (cases "pfx \<le> length input") (auto simp: svRN_def)
  have b0: "take 2 (drop (o1 - 2) input) = svRN" and b1: "take 2 (drop (o1 - 2 + 2) input) = svRN"
    and le: "2 \<le> o1" "o2 = o1 + 2" "o2 \<le> length input"
    using a0 a1 plen by (auto simp: add.commute)
  have "nat n - 4 = o1 - 2" using n le by simp
  then show ?thesis using take_4_RNRN [OF b0 b1] n le by simp
qed

theorem Load_consumes_head_witness:
  "take 4 (drop (49 - 4) (''GET /a HTTP/1.1'' @ svRN @ ''Connection: close'' @ svRN @ ''Host: abc'' @ svRN @ svRN)) = svRN @ svRN"
proof -
  let ?i = "''GET /a HTTP/1.1'' @ svRN @ ''Connection: close'' @ svRN @ ''Host: abc'' @ svRN @ svRN"
  have "case Load False ?i [] header_new of LoadRet n _ _ \<Rightarrow> n = 49 | LoadFault \<Rightarrow> False" by code_simp
  then obtain h' unk where "Load False ?i [] header_new = LoadRet 49 h' unk"
    by (auto split: load_result.splits)
  from Load_consumes_head [OF this] show ?thesis by simp
qed


section \<open>Custom headers\<close>

definition custom_line :: "string \<times> string \<Rightarrow> string" where
  "custom_line = (\<lambda>(k, v). k @ '': '' @ v @ svRN)"

definition is_taboo :: "string list \<Rightarrow> string \<Rightarrow> bool" where
  "is_taboo taboo k \<longleftrightarrow> (\<exists>x \<in> set taboo. map tolower x = map tolower k)"

lemma scaseequals_iff: "scaseequals a b \<longleftrightarrow> map tolower a = map tolower b"
  by (auto simp: scaseequals_def list_eq_iff_nth_eq)

lemma is_taboo_code: "(\<exists>x \<in> set taboo. scaseequals x k) = is_taboo taboo k"
  by (simp add: is_taboo_def scaseequals_iff)

text \<open>A continuation line is joined to the value it continues.\<close>

fun join_cont :: "(string \<times> string) list \<Rightarrow> (string \<times> string) list" where
  "join_cont ((k, v) # (k2, v2) # us) =
     (if k2 = [] then join_cont ((k, v @ '' '' @ v2) # us) else (k, v) # join_cont ((k2, v2) # us))"
| "join_cont us = us"

lemma custom_loop_continued:
  assumes "k \<noteq> []"
  shows "custom_loop taboo ((k, v) # ([], v2) # us) f ret =
    custom_loop taboo ((k, v @ '' '' @ v2) # us) f ret"
proof (cases "is_taboo taboo k")
  case True
  then show ?thesis using assms by (simp add: is_taboo_code)
next
  case False
  have "take (length (ret @ k @ '': '' @ v @ svRN) - 2) (ret @ k @ '': '' @ v @ svRN) = ret @ k @ '': '' @ v"
    by (simp add: svRN_def)
  then show ?thesis using assms False by (simp add: is_taboo_code)
qed

lemma custom_loop_joined:
  assumes "us = [] \<or> fst (hd us) \<noteq> []"
  shows "custom_loop taboo us f ret =
    ret @ concat (map custom_line (filter (\<lambda>(k, v). \<not> is_taboo taboo k) (join_cont us)))"
  using assms
proof (induction us arbitrary: f ret rule: join_cont.induct)
  case (1 k v k2 v2 us)
  show ?case
  proof (cases "k2 = []")
    case True
    then show ?thesis using 1 custom_loop_continued [of k taboo v v2 us f ret] by simp
  next
    case False
    then show ?thesis using 1(2) [OF False] 1(3)
      by (simp only: custom_loop.simps(2) [of taboo k]) (simp add: is_taboo_code custom_line_def)
  qed
qed (auto simp: is_taboo_code custom_line_def)

text \<open>The parser never reports a continuation without a header before it.\<close>

definition unk_inv :: "last_id \<Rightarrow> (string \<times> string) list \<Rightarrow> bool" where
  "unk_inv l unk \<longleftrightarrow> (unk = [] \<longrightarrow> l \<noteq> HEADPOS_UNK_EXPORT) \<and> (unk = [] \<or> fst (hd unk) \<noteq> [])"

lemma unk_inv_steps:
  "unk_inv HEADPOS_UNK_EXPORT unk \<Longrightarrow> unk_inv HEADPOS_UNK_EXPORT (unk @ [([], v)])"
  "unk_inv l unk \<Longrightarrow> k \<noteq> [] \<Longrightarrow> unk_inv HEADPOS_UNK_EXPORT (unk @ [(k, v)])"
  "unk_inv l unk \<Longrightarrow> unk_inv (Pos i) unk" "unk_inv l unk \<Longrightarrow> unk_inv HEADPOS_MAX unk"
  by (cases unk; simp add: unk_inv_def)+

lemma Load_lines_unk_inv:
  "Load_lines w ls l h unk = LoadRet n h' unk' \<Longrightarrow> unk_inv l unk \<Longrightarrow> unk' = [] \<or> fst (hd unk') \<noteq> []"
proof (induction w ls l h unk rule: Load_lines.induct)
  case (2 w off it ls l h unk)
  show ?case
  proof (cases "it = []")
    case True
    then show ?thesis using "2.prems" by (cases ls) (auto simp: unk_inv_def)
  next
    case False
    note inv = "2.prems"(2) and steps = unk_inv_steps
    have base: "unk = [] \<or> fst (hd unk) \<noteq> []" using inv by (simp add: unk_inv_def)
    show ?thesis
    proof (cases "trimFront (trimBack it SPACECHARS) SPACECHARS \<noteq> trimBack it SPACECHARS")
      case True
      then show ?thesis
        using False "2.prems" "2.IH"(1-2) [OF False refl True] base steps
        by (auto simp: Let_def split: last_id.splits option.splits)
    next
      case nocont: False
      then show ?thesis
        using False "2.prems" "2.IH"(3-) [OF False refl nocont] base steps
        by (auto simp: Let_def split: last_id.splits option.splits if_splits)
    qed
  qed
qed (simp add: unk_inv_def)

lemma Load_unk_head:
  assumes "Load w input after h = LoadRet n h' unk"
  shows "unk = [] \<or> fst (hd unk) \<noteq> []"
  using Load_cases [OF assms] Load_lines_unk_inv [of w _ HEADPOS_MAX _ "[]" n h' unk]
  by (auto simp: unk_inv_def)

text \<open>
  Of the headers of a request that the cache does not interpret itself, exactly those that are
  not on the list of forbidden names (compared without case) are passed on, one line each, in
  their order; a continuation line is joined to its header with a blank and shares its fate.
\<close>

theorem custom_headers_filtered:
  assumes "Load True req after header_new = LoadRet n h unk" and "req \<noteq> []"
  shows "ExtractCustomHeaders req after passThrough =
    Some (concat (map custom_line (filter (\<lambda>(k, v).
      \<not> is_taboo (if passThrough then tabooHeadersPassThrough else tabooHeadersForCaching) k) (join_cont unk))))"
  using assms custom_loop_joined [OF Load_unk_head [OF assms(1)]] by (simp add: ExtractCustomHeaders_def)

theorem custom_headers_filtered_witness:
  "ExtractCustomHeaders (''GET /a HTTP/1.1'' @ svRN @ ''HOST: b'' @ svRN @ ''X-Y: z'' @ svRN @ '' u'' @ svRN @ svRN) [] False =
     Some (''X-Y: z u'' @ svRN)"
proof -
  let ?i = "''GET /a HTTP/1.1'' @ svRN @ ''HOST: b'' @ svRN @ ''X-Y: z'' @ svRN @ '' u'' @ svRN @ svRN"
  let ?u = "[(''HOST'', ''b''), (''X-Y'', ''z''), ([], ''u'')]"
  have "case Load True ?i [] header_new of LoadRet n _ unk \<Rightarrow> unk = ?u | LoadFault \<Rightarrow> False"
    by code_simp
  then obtain n h where "Load True ?i [] header_new = LoadRet n h ?u"
    by (auto split: load_result.splits)
  moreover have "is_taboo tabooHeadersForCaching ''HOST''" "\<not> is_taboo tabooHeadersForCaching ''X-Y''" by code_simp+
  ultimately show ?thesis
    using custom_headers_filtered [of ?i "[]" n h ?u False] by (simp add: custom_line_def)
qed

end
