(* ===== verification/CsMapping.thy ===== *)
theory CsMapping
  imports HttpDate
begin

text \<open>
  \<open>src/csmapping.h\<close> and \<open>src/csmapping.cc\<close>: checksum types, file fingerprints, the description of
  remote files read from index files, and the two orders that serve as keys of \<open>std::map\<close>.

  The locale \<open>map_key\<close> states what \<open>std::map\<close> demands of a comparison; it is interpreted on both
  orders. Reading a file and computing its checksum (\<open>filereader::GetChecksum\<close>, a call into
  OpenSSL) is an argument of the definitions that use it.
\<close>

section \<open>Checksum types\<close>

datatype CSTYPES = CSTYPE_INVALID | CSTYPE_MD5 | CSTYPE_SHA1 | CSTYPE_SHA256 | CSTYPE_SHA512

definition MAXCSLEN :: nat where "MAXCSLEN = 64"

fun cs_ord :: "CSTYPES \<Rightarrow> nat" where
  "cs_ord CSTYPE_INVALID = 0"
| "cs_ord CSTYPE_MD5 = 1"
| "cs_ord CSTYPE_SHA1 = 2"
| "cs_ord CSTYPE_SHA256 = 3"
| "cs_ord CSTYPE_SHA512 = 4"

instantiation CSTYPES :: linorder
begin

definition less_eq_CSTYPES :: "CSTYPES \<Rightarrow> CSTYPES \<Rightarrow> bool" where
  "less_eq_CSTYPES a b \<longleftrightarrow> cs_ord a \<le> cs_ord b"

definition less_CSTYPES :: "CSTYPES \<Rightarrow> CSTYPES \<Rightarrow> bool" where
  "less_CSTYPES a b \<longleftrightarrow> cs_ord a < cs_ord b"

instance
proof
  fix a b :: CSTYPES
  show "a \<le> b \<Longrightarrow> b \<le> a \<Longrightarrow> a = b" by (cases a; cases b; simp add: less_eq_CSTYPES_def)
qed (auto simp: less_eq_CSTYPES_def less_CSTYPES_def)

end

text \<open>The argument is an \<open>unsigned short\<close>.\<close>

definition GuessCStype :: "nat \<Rightarrow> CSTYPES" where
  "GuessCStype n =
     (let len = n mod 65536 in
      if len = 16 then CSTYPE_MD5 else if len = 20 then CSTYPE_SHA1
      else if len = 32 then CSTYPE_SHA256 else if len = 64 then CSTYPE_SHA512
      else CSTYPE_INVALID)"

fun GetCSTypeLen :: "CSTYPES \<Rightarrow> nat" where
  "GetCSTypeLen CSTYPE_MD5 = 16"
| "GetCSTypeLen CSTYPE_SHA1 = 20"
| "GetCSTypeLen CSTYPE_SHA256 = 32"
| "GetCSTypeLen CSTYPE_SHA512 = 64"
| "GetCSTypeLen CSTYPE_INVALID = 0"

fun GetCsName :: "CSTYPES \<Rightarrow> string" where
  "GetCsName CSTYPE_MD5 = ''Md5''"
| "GetCsName CSTYPE_SHA1 = ''Sha1''"
| "GetCsName CSTYPE_SHA256 = ''Sha256''"
| "GetCsName CSTYPE_SHA512 = ''Sha512''"
| "GetCsName CSTYPE_INVALID = ''Other''"

fun GetCsNameReleaseFile :: "CSTYPES \<Rightarrow> string" where
  "GetCsNameReleaseFile CSTYPE_MD5 = ''MD5Sum''"
| "GetCsNameReleaseFile CSTYPE_SHA1 = ''SHA1''"
| "GetCsNameReleaseFile CSTYPE_SHA256 = ''SHA256''"
| "GetCsNameReleaseFile CSTYPE_SHA512 = ''SHA512''"
| "GetCsNameReleaseFile CSTYPE_INVALID = ''Other''"

section \<open>Fingerprints\<close>

record tFingerprint =
  fp_size :: off_t
  fp_csType :: CSTYPES
  fp_csum :: "8 word list"

definition fp_inv :: "tFingerprint \<Rightarrow> bool" where
  "fp_inv f \<longleftrightarrow> length (fp_csum f) = MAXCSLEN"

text \<open>A failure behind the length checks leaves the new type and the bytes decoded so far.\<close>

definition SetCs :: "string \<Rightarrow> CSTYPES \<Rightarrow> tFingerprint \<Rightarrow> bool \<times> tFingerprint" where
  "SetCs hexString eCstype f =
     (let l = length hexString;
          t = (if eCstype = CSTYPE_INVALID then GuessCStype (l div 2) else eCstype)
      in if l = 0 \<or> l mod 2 \<noteq> 0 then (False, f)
         else if eCstype = CSTYPE_INVALID \<and> t = CSTYPE_INVALID then (False, f)
         else if eCstype \<noteq> CSTYPE_INVALID \<and> l \<noteq> 2 * GetCSTypeLen eCstype then (False, f)
         else (case CsAsciiToBin hexString (fp_csum f) (l div 2 mod 65536) of
                 (ok, b) \<Rightarrow> (ok, f\<lparr>fp_csType := t, fp_csum := b\<rparr>)))"

text \<open>\<open>Set(uint8_t*, type, size)\<close>.\<close>

definition fp_Set_raw :: "8 word list option \<Rightarrow> CSTYPES \<Rightarrow> off_t \<Rightarrow> tFingerprint \<Rightarrow> tFingerprint" where
  "fp_Set_raw pData eCstype newsize f =
     f\<lparr>fp_size := newsize, fp_csType := eCstype,
       fp_csum := (case pData of
                     None \<Rightarrow> fp_csum f
                   | Some d \<Rightarrow> take (GetCSTypeLen eCstype) d @ drop (GetCSTypeLen eCstype) (fp_csum f))\<rparr>"

definition fp_Set_hex :: "string \<Rightarrow> CSTYPES \<Rightarrow> off_t \<Rightarrow> tFingerprint \<Rightarrow> bool \<times> tFingerprint" where
  "fp_Set_hex hexString eCstype newsize f =
     (case SetCs hexString eCstype f of
        (False, f2) \<Rightarrow> (False, f2)
      | (True, f2) \<Rightarrow> (True, f2\<lparr>fp_size := newsize\<rparr>))"

text \<open>\<open>Set(tSplitWalk&)\<close>: checksum and size from the next two words.\<close>

definition fp_Set :: "split_walk \<Rightarrow> CSTYPES \<Rightarrow> tFingerprint \<Rightarrow> bool \<times> tFingerprint" where
  "fp_Set sw wantedType f =
     (case Next False False sw of
        (False, _) \<Rightarrow> (False, f)
      | (True, w1) \<Rightarrow>
          (case SetCs (sw_view w1) wantedType f of
             (False, f2) \<Rightarrow> (False, f2)
           | (True, f2) \<Rightarrow>
               (case Next False False w1 of
                  (False, _) \<Rightarrow> (False, f2)
                | (True, w2) \<Rightarrow>
                    let n = atoofft (sw_view w2) in (n \<ge> 0, f2\<lparr>fp_size := n\<rparr>))))"

definition fp_Invalidate :: "tFingerprint \<Rightarrow> tFingerprint" where
  "fp_Invalidate f = f\<lparr>fp_csType := CSTYPE_INVALID, fp_size := -1\<rparr>"

definition GetCsAsString :: "tFingerprint \<Rightarrow> string" where
  "GetCsAsString f = BytesToHexString (fp_csum f) (GetCSTypeLen (fp_csType f))"

definition fp_to_string :: "tFingerprint \<Rightarrow> string" where
  "fp_to_string f = GetCsAsString f @ ''_'' @ offttos (fp_size f)"

definition csEquals :: "tFingerprint \<Rightarrow> tFingerprint \<Rightarrow> bool" where
  "csEquals f other \<longleftrightarrow>
     take (GetCSTypeLen (fp_csType f)) (fp_csum f) = take (GetCSTypeLen (fp_csType f)) (fp_csum other)"

definition fp_eq :: "tFingerprint \<Rightarrow> tFingerprint \<Rightarrow> bool" where
  "fp_eq f other \<longleftrightarrow>
     \<not> (fp_csType other \<noteq> fp_csType f \<or> fp_size f \<noteq> fp_size other) \<and> csEquals f other"

text \<open>\<open>memcmp(a, b, n) < 0\<close> on ranges of equal length, and \<open>operator<\<close> of strings.\<close>

fun lex_less :: "'a::linorder list \<Rightarrow> 'a list \<Rightarrow> bool" where
  "lex_less [] [] = False"
| "lex_less [] (y # ys) = True"
| "lex_less (x # xs) [] = False"
| "lex_less (x # xs) (y # ys) = (if x = y then lex_less xs ys else x < y)"

definition fp_less :: "tFingerprint \<Rightarrow> tFingerprint \<Rightarrow> bool" where
  "fp_less f other =
     (if fp_csType other \<noteq> fp_csType f then fp_csType f < fp_csType other
      else if fp_size f \<noteq> fp_size other then fp_size f < fp_size other
      else lex_less (take (GetCSTypeLen (fp_csType f)) (fp_csum f))
             (take (GetCSTypeLen (fp_csType f)) (fp_csum other)))"

text \<open>
  \<open>scan path type\<close> is \<open>filereader::GetChecksum\<close>: the checksum bytes and the size, \<open>None\<close> on
  failure; \<open>fsize path\<close> is the size of the file, if it exists.
\<close>

definition ScanFile ::
  "(string \<Rightarrow> CSTYPES \<Rightarrow> (8 word list \<times> off_t) option) \<Rightarrow> string \<Rightarrow> CSTYPES \<Rightarrow> tFingerprint \<Rightarrow> bool \<times> tFingerprint" where
  "ScanFile scan path eCstype f =
     (if GetCSTypeLen eCstype = 0 then (False, f)
      else (case scan path eCstype of
              None \<Rightarrow> (False, f\<lparr>fp_csType := eCstype\<rparr>)
            | Some (d, n) \<Rightarrow> (True, fp_Set_raw (Some d) eCstype n f)))"

definition CheckFile ::
  "(string \<Rightarrow> CSTYPES \<Rightarrow> (8 word list \<times> off_t) option) \<Rightarrow> (string \<Rightarrow> off_t option) \<Rightarrow> tFingerprint \<Rightarrow> string \<Rightarrow> bool" where
  "CheckFile scan fsize f sFile =
     (if fp_size f \<noteq> (case fsize sFile of None \<Rightarrow> -2 | Some n \<Rightarrow> n) then False
      else (case ScanFile scan sFile (fp_csType f)
                   \<lparr>fp_size = 0, fp_csType = CSTYPE_INVALID, fp_csum = replicate MAXCSLEN 0\<rparr> of
              (False, _) \<Rightarrow> False
            | (True, probe) \<Rightarrow> fp_eq probe f))"

section \<open>Remote files and import records\<close>

record tRemoteFileInfo =
  rf_fpr :: tFingerprint
  rf_dir :: string
  rf_name :: string

definition rf_SetInvalid :: "tRemoteFileInfo \<Rightarrow> tRemoteFileInfo" where
  "rf_SetInvalid r = r\<lparr>rf_name := [], rf_dir := [], rf_fpr := fp_Invalidate (rf_fpr r)\<rparr>"

definition IsUsable :: "tRemoteFileInfo \<Rightarrow> bool" where
  "IsUsable r \<longleftrightarrow> rf_name r \<noteq> [] \<and> fp_csType (rf_fpr r) \<noteq> CSTYPE_INVALID \<and> fp_size (rf_fpr r) > 0"

definition SetFromPath :: "string \<Rightarrow> string \<Rightarrow> tRemoteFileInfo \<Rightarrow> bool \<times> tRemoteFileInfo" where
  "SetFromPath sPath sBaseDir r =
     (if sPath = [] then (False, r)
      else (case rfind_chr sPath (CHR ''/'') of
              None \<Rightarrow> (True, r\<lparr>rf_name := sPath, rf_dir := sBaseDir\<rparr>)
            | Some pos \<Rightarrow>
                (True, r\<lparr>rf_name := drop (pos + 1) sPath, rf_dir := sBaseDir @ take (pos + 1) sPath\<rparr>)))"

definition SetSize :: "string option \<Rightarrow> tRemoteFileInfo \<Rightarrow> bool \<times> tRemoteFileInfo" where
  "SetSize szSize r =
     (let l = atoofft_def_val szSize (-2) in
      if l < 0 then (False, r) else (True, r\<lparr>rf_fpr := (rf_fpr r)\<lparr>fp_size := l\<rparr>\<rparr>))"

record tImpFileInfo =
  imp_path :: string
  imp_mtime :: time_t
  imp_used :: bool

definition imp_less :: "tImpFileInfo \<Rightarrow> tImpFileInfo \<Rightarrow> bool" where
  "imp_less a b =
     (if imp_mtime a \<noteq> imp_mtime b then imp_mtime a < imp_mtime b
      else lex_less (map (of_char :: char \<Rightarrow> nat) (imp_path a)) (map of_char (imp_path b)))"

section \<open>What a map demands of its key order\<close>

locale map_key =
  fixes less :: "'k \<Rightarrow> 'k \<Rightarrow> bool" and same :: "'k \<Rightarrow> 'k \<Rightarrow> bool"
  assumes irrefl: "\<not> less a a"
    and trans: "less a b \<Longrightarrow> less b c \<Longrightarrow> less a c"
    and incomparable: "(\<not> less a b \<and> \<not> less b a) = same a b"
    and same_trans: "same a b \<Longrightarrow> same b c \<Longrightarrow> same a c"
begin

lemma same_refl: "same a a"
  using incomparable [of a a] irrefl by simp

lemma same_sym: "same a b \<Longrightarrow> same b a"
  using incomparable by metis

lemma asym: "less a b \<Longrightarrow> \<not> less b a"
  using irrefl trans by blast

lemma trichotomy: "less a b \<or> same a b \<or> less b a"
  using incomparable by blast

lemma less_same: "less a b \<Longrightarrow> same b c \<Longrightarrow> less a c"
  using incomparable trans same_sym same_trans by metis

end

lemma lex_less_irrefl: "\<not> lex_less xs xs"
  by (induction xs) simp_all

lemma lex_less_trans: "lex_less xs ys \<Longrightarrow> lex_less ys zs \<Longrightarrow> lex_less xs zs"
proof (induction xs ys arbitrary: zs rule: lex_less.induct)
  case (2 y ys)
  then show ?case by (cases zs) auto
next
  case (4 x xs y ys)
  then show ?case by (cases zs) (auto split: if_splits)
qed simp_all

lemma lex_less_total: "\<not> lex_less xs ys \<Longrightarrow> \<not> lex_less ys xs \<Longrightarrow> xs = ys"
  by (induction xs ys rule: lex_less.induct) (auto split: if_splits)

lemma map_of_char_inject: "(map (of_char :: char \<Rightarrow> nat) xs = map of_char ys) = (xs = ys)"
  by (simp add: inj_map_eq_map inj_def)

interpretation fp_key: map_key fp_less fp_eq
proof
  show "\<not> fp_less a a" for a by (simp add: fp_less_def lex_less_irrefl)
  show "fp_less a c" if "fp_less a b" "fp_less b c" for a b c
    using that lex_less_trans by (fastforce simp: fp_less_def split: if_splits)
  show "(\<not> fp_less a b \<and> \<not> fp_less b a) = fp_eq a b" for a b
    by (auto simp: fp_less_def fp_eq_def csEquals_def lex_less_irrefl lex_less_total)
  show "fp_eq a c" if "fp_eq a b" "fp_eq b c" for a b c
    using that by (auto simp: fp_eq_def csEquals_def)
qed

interpretation imp_key: map_key imp_less "\<lambda>a b. imp_mtime a = imp_mtime b \<and> imp_path a = imp_path b"
proof
  show "\<not> imp_less a a" for a by (simp add: imp_less_def lex_less_irrefl)
  show "imp_less a c" if "imp_less a b" "imp_less b c" for a b c
    using that lex_less_trans by (fastforce simp: imp_less_def split: if_splits)
  show "(\<not> imp_less a b \<and> \<not> imp_less b a) = (imp_mtime a = imp_mtime b \<and> imp_path a = imp_path b)" for a b
    using lex_less_total [of "map (of_char :: char \<Rightarrow> nat) (imp_path a)" "map of_char (imp_path b)"]
    by (auto simp: imp_less_def lex_less_irrefl map_of_char_inject)
qed auto

section \<open>Properties\<close>

text \<open>
  The order on fingerprints is a strict weak order whose equivalence is the equality operator
  of the class, so that fingerprints can be keys of \<open>std::map\<close>: irreflexive, transitive, total
  up to equality, and compatible with it.
\<close>

theorem fp_less_strict_weak_order:
  "\<not> fp_less a a \<and> (fp_less a b \<longrightarrow> fp_less b c \<longrightarrow> fp_less a c) \<and>
   (fp_less a b \<or> fp_eq a b \<or> fp_less b a) \<and> (fp_less a b \<longrightarrow> \<not> fp_less b a \<and> \<not> fp_eq a b) \<and>
   (fp_less a b \<longrightarrow> fp_eq b c \<longrightarrow> fp_less a c)"
  using fp_key.irrefl fp_key.trans fp_key.trichotomy fp_key.asym fp_key.less_same fp_key.incomparable
  by metis

definition fp_example :: "CSTYPES \<Rightarrow> off_t \<Rightarrow> tFingerprint" where
  "fp_example t n = \<lparr>fp_size = n, fp_csType = t, fp_csum = replicate MAXCSLEN 0\<rparr>"

theorem fp_less_strict_weak_order_witness:
  "fp_less (fp_example CSTYPE_MD5 5) (fp_example CSTYPE_SHA1 3)"
proof -
  have "fp_less (fp_example CSTYPE_MD5 5) (fp_example CSTYPE_MD5 6)"
    "fp_less (fp_example CSTYPE_MD5 6) (fp_example CSTYPE_SHA1 3)"
    by (simp_all add: fp_less_def fp_example_def less_CSTYPES_def)
  then show ?thesis
    using fp_less_strict_weak_order
      [of "fp_example CSTYPE_MD5 5" "fp_example CSTYPE_MD5 6" "fp_example CSTYPE_SHA1 3"] by blast
qed

lemma CsAsciiToBin_loop_frame:
  "length (snd (CsAsciiToBin_loop a b i n)) = length b \<and>
   drop (i + n) (snd (CsAsciiToBin_loop a b i n)) = drop (i + n) b"
proof (induction n arbitrary: b i)
  case (Suc n)
  let ?b = "b[i := word_of_int (hexval (char_at a (i * 2)) * 16 + hexval (char_at a (i * 2 + 1)))]"
  have "length (snd (CsAsciiToBin_loop a ?b (i + 1) n)) = length ?b"
    "drop (i + 1 + n) (snd (CsAsciiToBin_loop a ?b (i + 1) n)) = drop (i + 1 + n) ?b"
    using Suc.IH [of ?b "i + 1"] by simp_all
  then show ?case by simp
qed simp

lemma GetCSTypeLen_le: "GetCSTypeLen t \<le> MAXCSLEN"
  by (cases t) (simp_all add: MAXCSLEN_def)

lemma GuessCStype_len: "GuessCStype n \<noteq> CSTYPE_INVALID \<Longrightarrow> GetCSTypeLen (GuessCStype n) = n mod 65536"
  by (auto simp: GuessCStype_def Let_def split: if_splits)

text \<open>
  Decoding a checksum never writes outside the 64 byte array: if the type of the fingerprint
  was touched at all, the bytes behind the length of the new type are unchanged, and that length
  fits the array. A length that fits no checksum type leaves the object as it was.
\<close>

theorem SetCs_frame:
  assumes "fp_inv f" and "SetCs hex t f = (ok, f')"
  shows "fp_inv f' \<and> (f' = f \<and> \<not> ok \<or>
    drop (GetCSTypeLen (fp_csType f')) (fp_csum f') = drop (GetCSTypeLen (fp_csType f')) (fp_csum f) \<and>
    GetCSTypeLen (fp_csType f') = length hex div 2 mod 65536 \<and> GetCSTypeLen (fp_csType f') \<le> MAXCSLEN)"
proof (cases "f' = f \<and> \<not> ok")
  case True
  then show ?thesis using assms(1) by simp
next
  case False
  let ?n = "length hex div 2"
  let ?t = "if t = CSTYPE_INVALID then GuessCStype ?n else t"
  have n: "GetCSTypeLen ?t = ?n mod 65536"
  proof (cases "t = CSTYPE_INVALID")
    case True
    then have "GuessCStype ?n \<noteq> CSTYPE_INVALID" using assms(2) False by (auto simp: SetCs_def Let_def split: if_splits)
    then show ?thesis using True GuessCStype_len by simp
  next
    case nt: False
    then have "length hex = 2 * GetCSTypeLen t" using assms(2) False by (auto simp: SetCs_def Let_def split: if_splits)
    then show ?thesis using nt GetCSTypeLen_le [of t] by (simp add: MAXCSLEN_def)
  qed
  have f': "f' = f\<lparr>fp_csType := ?t, fp_csum := snd (CsAsciiToBin hex (fp_csum f) (?n mod 65536))\<rparr>"
    using assms(2) False by (auto simp: SetCs_def Let_def split: if_splits prod.splits)
  show ?thesis
    using assms(1) n GetCSTypeLen_le [of ?t]
      CsAsciiToBin_loop_frame [of hex "fp_csum f" 0 "?n mod 65536"]
    by (simp add: f' fp_inv_def CsAsciiToBin_def)
qed

theorem SetCs_frame_witness:
  "fp_inv (snd (SetCs (replicate 40 (CHR ''a'')) CSTYPE_INVALID (fp_example CSTYPE_INVALID 0)))"
proof -
  have "fp_inv (fp_example CSTYPE_INVALID 0)" by (simp add: fp_inv_def fp_example_def)
  from SetCs_frame [OF this, of "replicate 40 (CHR ''a'')" CSTYPE_INVALID
      "fst (SetCs (replicate 40 (CHR ''a'')) CSTYPE_INVALID (fp_example CSTYPE_INVALID 0))"
      "snd (SetCs (replicate 40 (CHR ''a'')) CSTYPE_INVALID (fp_example CSTYPE_INVALID 0))"]
  show ?thesis by simp
qed

lemma length_BytesToHexString: "length (BytesToHexString b n) = 2 * n"
  by (simp add: BytesToHexString_def length_concat comp_def sum_list_triv)

lemma BytesToHexString_chars: "set (BytesToHexString b n) \<subseteq> set ''0123456789abcdef''"
proof -
  have "h2t_map (unat (drop_bit 4 w)) \<in> set ''0123456789abcdef'' \<and> h2t_map (unat (w AND 15)) \<in> set ''0123456789abcdef''"
    for w :: "8 word"
  proof -
    have "unat w < 256" using unsigned_less [of w] by simp
    then have "unat (drop_bit 4 w) < 16" "unat (w AND 15) < 16" unfolding unat_nibbles by simp_all
    then show ?thesis unfolding h2t_map_def by (intro conjI nth_mem) simp_all
  qed
  then show ?thesis by (auto simp: BytesToHexString_def)
qed

lemma SetCs_print:
  assumes "fp_inv f" "fp_csType f \<noteq> CSTYPE_INVALID" "fp_inv g" "t = CSTYPE_INVALID \<or> t = fp_csType f"
  shows "\<exists>b. SetCs (GetCsAsString f) t g = (True, g\<lparr>fp_csType := fp_csType f, fp_csum := b\<rparr>) \<and> length b = MAXCSLEN \<and>
    take (GetCSTypeLen (fp_csType f)) b = take (GetCSTypeLen (fp_csType f)) (fp_csum f)"
proof -
  let ?n = "GetCSTypeLen (fp_csType f)"
  have le: "?n \<le> 64" "0 < ?n" using assms(2) by (cases "fp_csType f"; simp)+
  have g: "GuessCStype ?n = fp_csType f" using assms(2) by (cases "fp_csType f") (simp_all add: GuessCStype_def)
  have l: "length (GetCsAsString f) = 2 * ?n" by (simp add: GetCsAsString_def length_BytesToHexString)
  have c: "CsAsciiToBin (GetCsAsString f) (fp_csum g) ?n = (True, take ?n (fp_csum f) @ drop ?n (fp_csum g))"
    using CsAsciiToBin_loop_hex [of 0 ?n ?n "fp_csum g" "fp_csum f"] assms(1,3) le
    by (simp add: GetCsAsString_def CsAsciiToBin_def fp_inv_def MAXCSLEN_def)
  show ?thesis
    using assms le g l c by (auto simp: SetCs_def Let_def fp_inv_def MAXCSLEN_def)
qed

lemma Next_word:
  assumes "drop (sw_slice_len w) (sw_input w) = ws @ t @ rest" "set ws \<subseteq> set (sw_seps w)" "t \<noteq> []"
    "set t \<inter> set (sw_seps w) = {}" "rest = [] \<or> hd rest \<in> set (sw_seps w)"
  shows "Next False False w = (True, w\<lparr>sw_input := t @ rest, sw_slice_len := length t\<rparr>)"
proof -
  have ne: "length (sw_input w) \<noteq> sw_slice_len w" using assms(1,3) by auto
  have "dropWhile (\<lambda>c. c \<in> set (sw_seps w)) (ws @ t @ rest) = dropWhile (\<lambda>c. c \<in> set (sw_seps w)) (t @ rest)"
    using assms(2) by (intro dropWhile_append2) auto
  also have "\<dots> = t @ rest" using assms(3,4) by (cases t) auto
  finally have tf: "trimFront (drop (sw_slice_len w) (sw_input w)) (sw_seps w) = t @ rest"
    by (simp add: assms(1) trimFront_dropWhile)
  have "takeWhile (\<lambda>c. c \<notin> set (sw_seps w)) (t @ rest) = t"
    using assms(4,5) by (subst takeWhile_append2) (auto, cases rest, auto)
  then have "(case find_first_of (t @ rest) (sw_seps w) of None \<Rightarrow> length (t @ rest) | Some i \<Rightarrow> i) = length t"
    using find_first_of_takeWhile [of "t @ rest" "sw_seps w"] by simp
  then show ?thesis unfolding Next_def Let_def tf using ne assms(3) by simp
qed

text \<open>
  A fingerprint written the way index files have it, checksum and size separated by a blank,
  is read back as an equal fingerprint, whether the checksum type is given or guessed from the
  length.
\<close>

theorem fp_text_roundtrip:
  assumes "fp_inv f" "fp_csType f \<noteq> CSTYPE_INVALID" "0 \<le> fp_size f" "fp_size f < 2 ^ 63" "fp_inv g"
    and "t = CSTYPE_INVALID \<or> t = fp_csType f"
  shows "\<exists>g'. fp_Set (split_walk_init (GetCsAsString f @ '' '' @ offttos (fp_size f)) SPACECHARS) t g = (True, g') \<and>
    fp_eq g' f \<and> fp_inv g'"
proof -
  let ?h = "GetCsAsString f" and ?s = "nat_str (nat (fp_size f))"
  have os: "offttos (fp_size f) = ?s" using assms(3) by (simp add: offttos_def int_str_def)
  have hs: "set ?h \<inter> set SPACECHARS = {}"
    using BytesToHexString_chars [of "fp_csum f" "GetCSTypeLen (fp_csType f)"]
    by (auto simp: GetCsAsString_def SPACECHARS_def)
  have ss: "set ?s \<inter> set SPACECHARS = {}"
    using nat_str_digits [of "nat (fp_size f)"] by (auto simp: SPACECHARS_def isdigit_def)
  have "0 < GetCSTypeLen (fp_csType f)" using assms(2) by (cases "fp_csType f") simp_all
  then have hne: "?h \<noteq> []" using length_BytesToHexString [of "fp_csum f" "GetCSTypeLen (fp_csType f)"]
    by (auto simp: GetCsAsString_def)
  let ?w0 = "split_walk_init (?h @ '' '' @ ?s) SPACECHARS"
  let ?w1 = "?w0\<lparr>sw_input := ?h @ '' '' @ ?s, sw_slice_len := length ?h\<rparr>"
  have n1: "Next False False ?w0 = (True, ?w1)"
    using Next_word [of ?w0 "[]" ?h "'' '' @ ?s"] hs hne by (simp add: split_walk_init_def SPACECHARS_def)
  have n2: "Next False False ?w1 = (True, ?w1\<lparr>sw_input := ?s, sw_slice_len := length ?s\<rparr>)"
    using Next_word [of ?w1 "'' ''" ?s "[]"] ss by (simp add: split_walk_init_def SPACECHARS_def)
  obtain b where b: "SetCs ?h t g = (True, g\<lparr>fp_csType := fp_csType f, fp_csum := b\<rparr>)" "length b = MAXCSLEN"
    "take (GetCSTypeLen (fp_csType f)) b = take (GetCSTypeLen (fp_csType f)) (fp_csum f)"
    using SetCs_print [OF assms(1,2,5,6)] by blast
  have a: "atoll ?s = fp_size f"
    using atoll_nat_str [of "nat (fp_size f)"] assms(3,4) by (simp add: nat_less_iff)
  have "fp_Set ?w0 t g = (True, g\<lparr>fp_csType := fp_csType f, fp_csum := b, fp_size := fp_size f\<rparr>)"
    unfolding fp_Set_def n1 using n2 b(1) a assms(3)
    by (simp add: sw_view_def split_walk_init_def atoofft_def Let_def)
  then show ?thesis using b(2,3) unfolding os by (simp add: fp_eq_def csEquals_def fp_inv_def)
qed

theorem fp_text_roundtrip_witness:
  "\<exists>g'. fp_Set (split_walk_init (GetCsAsString (fp_example CSTYPE_SHA256 77) @ '' '' @
       offttos (fp_size (fp_example CSTYPE_SHA256 77))) SPACECHARS) CSTYPE_INVALID (fp_example CSTYPE_INVALID 0) = (True, g') \<and>
     fp_eq g' (fp_example CSTYPE_SHA256 77) \<and> fp_inv g'"
  by (rule fp_text_roundtrip) (simp_all add: fp_example_def fp_inv_def)



end
