(* ===== verification/FileItem.thy ===== *)
theory FileItem
  imports HttpDate
begin

text \<open>
  \<open>src/fileitem.h\<close> and \<open>src/fileitem.cc\<close>: the item that describes one cached file during its
  use, with its life cycle, its storage on disk and its destruction.

  The file system is a map from absolute paths to contents. The output descriptor of an item is
  represented by its write position: after \<open>SafeOpenOutFile\<close> it always refers to the file at the
  path of the item, since \<open>replace_file\<close> renames the new file there. What system calls report is
  an argument of the operations (\<open>open_env\<close>, the list of \<open>write\<close> results); the temporary files
  of \<open>replace_file\<close> have random names and are not tracked. Locking and waiting are not part of
  the model: every operation runs under the lock of the item.
\<close>

section \<open>Data\<close>

datatype FiStatus = FIST_FRESH | FIST_INITED | FIST_DLPENDING | FIST_DLGOTHEAD | FIST_DLRECEIVING
  | FIST_COMPLETE | FIST_DLERROR | FIST_DLSTOP

fun fist_num :: "FiStatus \<Rightarrow> nat" where
  "fist_num FIST_FRESH = 0"
| "fist_num FIST_INITED = 1"
| "fist_num FIST_DLPENDING = 2"
| "fist_num FIST_DLGOTHEAD = 3"
| "fist_num FIST_DLRECEIVING = 4"
| "fist_num FIST_COMPLETE = 5"
| "fist_num FIST_DLERROR = 6"
| "fist_num FIST_DLSTOP = 7"

instantiation FiStatus :: linorder
begin

definition less_eq_FiStatus :: "FiStatus \<Rightarrow> FiStatus \<Rightarrow> bool" where
  "less_eq_FiStatus a b \<longleftrightarrow> fist_num a \<le> fist_num b"

definition less_FiStatus :: "FiStatus \<Rightarrow> FiStatus \<Rightarrow> bool" where
  "less_FiStatus a b \<longleftrightarrow> fist_num a < fist_num b"

instance
proof
  fix a b :: FiStatus
  show "a \<le> b \<Longrightarrow> b \<le> a \<Longrightarrow> a = b" by (cases a; cases b; simp add: less_eq_FiStatus_def)
qed (auto simp: less_eq_FiStatus_def less_FiStatus_def)

end

datatype EDestroyMode = KEEP | DELETE_KEEP_HEAD | TRUNCATE | ABANDONED | DELETE

fun destroy_num :: "EDestroyMode \<Rightarrow> nat" where
  "destroy_num KEEP = 0"
| "destroy_num DELETE_KEEP_HEAD = 1"
| "destroy_num TRUNCATE = 2"
| "destroy_num ABANDONED = 3"
| "destroy_num DELETE = 4"

instantiation EDestroyMode :: linorder
begin

definition less_eq_EDestroyMode :: "EDestroyMode \<Rightarrow> EDestroyMode \<Rightarrow> bool" where
  "less_eq_EDestroyMode a b \<longleftrightarrow> destroy_num a \<le> destroy_num b"

definition less_EDestroyMode :: "EDestroyMode \<Rightarrow> EDestroyMode \<Rightarrow> bool" where
  "less_EDestroyMode a b \<longleftrightarrow> destroy_num a < destroy_num b"

instance
proof
  fix a b :: EDestroyMode
  show "a \<le> b \<Longrightarrow> b \<le> a \<Longrightarrow> a = b" by (cases a; cases b; simp add: less_eq_EDestroyMode_def)
qed (auto simp: less_eq_EDestroyMode_def less_EDestroyMode_def)

end

record tSpecialPurposeAttr =
  spa_bVolatile :: bool
  spa_bHeadOnly :: bool
  spa_bNoStore :: bool
  spa_nRangeLimit :: off_t
  spa_credentials :: string

definition spattr_default :: tSpecialPurposeAttr where
  "spattr_default = \<lparr>spa_bVolatile = False, spa_bHeadOnly = False, spa_bNoStore = False,
     spa_nRangeLimit = -1, spa_credentials = []\<rparr>"

record fileitem =
  fi_pathRel :: string
  fi_status :: FiStatus
  fi_sizeChecked :: off_t
  fi_sizeCachedInitial :: off_t
  fi_contentLength :: off_t
  fi_responseStatus :: tRemoteStatus
  fi_responseOrigin :: string
  fi_responseModDate :: tHttpDate
  fi_bPreallocated :: bool
  fi_bWriterMustReplaceFile :: bool
  fi_bCreateItemMustDisplace :: bool
  fi_nDlRefsCount :: "32 word"
  fi_spattr :: tSpecialPurposeAttr
  fi_usercount :: int
  fi_eDestroy :: EDestroyMode
  fi_nTimeDlStarted :: time_t
  fi_nIncommingCount :: "64 word"
  fi_filefd :: "nat option"

definition fileitem_new :: "string \<Rightarrow> fileitem" where
  "fileitem_new p =
     \<lparr>fi_pathRel = p, fi_status = FIST_FRESH, fi_sizeChecked = -1, fi_sizeCachedInitial = -1,
      fi_contentLength = -1, fi_responseStatus = \<lparr>st_code = 500, st_msg = []\<rparr>,
      fi_responseOrigin = [], fi_responseModDate = date_unset, fi_bPreallocated = False,
      fi_bWriterMustReplaceFile = False, fi_bCreateItemMustDisplace = False, fi_nDlRefsCount = 0,
      fi_spattr = spattr_default, fi_usercount = 0, fi_eDestroy = KEEP, fi_nTimeDlStarted = 0,
      fi_nIncommingCount = 0, fi_filefd = None\<rparr>"

type_synonym fsys = "string \<Rightarrow> string option"

definition abs_path :: "string \<Rightarrow> fileitem \<Rightarrow> string" where
  "abs_path base fi = base @ fi_pathRel fi"

definition head_path :: "string \<Rightarrow> fileitem \<Rightarrow> string" where
  "head_path base fi = base @ fi_pathRel fi @ ''.head''"

definition GetFileSize :: "fsys \<Rightarrow> string \<Rightarrow> off_t \<Rightarrow> off_t" where
  "GetFileSize fs path defret = (case fs path of Some c \<Rightarrow> int (length c) | None \<Rightarrow> defret)"

section \<open>Errors and reference counts\<close>

definition DlSetError :: "tRemoteStatus \<Rightarrow> EDestroyMode \<Rightarrow> fileitem \<Rightarrow> fileitem" where
  "DlSetError errState kmode fi =
     fi\<lparr>fi_responseStatus := errState, fi_status := FIST_DLERROR,
        fi_eDestroy := (if kmode < fi_eDestroy fi then kmode else fi_eDestroy fi)\<rparr>"

definition MarkFaulty :: "bool \<Rightarrow> fileitem \<Rightarrow> fileitem" where
  "MarkFaulty killFile fi =
     DlSetError \<lparr>st_code = 500, st_msg = ''Bad Cache Item''\<rparr> (if killFile then DELETE else TRUNCATE) fi"

definition withError :: "fileitem \<Rightarrow> fileitem" where
  "withError fi = DlSetError \<lparr>st_code = 500, st_msg = ''Cache Error, check apt-cacher.err''\<rparr> KEEP fi"

definition DlRefCountAdd :: "fileitem \<Rightarrow> fileitem" where
  "DlRefCountAdd fi = fi\<lparr>fi_nDlRefsCount := fi_nDlRefsCount fi + 1\<rparr>"

definition DlRefCountDec :: "tRemoteStatus \<Rightarrow> fileitem \<Rightarrow> fileitem" where
  "DlRefCountDec reason fi =
     (let fi2 = fi\<lparr>fi_nDlRefsCount := fi_nDlRefsCount fi - 1\<rparr> in
      if fi_nDlRefsCount fi2 > 0 then fi2
      else if fi_status fi2 < FIST_COMPLETE then DlSetError reason (fi_eDestroy fi2) fi2
      else fi2)"

definition TakeTransferCount :: "fileitem \<Rightarrow> 64 word \<times> fileitem" where
  "TakeTransferCount fi = (fi_nIncommingCount fi, fi\<lparr>fi_nIncommingCount := 0\<rparr>)"

section \<open>Setup from the stored state\<close>

definition error_clean :: "fileitem \<Rightarrow> fileitem" where
  "error_clean fi =
     fi\<lparr>fi_sizeCachedInitial := -1, fi_sizeChecked := -1, fi_contentLength := -1,
        fi_bWriterMustReplaceFile := True, fi_status := FIST_INITED\<rparr>"

text \<open>What \<open>ParseHeadFromStorage\<close> stores through its pointers.\<close>

definition apply_head :: "head_data \<Rightarrow> fileitem \<Rightarrow> fileitem" where
  "apply_head d fi =
     fi\<lparr>fi_contentLength := (case hdat_len d of Some n \<Rightarrow> n | None \<Rightarrow> fi_contentLength fi),
        fi_responseModDate := (case hdat_mod d of Some m \<Rightarrow> m | None \<Rightarrow> fi_responseModDate fi),
        fi_responseOrigin := (case hdat_src d of Some s \<Rightarrow> s | None \<Rightarrow> fi_responseOrigin fi)\<rparr>"

definition Setup :: "string \<Rightarrow> fsys \<Rightarrow> fileitem \<Rightarrow> fileitem" where
  "Setup base fs fi =
     (if fi_status fi > FIST_FRESH then fi
      else
        let fi1 = fi\<lparr>fi_status := FIST_INITED,
                     fi_sizeCachedInitial := GetFileSize fs (abs_path base fi) (-1),
                     fi_sizeChecked := -1\<rparr>;
            (ok, d) = ParseHeadFromStorage (fs (head_path base fi));
            fi2 = apply_head d fi1
        in if \<not> ok then error_clean fi2
           else
             let fi3 = fi2\<lparr>fi_responseStatus := \<lparr>st_code = 200, st_msg = ''OK''\<rparr>\<rparr>;
                 vol = fi3\<lparr>fi_spattr := (fi_spattr fi3)\<lparr>spa_bVolatile := True\<rparr>\<rparr>
             in if spa_bVolatile (fi_spattr fi3) then fi3
                else if spa_bHeadOnly (fi_spattr fi3) then fi3\<lparr>fi_status := FIST_DLGOTHEAD\<rparr>
                else if fi_contentLength fi3 \<ge> 0 then
                  (if fi_contentLength fi3 < fi_sizeCachedInitial fi3 then error_clean fi3
                   else if fi_sizeCachedInitial fi3 = fi_contentLength fi3
                   then fi3\<lparr>fi_sizeChecked := fi_sizeCachedInitial fi3, fi_status := FIST_COMPLETE\<rparr>
                   else vol)
                else vol)"

section \<open>Download operations\<close>

text \<open>\<open>head_ok\<close>: the write of the head file succeeds; otherwise nothing is stored and \<open>dumpall\<close> returns -1.\<close>

definition SaveHeader :: "string \<Rightarrow> bool \<Rightarrow> bool \<Rightarrow> fileitem \<Rightarrow> fsys \<Rightarrow> bool \<times> fsys" where
  "SaveHeader base head_ok truncatedKeepOnlyOrigInfo fi fs =
     (let (len, md) = (if truncatedKeepOnlyOrigInfo then (-1, date_unset)
                       else (fi_contentLength fi, fi_responseModDate fi));
          t = head_text len md (fi_responseOrigin fi);
          (r, w) = StoreHeadToStorage (head_path base fi) len md (fi_responseOrigin fi)
                     (if head_ok then int (length t) else -1)
      in (r, if head_ok \<and> w \<noteq> None then fs(head_path base fi := w) else fs))"

definition DlStarted ::
  "(tm \<Rightarrow> time_t) \<Rightarrow> nat \<Rightarrow> tHttpDate \<Rightarrow> string \<Rightarrow> tRemoteStatus \<Rightarrow> off_t \<Rightarrow> off_t \<Rightarrow> fileitem \<Rightarrow> bool \<times> fileitem" where
  "DlStarted mk rawLen modDate origin status bytes2seek bytesAnnounced fi =
     (let fi1 = fi\<lparr>fi_nIncommingCount := fi_nIncommingCount fi + of_nat rawLen\<rparr>;
          bad = fi_status fi1 \<ge> FIST_DLGOTHEAD \<and>
                (fi_contentLength fi1 \<noteq> bytesAnnounced \<and> fi_contentLength fi1 \<noteq> -1 \<or>
                 \<not> date_eq mk (fi_responseModDate fi1) modDate \<or>
                 bytes2seek > fi_sizeChecked fi1);
          fi2 = (if fi_status fi1 \<ge> FIST_DLGOTHEAD then fi1 else fi1\<lparr>fi_contentLength := -1\<rparr>);
          fi3 = fi2\<lparr>fi_status := FIST_DLGOTHEAD\<rparr>
      in if bad then (False, fi1)
         else if bytes2seek \<ge> 0 \<and> fi_sizeChecked fi3 \<ge> 0 \<and> bytes2seek < fi_sizeChecked fi3 then (False, fi3)
         else
           (True, fi3\<lparr>fi_sizeChecked := (if bytes2seek \<ge> 0 then bytes2seek else fi_sizeChecked fi3),
                      fi_responseStatus := status, fi_responseOrigin := origin,
                      fi_responseModDate := modDate, fi_contentLength := bytesAnnounced\<rparr>))"

text \<open>
  Outcomes of the system calls of one run of \<open>replace_file\<close>: creating the temporary file, moving
  the old file away, renaming the new one. Moving a file that does not exist reports \<open>ENOENT\<close>.
\<close>

record rep_env =
  re_create :: bool
  re_move :: bool
  re_rename :: bool

definition replace_file :: "string \<Rightarrow> rep_env \<Rightarrow> fileitem \<Rightarrow> fsys \<Rightarrow> bool \<times> fileitem \<times> fsys" where
  "replace_file path re fi fs =
     (let fi1 = fi\<lparr>fi_filefd := None, fi_bWriterMustReplaceFile := False\<rparr>;
          didNotExist = (fs path = None)
      in if \<not> re_create re then (False, withError fi1, fs)
         else if \<not> didNotExist \<and> \<not> re_move re then (False, withError fi1, fs)
         else if \<not> re_rename re then (False, withError fi1, fs(path := None))
         else (True, fi1\<lparr>fi_filefd := Some 0\<rparr>, fs(path := Some [])))"

record open_env =
  oe_rep1 :: rep_env
  oe_rep2 :: rep_env
  oe_rep3 :: rep_env
  oe_open :: bool
  oe_seek :: bool
  oe_head :: bool
  oe_ino :: nat
  oe_mtime :: "nat \<times> nat"

definition side_path :: "string \<Rightarrow> open_env \<Rightarrow> fileitem \<Rightarrow> string" where
  "side_path base oe fi =
     base @ ''_xstore/rsnap'' @ ''/'' @ GetDirPart (fi_pathRel fi) @
     ltos (int (oe_ino oe)) @ ltos (int (fst (oe_mtime oe))) @ ltos (int (snd (oe_mtime oe)))"

definition MoveRelease2Sidestore :: "string \<Rightarrow> open_env \<Rightarrow> fileitem \<Rightarrow> fsys \<Rightarrow> fsys" where
  "MoveRelease2Sidestore base oe fi fs =
     (if fi_sizeChecked fi \<noteq> 0 then fs
      else if \<not> endsWith (fi_pathRel fi) ''/InRelease'' \<and> \<not> endsWith (fi_pathRel fi) ''/Release'' then fs
      else (case fs (abs_path base fi) of
              None \<Rightarrow> fs
            | Some c \<Rightarrow> fs(side_path base oe fi := Some c)))"

text \<open>The part of \<open>SafeOpenOutFile\<close> behind the seek to the end, \<open>n\<close> being the size on disk.\<close>

definition open_finish ::
  "string \<Rightarrow> int \<Rightarrow> open_env \<Rightarrow> int \<Rightarrow> fileitem \<Rightarrow> fsys \<Rightarrow> bool \<times> fileitem \<times> fsys" where
  "open_finish base allocspace oe n fi fs =
     (let fi1 = fi\<lparr>fi_sizeChecked := (if fi_sizeChecked fi < 0 then 0 else fi_sizeChecked fi)\<rparr>;
          fi2 = fi1\<lparr>fi_filefd := Some (nat (fi_sizeChecked fi1))\<rparr>
      in if fi_sizeChecked fi2 > n then (False, withError fi2, fs)
         else (case SaveHeader base (oe_head oe) False fi2 fs of
                 (False, fs2) \<Rightarrow> (False, withError fi2, fs2)
               | (True, fs2) \<Rightarrow>
                   (True,
                    fi2\<lparr>fi_status := FIST_DLRECEIVING,
                        fi_bPreallocated := (fi_bPreallocated fi2 \<or>
                          allocspace > 0 \<and> fi_contentLength fi2 > 0 \<and>
                          min (fi_contentLength fi2 - fi_sizeChecked fi2) allocspace > 0)\<rparr>, fs2)))"

definition open_or_replace :: "string \<Rightarrow> open_env \<Rightarrow> fileitem \<Rightarrow> fsys \<Rightarrow> bool \<times> fileitem \<times> fsys" where
  "open_or_replace path oe fi fs =
     (let (ok, fi1, fs1) =
            (if fi_bWriterMustReplaceFile fi \<or> fi_contentLength fi < 0
             then replace_file path (oe_rep1 oe) fi fs else (True, fi, fs))
      in if \<not> ok then (False, fi1, fs1)
         else
           let (fi2, fs2) =
                 (if fi_filefd fi1 = None \<and> oe_open oe
                  then (fi1\<lparr>fi_filefd := Some 0\<rparr>, if fs1 path = None then fs1(path := Some []) else fs1)
                  else (fi1, fs1))
           in if fi_filefd fi2 = None then replace_file path (oe_rep2 oe) fi2 fs2 else (True, fi2, fs2))"

definition SafeOpenOutFile :: "string \<Rightarrow> int \<Rightarrow> open_env \<Rightarrow> fileitem \<Rightarrow> fsys \<Rightarrow> bool \<times> fileitem \<times> fsys" where
  "SafeOpenOutFile base allocspace oe fi fs =
     (let fi0 = fi\<lparr>fi_filefd := None\<rparr> in
      if spa_bNoStore (fi_spattr fi0) then (False, fi0, fs)
      else
        let fs0 = MoveRelease2Sidestore base oe fi0 fs;
            path = abs_path base fi0;
            (ok, fi2, fs2) = open_or_replace path oe fi0 fs0
        in if \<not> ok then (False, fi2, fs2)
           else if \<not> oe_seek oe then (False, withError fi2, fs2)
           else
             let n = int (length (the (fs2 path))) in
             if n > fi_contentLength fi2 then
               (case replace_file path (oe_rep3 oe) fi2 fs2 of
                  (False, fi3, fs3) \<Rightarrow> (False, fi3, fs3)
                | (True, fi3, fs3) \<Rightarrow> open_finish base allocspace oe 0 fi3 fs3)
             else open_finish base allocspace oe n fi2 fs2)"

text \<open>\<open>write\<close> at a position of a file, filling a gap with NUL bytes.\<close>

definition file_write :: "nat \<Rightarrow> string \<Rightarrow> string \<Rightarrow> string" where
  "file_write pos d c = take pos c @ replicate (pos - length c) (CHR 0x00) @ d @ drop (pos + length d) c"

text \<open>
  The results of the \<open>write\<close> calls: \<open>Inr n\<close> for \<open>n\<close> bytes accepted, \<open>Inl True\<close> for \<open>EINTR\<close> and
  \<open>EAGAIN\<close>, \<open>Inl False\<close> for other errors. In the second case the code continues with \<open>r = -1\<close> and
  calls \<open>remove_prefix(-1)\<close>, which is undefined: \<open>AddUndefined\<close>. \<open>AddBlocked\<close> means that the
  list of results ended before the loop did.
\<close>

datatype add_result = AddRet bool fileitem fsys | AddUndefined | AddBlocked

fun write_loop :: "string \<Rightarrow> (bool + nat) list \<Rightarrow> string \<Rightarrow> fileitem \<Rightarrow> fsys \<Rightarrow> add_result" where
  "write_loop path ws [] fi fs = AddRet True fi fs"
| "write_loop path [] (c # cs) fi fs = AddBlocked"
| "write_loop path (Inl True # ws) (c # cs) fi fs = AddUndefined"
| "write_loop path (Inl False # ws) (c # cs) fi fs = AddRet False (withError fi) fs"
| "write_loop path (Inr n # ws) (c # cs) fi fs =
     (let k = min n (length (c # cs)); pos = the (fi_filefd fi) in
      write_loop path ws (drop k (c # cs))
        (fi\<lparr>fi_sizeChecked := fi_sizeChecked fi + int k, fi_filefd := Some (pos + k)\<rparr>)
        (fs(path := Some (file_write pos (take k (c # cs)) (the (fs path))))))"

definition DlAddData ::
  "string \<Rightarrow> int \<Rightarrow> open_env \<Rightarrow> (bool + nat) list \<Rightarrow> string \<Rightarrow> fileitem \<Rightarrow> fsys \<Rightarrow> add_result" where
  "DlAddData base allocspace oe ws chunk fi fs =
     (let fi1 = fi\<lparr>fi_nIncommingCount := fi_nIncommingCount fi + of_nat (length chunk)\<rparr>;
          (ok, fi2, fs2) = (if fi_filefd fi1 = None then SafeOpenOutFile base allocspace oe fi1 fs
                            else (True, fi1, fs))
      in if \<not> ok then AddRet False fi2 fs2
         else if fi_filefd fi2 = None \<or> fi_status fi2 < FIST_DLGOTHEAD then AddRet False (withError fi2) fs2
         else if fi_status fi2 > FIST_COMPLETE then AddRet False fi2 fs2
         else write_loop (abs_path base fi2) ws chunk fi2 fs2)"

definition DlFinish :: "string \<Rightarrow> bool \<Rightarrow> bool \<Rightarrow> fileitem \<Rightarrow> fsys \<Rightarrow> fileitem \<times> fsys" where
  "DlFinish base head_ok forceUpdateHeader fi fs =
     (if spa_bNoStore (fi_spattr fi) then (fi, fs)
      else if fi_status fi > FIST_COMPLETE then (fi, fs)
      else
        let fi1 = fi\<lparr>fi_status := FIST_COMPLETE\<rparr> in
        if fi_contentLength fi1 < 0 \<or> forceUpdateHeader then
          let fi2 = (if fi_contentLength fi1 < 0 then fi1\<lparr>fi_contentLength := fi_sizeChecked fi1\<rparr> else fi1)
          in (fi2, if fi_eDestroy fi2 = KEEP then snd (SaveHeader base head_ok False fi2 fs) else fs)
        else (fi1, fs))"

section \<open>Destruction\<close>

text \<open>
  The local path variables of the destructor are filled by \<open>calcPath\<close>, which the \<open>KEEP\<close> branch
  does not call: it works on the empty path, which names no file, and changes nothing.
\<close>

definition fileitem_dtor :: "string \<Rightarrow> bool \<Rightarrow> bool \<Rightarrow> fileitem \<Rightarrow> fsys \<Rightarrow> fsys" where
  "fileitem_dtor base trunc_ok head_ok fi fs =
     (if spa_bNoStore (fi_spattr fi) then fs
      else if fi_pathRel fi = [] then fs
      else
        let p = abs_path base fi; hp = head_path base fi in
        case fi_eDestroy fi of
          KEEP \<Rightarrow> fs
        | TRUNCATE \<Rightarrow>
            let fs1 = (if trunc_ok \<and> fs p \<noteq> None then fs(p := Some []) else fs(p := None))
            in snd (SaveHeader base head_ok True fi fs1)
        | ABANDONED \<Rightarrow> fs(p := None)
        | DELETE \<Rightarrow> fs(p := None, hp := None)
        | DELETE_KEEP_HEAD \<Rightarrow> snd (SaveHeader base head_ok True fi (fs(p := None))))"

definition NormalizePath :: "bool \<Rightarrow> string \<Rightarrow> string" where
  "NormalizePath stupidfs sPathRaw = (if stupidfs then DosEscape sPathRaw else sPathRaw)"

section \<open>The life cycle as a step relation\<close>

text \<open>
  The operations in the order in which the downloader, the maintenance code and the users of an
  item may call them. \<open>DlStarted\<close> is only called by \<open>tDlJob::CheckAndSaveHeader\<close>, which refuses
  items that are complete or failed.
\<close>

inductive fi_step :: "string \<Rightarrow> (tm \<Rightarrow> time_t) \<Rightarrow> int \<Rightarrow> fileitem \<times> fsys \<Rightarrow> fileitem \<times> fsys \<Rightarrow> bool"
  for base mk asp where
  fs_setup: "fi_step base mk asp (fi, fs) (Setup base fs fi, fs)"
| fs_started: "fi_status fi < FIST_COMPLETE \<Longrightarrow> DlStarted mk n md org st seek ann fi = (ok, fi') \<Longrightarrow>
    fi_step base mk asp (fi, fs) (fi', fs)"
| fs_add: "DlAddData base asp oe ws chunk fi fs = AddRet ok fi' fs' \<Longrightarrow> fi_step base mk asp (fi, fs) (fi', fs')"
| fs_finish: "DlFinish base hok force fi fs = (fi', fs') \<Longrightarrow> fi_step base mk asp (fi, fs) (fi', fs')"
| fs_error: "fi_step base mk asp (fi, fs) (DlSetError e k fi, fs)"
| fs_faulty: "fi_step base mk asp (fi, fs) (MarkFaulty kill fi, fs)"
| fs_ref_add: "fi_step base mk asp (fi, fs) (DlRefCountAdd fi, fs)"
| fs_ref_dec: "fi_step base mk asp (fi, fs) (DlRefCountDec e fi, fs)"
| fs_count: "fi_step base mk asp (fi, fs) (snd (TakeTransferCount fi), fs)"

definition fi_reach :: "string \<Rightarrow> (tm \<Rightarrow> time_t) \<Rightarrow> int \<Rightarrow> string \<Rightarrow> fsys \<Rightarrow> fileitem \<times> fsys \<Rightarrow> bool" where
  "fi_reach base mk asp p fs0 s \<longleftrightarrow> (fi_step base mk asp)\<^sup>*\<^sup>* (fileitem_new p, fs0) s"

definition on_disk :: "string \<Rightarrow> nat \<Rightarrow> fileitem \<Rightarrow> fsys \<Rightarrow> bool" where
  "on_disk base off fi fs \<longleftrightarrow>
     int off = fi_sizeChecked fi \<and> (\<exists>c. fs (abs_path base fi) = Some c \<and> off \<le> length c)"

definition fi_inv :: "string \<Rightarrow> fileitem \<times> fsys \<Rightarrow> bool" where
  "fi_inv base = (\<lambda>(fi, fs).
     (\<forall>off. fi_filefd fi = Some off \<and> fi_status fi \<le> FIST_COMPLETE \<longrightarrow> on_disk base off fi fs) \<and>
     (fi_status fi = FIST_DLRECEIVING \<longrightarrow> fi_filefd fi \<noteq> None) \<and>
     (fi_status fi < FIST_DLGOTHEAD \<longrightarrow> fi_filefd fi = None) \<and>
     fi_eDestroy fi = KEEP)"

lemmas fi_ord = less_FiStatus_def less_eq_FiStatus_def

lemma destroy_KEEP_min [simp]: "\<not> k < KEEP"
  by (simp add: less_EDestroyMode_def)

lemma path_simps [simp]:
  "fi_pathRel (withError fi) = fi_pathRel fi" "fi_status (withError fi) = FIST_DLERROR"
  "fi_filefd (withError fi) = fi_filefd fi" "fi_sizeChecked (withError fi) = fi_sizeChecked fi"
  "fi_spattr (withError fi) = fi_spattr fi" "fi_contentLength (withError fi) = fi_contentLength fi"
  by (simp_all add: withError_def DlSetError_def)

lemma withError_KEEP [simp]: "fi_eDestroy fi = KEEP \<Longrightarrow> fi_eDestroy (withError fi) = KEEP"
  by (simp add: withError_def DlSetError_def)

lemma head_path_neq [simp]: "head_path base fi \<noteq> abs_path base fi'" if "fi_pathRel fi = fi_pathRel fi'"
  using that by (simp add: head_path_def abs_path_def)

lemma SaveHeader_other:
  "SaveHeader base hok tr fi fs = (r, fs') \<Longrightarrow> fi_pathRel fi = fi_pathRel fi' \<Longrightarrow>
     fs' (abs_path base fi') = fs (abs_path base fi')"
  by (auto simp: SaveHeader_def Let_def split: prod.splits if_splits) (metis head_path_neq)+

lemma fi_inv_DlSetError: "fi_inv base (fi, fs) \<Longrightarrow> fi_inv base (DlSetError e k fi, fs)"
  by (auto simp: fi_inv_def DlSetError_def fi_ord)

lemma Setup_fields:
  "fi_pathRel (Setup base fs fi) = fi_pathRel fi" "fi_filefd (Setup base fs fi) = fi_filefd fi"
  "fi_eDestroy (Setup base fs fi) = fi_eDestroy fi"
  by (auto simp: Setup_def error_clean_def apply_head_def Let_def split: prod.splits)

lemma Setup_not_receiving: "fi_status fi = FIST_FRESH \<Longrightarrow> fi_status (Setup base fs fi) \<noteq> FIST_DLRECEIVING"
  by (auto simp: Setup_def error_clean_def apply_head_def Let_def fi_ord split: prod.splits)

lemma fi_inv_Setup: "fi_inv base (fi, fs) \<Longrightarrow> fi_inv base (Setup base fs fi, fs)"
proof (cases "fi_status fi > FIST_FRESH")
  case True
  then have "Setup base fs fi = fi" by (simp add: Setup_def)
  moreover assume "fi_inv base (fi, fs)"
  ultimately show ?thesis by simp
next
  case False
  then have f: "fi_status fi = FIST_FRESH" by (cases "fi_status fi") (simp_all add: fi_ord)
  moreover assume "fi_inv base (fi, fs)"
  ultimately have "fi_filefd fi = None" "fi_eDestroy fi = KEEP" by (simp_all add: fi_inv_def fi_ord)
  then show ?thesis using Setup_not_receiving [OF f] by (simp add: fi_inv_def Setup_fields)
qed

lemma fi_inv_DlStarted:
  assumes "fi_inv base (fi, fs)" "fi_status fi < FIST_COMPLETE" "DlStarted mk n md org st seek ann fi = (ok, fi')"
  shows "fi_inv base (fi', fs)"
proof (cases "fi_status fi \<ge> FIST_DLGOTHEAD")
  case True
  then show ?thesis
    using assms by (auto simp: DlStarted_def fi_inv_def on_disk_def abs_path_def Let_def fi_ord split: if_splits)
next
  case False
  then have "fi_filefd fi = None" using assms(1) by (simp add: fi_inv_def)
  then show ?thesis
    using assms False by (auto simp: DlStarted_def fi_inv_def Let_def fi_ord split: if_splits)
qed


lemma replace_file_spec:
  assumes "replace_file path re fi fs = (ok, fi', fs')"
  shows "fi_pathRel fi' = fi_pathRel fi \<and> fi_spattr fi' = fi_spattr fi \<and> fi_sizeChecked fi' = fi_sizeChecked fi \<and>
    fi_contentLength fi' = fi_contentLength fi \<and> (fi_eDestroy fi = KEEP \<longrightarrow> fi_eDestroy fi' = KEEP) \<and>
    (if ok then fi_filefd fi' = Some 0 \<and> fs' path = Some [] else fi_status fi' = FIST_DLERROR)"
  using assms by (auto simp: replace_file_def Let_def split: if_splits)

lemma open_or_replace_spec:
  assumes "open_or_replace path oe fi fs = (ok, fi', fs')" "fi_filefd fi = None"
  shows "fi_pathRel fi' = fi_pathRel fi \<and> fi_spattr fi' = fi_spattr fi \<and> fi_sizeChecked fi' = fi_sizeChecked fi \<and>
    fi_contentLength fi' = fi_contentLength fi \<and> (fi_eDestroy fi = KEEP \<longrightarrow> fi_eDestroy fi' = KEEP) \<and>
    (if ok then fi_filefd fi' = Some 0 \<and> fs' path \<noteq> None else fi_status fi' = FIST_DLERROR)"
proof (cases "fi_bWriterMustReplaceFile fi \<or> fi_contentLength fi < 0")
  case True
  obtain ok1 fi1 fs1 where r: "replace_file path (oe_rep1 oe) fi fs = (ok1, fi1, fs1)" by (metis prod_cases3)
  show ?thesis
    using assms(1) True r replace_file_spec [OF r] by (auto simp: open_or_replace_def Let_def split: if_splits)
next
  case False
  show ?thesis
  proof (cases "oe_open oe")
    case True
    with False assms show ?thesis by (auto simp: open_or_replace_def Let_def split: if_splits)
  next
    case noopen: False
    then have "replace_file path (oe_rep2 oe) fi fs = (ok, fi', fs')"
      using False assms by (simp add: open_or_replace_def Let_def)
    from replace_file_spec [OF this] show ?thesis by (auto split: if_splits)
  qed
qed

lemma open_finish_spec:
  assumes "open_finish base asp oe n fi fs = (ok, fi', fs')" "fs (abs_path base fi) = Some c" "n = int (length c)"
  shows "fi_pathRel fi' = fi_pathRel fi \<and> (fi_eDestroy fi = KEEP \<longrightarrow> fi_eDestroy fi' = KEEP) \<and>
    (if ok then fi_status fi' = FIST_DLRECEIVING \<and> fi_filefd fi' = Some (nat (max 0 (fi_sizeChecked fi))) \<and>
       on_disk base (nat (max 0 (fi_sizeChecked fi))) fi' fs' \<and> fs' (abs_path base fi) = Some c
     else fi_status fi' = FIST_DLERROR)"
proof -
  let ?s = "if fi_sizeChecked fi < 0 then 0 else fi_sizeChecked fi"
  let ?fi2 = "fi\<lparr>fi_sizeChecked := ?s, fi_filefd := Some (nat ?s)\<rparr>"
  have s: "?s = max 0 (fi_sizeChecked fi)" by simp
  obtain r fs2 where h: "SaveHeader base (oe_head oe) False ?fi2 fs = (r, fs2)" by fastforce
  have same: "fs2 (abs_path base fi) = Some c" using SaveHeader_other [OF h, of fi] assms(2) by simp
  show ?thesis
    using assms h same
    by (auto simp: open_finish_def Let_def on_disk_def abs_path_def s split: if_splits bool.splits)
qed

lemma SafeOpenOutFile_spec:
  assumes "SafeOpenOutFile base asp oe fi fs = (ok, fi', fs')"
  shows "fi_pathRel fi' = fi_pathRel fi \<and> (fi_eDestroy fi = KEEP \<longrightarrow> fi_eDestroy fi' = KEEP) \<and>
    (if ok then fi_status fi' = FIST_DLRECEIVING \<and> (\<exists>off. fi_filefd fi' = Some off \<and> on_disk base off fi' fs')
     else fi_status fi' = FIST_DLERROR \<or> fi_filefd fi' = None \<and> fi_status fi' = fi_status fi)"
proof (cases "spa_bNoStore (fi_spattr fi)")
  case True
  then show ?thesis using assms by (auto simp: SafeOpenOutFile_def Let_def)
next
  case False
  let ?fi0 = "fi\<lparr>fi_filefd := None\<rparr>"
  let ?path = "abs_path base fi"
  have p0: "abs_path base ?fi0 = ?path" by (simp add: abs_path_def)
  obtain ok2 fi2 fs2 where o: "open_or_replace ?path oe ?fi0 (MoveRelease2Sidestore base oe ?fi0 fs) = (ok2, fi2, fs2)"
    by (metis prod_cases3)
  note os = open_or_replace_spec [OF o]
  have p2: "abs_path base fi2 = ?path" using os by (simp add: abs_path_def)
  consider (bad) "\<not> ok2 \<or> \<not> oe_seek oe"
    | (shrink) "ok2" "oe_seek oe" "int (length (the (fs2 ?path))) > fi_contentLength fi2"
    | (plain) "ok2" "oe_seek oe" "\<not> int (length (the (fs2 ?path))) > fi_contentLength fi2" by blast
  then show ?thesis
  proof cases
    case bad
    then show ?thesis using assms False o os p0 by (auto simp: SafeOpenOutFile_def Let_def split: if_splits)
  next
    case plain
    obtain c where c: "fs2 ?path = Some c" using os plain by auto
    have "open_finish base asp oe (int (length c)) fi2 fs2 = (ok, fi', fs')"
      using assms False o plain c p0 by (simp add: SafeOpenOutFile_def Let_def)
    from open_finish_spec [OF this, of c] c p2 os show ?thesis by (auto split: if_splits)
  next
    case shrink
    obtain ok3 fi3 fs3 where r: "replace_file ?path (oe_rep3 oe) fi2 fs2 = (ok3, fi3, fs3)" by (metis prod_cases3)
    note rs = replace_file_spec [OF r]
    show ?thesis
    proof (cases ok3)
      case True
      then have "open_finish base asp oe 0 fi3 fs3 = (ok, fi', fs')"
        using assms False o shrink r p0 by (simp add: SafeOpenOutFile_def Let_def)
      from open_finish_spec [OF this, of "[]"] True rs os show ?thesis
        by (auto simp: abs_path_def split: if_splits)
    next
      case False
      then show ?thesis using assms \<open>\<not> spa_bNoStore (fi_spattr fi)\<close> o os shrink r rs p0
        by (auto simp: SafeOpenOutFile_def Let_def split: if_splits)
    qed
  qed
qed

lemma length_file_write: "length (file_write pos d c) = max (length c) (pos + length d)"
  by (simp add: file_write_def)

lemma file_write_prefix: "pos \<le> length c \<Longrightarrow> take (pos + length d) (file_write pos d c) = take pos c @ d"
  by (simp add: file_write_def)

lemma file_write_twice:
  assumes "pos \<le> length c"
  shows "file_write (pos + length d) e (file_write pos d c) = file_write pos (d @ e) c"
  using assms by (simp add: file_write_def ac_simps)

text \<open>A run of the write loop that ends without error has written the whole chunk at the position.\<close>

lemma write_loop_spec:
  assumes "write_loop path ws chunk fi fs = AddRet ok fi' fs'"
    and "fi_filefd fi = Some off" "fi_sizeChecked fi = int off" "fs path = Some c" "off \<le> length c"
  shows "fi_pathRel fi' = fi_pathRel fi \<and> (fi_eDestroy fi = KEEP \<longrightarrow> fi_eDestroy fi' = KEEP) \<and>
    (\<exists>k \<le> length chunk. fi_filefd fi' = Some (off + k) \<and> fi_sizeChecked fi' = int (off + k) \<and>
       fs' path = Some (file_write off (take k chunk) c) \<and>
       (\<forall>q. q \<noteq> path \<longrightarrow> fs' q = fs q) \<and>
       (if ok then k = length chunk \<and> fi_status fi' = fi_status fi \<and> fi_contentLength fi' = fi_contentLength fi
        else fi_status fi' = FIST_DLERROR))"
  using assms
proof (induction path ws chunk fi fs arbitrary: off c rule: write_loop.induct)
  case (1 path ws fi fs)
  then show ?case by (auto simp: file_write_def)
next
  case (4 path ws x xs fi fs)
  then show ?case by (auto simp: file_write_def intro!: exI [of _ 0])
next
  case (5 path n ws x xs fi fs)
  let ?ch = "x # xs"
  let ?k = "min n (length ?ch)"
  let ?fi1 = "fi\<lparr>fi_sizeChecked := fi_sizeChecked fi + int ?k, fi_filefd := Some (off + ?k)\<rparr>"
  let ?c1 = "file_write off (take ?k ?ch) c"
  have run: "write_loop path ws (drop ?k ?ch) ?fi1 (fs(path := Some ?c1)) = AddRet ok fi' fs'"
    using 5(2-5) by (simp add: Let_def)
  have le: "off + ?k \<le> length ?c1" by (simp add: length_file_write)
  have th: "the (fi_filefd fi) = off" "the (fs path) = c" using 5(3,5) by simp_all
  have f1: "fi_filefd ?fi1 = Some (off + ?k)" "fi_sizeChecked ?fi1 = int (off + ?k)" "(fs(path := Some ?c1)) path = Some ?c1"
    using 5(4) by simp_all
  note IH = 5(1) [OF refl refl, unfolded th, OF run f1 le]
  have rest: "fi_pathRel fi' = fi_pathRel fi" "fi_eDestroy fi = KEEP \<longrightarrow> fi_eDestroy fi' = KEEP"
    using IH by simp_all
  from IH obtain k where K: "k \<le> length (drop ?k ?ch)" "fi_filefd fi' = Some (off + ?k + k)"
      "fi_sizeChecked fi' = int (off + ?k + k)"
      "fs' path = Some (file_write (off + ?k) (take k (drop ?k ?ch)) ?c1)"
      "\<forall>q. q \<noteq> path \<longrightarrow> fs' q = (fs(path := Some ?c1)) q"
      "if ok then k = length (drop ?k ?ch) \<and> fi_status fi' = fi_status ?fi1 \<and> fi_contentLength fi' = fi_contentLength ?fi1
       else fi_status fi' = FIST_DLERROR"
    by blast
  have q: "\<forall>q. q \<noteq> path \<longrightarrow> fs' q = fs q" using K(5) by simp
  have st: "if ok then ?k + k = length ?ch \<and> fi_status fi' = fi_status fi \<and> fi_contentLength fi' = fi_contentLength fi
       else fi_status fi' = FIST_DLERROR"
    using K(6) by (cases ok) auto
  have kl: "?k + k \<le> length ?ch" using K(1) by simp
  have "length (take ?k ?ch) = ?k" by simp
  then have "file_write (off + ?k) (take k (drop ?k ?ch)) ?c1 = file_write off (take ?k ?ch @ take k (drop ?k ?ch)) c"
    using file_write_twice [OF 5(6), of "take ?k ?ch"] by simp
  also have "take ?k ?ch @ take k (drop ?k ?ch) = take (?k + k) ?ch" by (simp only: take_add)
  finally have w: "fs' path = Some (file_write off (take (?k + k) ?ch) c)" using K(4) by simp
  show ?case
    using rest K(2,3) q st kl w by (intro conjI exI [of _ "?k + k"]) (simp_all only: add.assoc)
qed simp_all


lemma on_disk_frame:
  "on_disk base off fi fs \<Longrightarrow> fi_pathRel fi' = fi_pathRel fi \<Longrightarrow> fi_sizeChecked fi' = fi_sizeChecked fi \<Longrightarrow>
     fs' (abs_path base fi) = fs (abs_path base fi) \<Longrightarrow> on_disk base off fi' fs'"
  by (simp add: on_disk_def abs_path_def)

lemma fi_inv_write_loop:
  assumes "write_loop (abs_path base fi) ws chunk fi fs = AddRet ok fi' fs'"
    and "fi_filefd fi = Some off" "on_disk base off fi fs" "fi_eDestroy fi = KEEP" "fi_status fi \<ge> FIST_DLGOTHEAD"
  shows "fi_inv base (fi', fs')"
proof -
  obtain c where c: "fs (abs_path base fi) = Some c" "off \<le> length c" and s: "fi_sizeChecked fi = int off"
    using assms(3) by (auto simp: on_disk_def)
  obtain k where k: "k \<le> length chunk" "fi_filefd fi' = Some (off + k)" "fi_sizeChecked fi' = int (off + k)"
      "fs' (abs_path base fi) = Some (file_write off (take k chunk) c)"
    and st: "if ok then fi_status fi' = fi_status fi else fi_status fi' = FIST_DLERROR"
    and p: "fi_pathRel fi' = fi_pathRel fi" "fi_eDestroy fi' = KEEP"
    using write_loop_spec [OF assms(1,2) s c] assms(4) by (auto split: if_splits)
  have "on_disk base (off + k) fi' fs'"
    using k p by (auto simp: on_disk_def abs_path_def length_file_write)
  then show ?thesis using k p st assms(5) by (auto simp: fi_inv_def fi_ord split: if_splits)
qed

lemma fi_inv_DlAddData:
  assumes "fi_inv base (fi, fs)" "DlAddData base asp oe ws chunk fi fs = AddRet ok fi' fs'"
  shows "fi_inv base (fi', fs')"
proof -
  let ?fi1 = "fi\<lparr>fi_nIncommingCount := fi_nIncommingCount fi + of_nat (length chunk)\<rparr>"
  obtain ok2 fi2 fs2 where o: "(if fi_filefd ?fi1 = None then SafeOpenOutFile base asp oe ?fi1 fs else (True, ?fi1, fs)) = (ok2, fi2, fs2)"
    by (metis prod_cases3)
  have inv1: "fi_inv base (?fi1, fs)" using assms(1) by (simp add: fi_inv_def on_disk_def abs_path_def)
  have inv2: "fi_inv base (fi2, fs2)"
  proof (cases "fi_filefd fi = None")
    case True
    then have "SafeOpenOutFile base asp oe ?fi1 fs = (ok2, fi2, fs2)" using o by simp
    from SafeOpenOutFile_spec [OF this] show ?thesis
      using inv1 True by (auto simp: fi_inv_def fi_ord split: if_splits)
  next
    case False
    then show ?thesis using o inv1 by auto
  qed
  have err: "fi_inv base (withError fi2, fs2)" using inv2 unfolding withError_def by (rule fi_inv_DlSetError)
  show ?thesis
  proof (cases "\<not> ok2 \<or> fi_filefd fi2 = None \<or> fi_status fi2 < FIST_DLGOTHEAD \<or> fi_status fi2 > FIST_COMPLETE")
    case True
    then show ?thesis using assms(2) o inv2 err by (auto simp: DlAddData_def Let_def split: if_splits)
  next
    case False
    then obtain off where off: "fi_filefd fi2 = Some off" by auto
    have w: "write_loop (abs_path base fi2) ws chunk fi2 fs2 = AddRet ok fi' fs'"
      using assms(2) o False off by (auto simp: DlAddData_def Let_def split: if_splits)
    show ?thesis
      by (rule fi_inv_write_loop [OF w off]) (use inv2 off False in \<open>auto simp: fi_inv_def not_less\<close>)
  qed
qed

lemma fi_inv_DlFinish:
  assumes "fi_inv base (fi, fs)" "DlFinish base hok force fi fs = (fi', fs')"
  shows "fi_inv base (fi', fs')"
proof -
  have "fs' (abs_path base fi) = fs (abs_path base fi) \<and> fi_pathRel fi' = fi_pathRel fi \<and> fi_filefd fi' = fi_filefd fi \<and>
     fi_sizeChecked fi' = fi_sizeChecked fi \<and> fi_eDestroy fi' = fi_eDestroy fi \<and>
     (fi' = fi \<or> fi_status fi' = FIST_COMPLETE \<and> fi_status fi \<le> FIST_COMPLETE)"
    using assms(2) SaveHeader_other [OF surjective_pairing, where base = base and fi' = fi]
    by (auto simp: DlFinish_def Let_def not_less split: if_splits)
  then show ?thesis
    using assms(1) by (auto simp: fi_inv_def fi_ord on_disk_def abs_path_def)
qed

lemma fi_inv_step:
  assumes "fi_step base mk asp s s'" "fi_inv base s"
  shows "fi_inv base s'"
  using assms
proof (induction rule: fi_step.induct)
  case (fs_started fi n md org st seek ann ok fi' fs)
  then show ?case using fi_inv_DlStarted by blast
next
  case (fs_ref_dec fi fs e)
  then show ?case
    using fi_inv_DlSetError [of base "fi\<lparr>fi_nDlRefsCount := fi_nDlRefsCount fi - 1\<rparr>" fs e "fi_eDestroy fi"]
    by (auto simp: DlRefCountDec_def Let_def fi_inv_def on_disk_def abs_path_def)
qed (auto simp: fi_inv_Setup fi_inv_DlSetError MarkFaulty_def intro: fi_inv_DlAddData fi_inv_DlFinish,
    auto simp: fi_inv_def on_disk_def abs_path_def DlRefCountAdd_def TakeTransferCount_def)

lemma fi_reach_inv: "fi_reach base mk asp p fs0 s \<Longrightarrow> fi_inv base s"
  unfolding fi_reach_def
proof (induction rule: rtranclp_induct)
  case base
  show ?case by (simp add: fi_inv_def fileitem_new_def fi_ord)
next
  case (step y z)
  then show ?case using fi_inv_step by blast
qed

section \<open>Properties\<close>

text \<open>
  C31. In every reachable state in which an item is receiving data, the number of bytes it announces
  as available is the position of its output descriptor, and the file in the cache really has at
  least that many bytes: clients that are served from the file never run past its end.
\<close>

theorem receiving_is_on_disk:
  assumes "fi_reach base mk asp p fs0 (fi, fs)" and "fi_status fi = FIST_DLRECEIVING"
  shows "\<exists>c. fs (abs_path base fi) = Some c \<and> 0 \<le> fi_sizeChecked fi \<and> fi_sizeChecked fi \<le> int (length c) \<and>
    fi_filefd fi = Some (nat (fi_sizeChecked fi))"
proof -
  have inv: "fi_inv base (fi, fs)" by (rule fi_reach_inv [OF assms(1)])
  then obtain off where o: "fi_filefd fi = Some off" using assms(2) by (auto simp: fi_inv_def)
  then have "on_disk base off fi fs" using inv assms(2) by (auto simp: fi_inv_def fi_ord)
  then show ?thesis using o by (auto simp: on_disk_def)
qed

text \<open>
  The destroy mode of an item never leaves \<open>KEEP\<close> through its own operations, because
  \<open>DlSetError\<close> only accepts a mode that is less severe than the current one: even after
  \<open>MarkFaulty\<close> with deletion requested, destroying the item leaves the file system as it is.
\<close>

theorem faulty_item_is_kept:
  assumes "fi_reach base mk asp p fs0 (fi, fs)"
  shows "fileitem_dtor base tok hok (MarkFaulty kill fi) fs = fs"
proof -
  have "fi_inv base (MarkFaulty kill fi, fs)"
    using fi_reach_inv [OF assms] unfolding MarkFaulty_def by (rule fi_inv_DlSetError)
  then have "fi_eDestroy (MarkFaulty kill fi) = KEEP" by (simp add: fi_inv_def)
  then show ?thesis by (simp add: fileitem_dtor_def Let_def)
qed

theorem faulty_item_is_kept_witness:
  "fileitem_dtor ''/c/'' True True (MarkFaulty True (fileitem_new ''a'')) [''/c/a'' \<mapsto> ''x''] = [''/c/a'' \<mapsto> ''x'']"
  using faulty_item_is_kept [of "''/c/''" timegm_ref 0 "''a''" "[''/c/a'' \<mapsto> ''x'']"] by (simp add: fi_reach_def)


definition env_ok :: open_env where
  "env_ok = (let r = \<lparr>re_create = True, re_move = True, re_rename = True\<rparr> in
     \<lparr>oe_rep1 = r, oe_rep2 = r, oe_rep3 = r, oe_open = True, oe_seek = True, oe_head = True, oe_ino = 1, oe_mtime = (1, 1)\<rparr>)"

definition status_ok :: tRemoteStatus where
  "status_ok = \<lparr>st_code = 200, st_msg = ''OK''\<rparr>"

definition run_start :: fileitem where
  "run_start = snd (DlStarted timegm_ref 0 date_unset [] status_ok 0 5 (fileitem_new ''a''))"

definition run_add :: add_result where
  "run_add = DlAddData ''/c/'' 0 env_ok [Inr 3] ''abc'' run_start Map.empty"

lemma run_example:
  "\<exists>fi fs. run_add = AddRet True fi fs \<and> fi_status fi = FIST_DLRECEIVING \<and> fi_sizeChecked fi = 3 \<and> fi_pathRel fi = ''a'' \<and>
     fi_reach ''/c/'' timegm_ref 0 ''a'' Map.empty (fi, fs)"
proof -
  have "case run_add of AddRet ok fi fs \<Rightarrow> ok \<and> fi_status fi = FIST_DLRECEIVING \<and> fi_sizeChecked fi = 3 \<and>
      fi_pathRel fi = ''a'' | _ \<Rightarrow> False"
    by code_simp
  then obtain fi fs where r: "run_add = AddRet True fi fs" "fi_status fi = FIST_DLRECEIVING" "fi_sizeChecked fi = 3" "fi_pathRel fi = ''a''"
    by (auto split: add_result.splits)
  have "fi_step ''/c/'' timegm_ref 0 (fileitem_new ''a'', Map.empty) (run_start, Map.empty)"
  proof (rule fs_started)
    show "fi_status (fileitem_new ''a'') < FIST_COMPLETE" by (simp add: fileitem_new_def fi_ord)
    show "DlStarted timegm_ref 0 date_unset [] status_ok 0 5 (fileitem_new ''a'') =
        (fst (DlStarted timegm_ref 0 date_unset [] status_ok 0 5 (fileitem_new ''a'')), run_start)"
      by (simp add: run_start_def)
  qed
  moreover have "fi_step ''/c/'' timegm_ref 0 (run_start, Map.empty) (fi, fs)"
    using r(1) unfolding run_add_def by (rule fs_add)
  ultimately show ?thesis using r unfolding fi_reach_def by (meson converse_rtranclp_into_rtranclp r_into_rtranclp)
qed

theorem receiving_is_on_disk_witness:
  "\<exists>fi fs c. run_add = AddRet True fi fs \<and> fs (abs_path ''/c/'' fi) = Some c \<and> 3 \<le> int (length c)"
proof -
  obtain fi fs where r: "run_add = AddRet True fi fs" "fi_status fi = FIST_DLRECEIVING" "fi_sizeChecked fi = 3"
    "fi_reach ''/c/'' timegm_ref 0 ''a'' Map.empty (fi, fs)" using run_example by blast
  from receiving_is_on_disk [OF r(4,2)] show ?thesis using r by auto
qed

text \<open>
  A chunk that an item with an open output file accepts is appended exactly at the announced
  size: the file then holds the old bytes up to that position followed by the chunk, the announced
  size grows by the length of the chunk, and no other file changes.
\<close>

theorem DlAddData_appends:
  assumes "fi_inv base (fi, fs)" "fi_filefd fi \<noteq> None" "fi_status fi \<le> FIST_COMPLETE"
    and "DlAddData base asp oe ws chunk fi fs = AddRet True fi' fs'"
  shows "\<exists>c. fs (abs_path base fi) = Some c \<and>
    (\<exists>c'. fs' (abs_path base fi) = Some c' \<and>
      take (nat (fi_sizeChecked fi')) c' = take (nat (fi_sizeChecked fi)) c @ chunk) \<and>
    fi_sizeChecked fi' = fi_sizeChecked fi + int (length chunk) \<and>
    (\<forall>q. q \<noteq> abs_path base fi \<longrightarrow> fs' q = fs q) \<and> fi_status fi' = fi_status fi"
proof -
  let ?fi1 = "fi\<lparr>fi_nIncommingCount := fi_nIncommingCount fi + of_nat (length chunk)\<rparr>"
  obtain off where off: "fi_filefd fi = Some off" using assms(2) by auto
  have d: "on_disk base off fi fs" and st: "\<not> fi_status fi < FIST_DLGOTHEAD"
    using assms(1,3) off by (auto simp: fi_inv_def)
  then obtain c where c: "fs (abs_path base fi) = Some c" "off \<le> length c" and s: "fi_sizeChecked fi = int off"
    by (auto simp: on_disk_def)
  have p: "abs_path base ?fi1 = abs_path base fi" by (simp add: abs_path_def)
  have w: "write_loop (abs_path base fi) ws chunk ?fi1 fs = AddRet True fi' fs'"
    using assms(3,4) off st p by (simp add: DlAddData_def Let_def not_less [symmetric])
  have f: "fi_filefd ?fi1 = Some off" "fi_sizeChecked ?fi1 = int off" using off s by simp_all
  from write_loop_spec [OF w f c] have r: "fi_sizeChecked fi' = int (off + length chunk)"
      "fs' (abs_path base fi) = Some (file_write off chunk c)" "\<forall>q. q \<noteq> abs_path base fi \<longrightarrow> fs' q = fs q"
      "fi_status fi' = fi_status fi"
    by auto
  have "take (off + length chunk) (file_write off chunk c) = take off c @ chunk"
    by (rule file_write_prefix [OF c(2)])
  with r s c show ?thesis by (auto simp: nat_add_distrib)
qed

theorem DlAddData_appends_witness:
  "\<exists>fi fs fi' fs'. run_add = AddRet True fi fs \<and>
     DlAddData ''/c/'' 0 env_ok [Inr 1, Inr 9] ''de'' fi fs = AddRet True fi' fs' \<and> fi_sizeChecked fi' = 5"
proof -
  obtain fi fs where r: "run_add = AddRet True fi fs" "fi_status fi = FIST_DLRECEIVING" "fi_sizeChecked fi = 3"
    "fi_reach ''/c/'' timegm_ref 0 ''a'' Map.empty (fi, fs)" using run_example by blast
  have inv: "fi_inv ''/c/'' (fi, fs)" by (rule fi_reach_inv [OF r(4)])
  have fd: "fi_filefd fi \<noteq> None" using inv r(2) by (simp add: fi_inv_def)
  then obtain fi' fs' where d: "DlAddData ''/c/'' 0 env_ok [Inr 1, Inr 9] ''de'' fi fs = AddRet True fi' fs'"
    using r(2) by (auto simp: DlAddData_def Let_def fi_ord)
  have "fi_status fi \<le> FIST_COMPLETE" using r(2) by (simp add: fi_ord)
  from DlAddData_appends [OF inv fd this d] show ?thesis using r d by auto
qed

lemma write_loop_progress:
  "\<forall>w \<in> set ws. \<exists>n > 0. w = Inr n \<Longrightarrow> length chunk \<le> length ws \<Longrightarrow>
     \<exists>fi' fs'. write_loop path ws chunk fi fs = AddRet True fi' fs'"
proof (induction path ws chunk fi fs rule: write_loop.induct)
  case (5 path n ws x xs fi fs)
  have "n > 0" using 5(2) by auto
  then have "length (drop (min n (length (x # xs))) (x # xs)) \<le> length ws" using 5(3) by auto
  moreover have "\<forall>w \<in> set ws. \<exists>n > 0. w = Inr n" using 5(2) by simp
  ultimately show ?case using 5(1) [OF refl refl] by (simp only: write_loop.simps Let_def)
qed auto

text \<open>
  C34. Progress: if every \<open>write\<close> accepts at least one byte, an item with an open output file
  accepts a chunk after at most as many \<open>write\<close> calls as the chunk has bytes.
\<close>

theorem DlAddData_progress:
  assumes "fi_filefd fi \<noteq> None" "FIST_DLGOTHEAD \<le> fi_status fi" "fi_status fi \<le> FIST_COMPLETE"
    and "\<forall>w \<in> set ws. \<exists>n > 0. w = Inr n" and "length chunk \<le> length ws"
  shows "\<exists>fi' fs'. DlAddData base asp oe ws chunk fi fs = AddRet True fi' fs'"
  using assms(1-3) write_loop_progress [OF assms(4,5)]
  by (auto simp: DlAddData_def Let_def not_less [symmetric])

theorem DlAddData_progress_witness:
  "\<exists>fi' fs'. DlAddData ''/c/'' 0 env_ok [Inr 1, Inr 9] ''de''
     ((fileitem_new ''a'')\<lparr>fi_filefd := Some 0, fi_status := FIST_DLRECEIVING\<rparr>) Map.empty = AddRet True fi' fs'"
  by (rule DlAddData_progress) (auto simp: fi_ord)


text \<open>
  C33. A fresh item is set up as complete only if the recorded content length, the size of the file
  and the announced size agree, and the head file says so; in particular a shorter file is never
  taken for a complete one.
\<close>

theorem Setup_complete_sound:
  assumes "fi_status fi = FIST_FRESH" "fi_contentLength fi = -1" "fi_status (Setup base fs fi) = FIST_COMPLETE"
  shows "\<exists>c h. fs (abs_path base fi) = Some c \<and> fs (head_path base fi) = Some h \<and>
    hdat_len (snd (ParseHeadFromStorage (Some h))) = Some (int (length c)) \<and>
    fi_sizeChecked (Setup base fs fi) = int (length c) \<and> fi_contentLength (Setup base fs fi) = int (length c)"
proof -
  obtain ok d where pd: "ParseHeadFromStorage (fs (head_path base fi)) = (ok, d)" by fastforce
  have nf: "\<not> fi_status fi > FIST_FRESH" using assms(1) by simp
  let ?n = "GetFileSize fs (abs_path base fi) (-1)"
  have S: "ok \<and> hdat_len d = Some ?n \<and> 0 \<le> ?n \<and> fi_sizeChecked (Setup base fs fi) = ?n \<and> fi_contentLength (Setup base fs fi) = ?n"
    using assms nf pd
    by (auto simp: Setup_def error_clean_def apply_head_def Let_def split: if_splits option.splits)
  have ne: "fs (head_path base fi) \<noteq> None"
    using S pd by (cases "fs (head_path base fi)") (auto simp: ParseHeadFromStorage_def head_none_def)
  have "fs (abs_path base fi) \<noteq> None" using S by (cases "fs (abs_path base fi)") (auto simp: GetFileSize_def)
  then show ?thesis using S ne pd by (auto simp: GetFileSize_def)
qed

lemma SaveHeader_stores:
  "snd (SaveHeader base True False g fs) =
     fs(head_path base g := Some (head_text (fi_contentLength g) (fi_responseModDate g) (fi_responseOrigin g)))"
  by (simp add: SaveHeader_def StoreHeadToStorage_def head_path_def Let_def)

lemma DlFinish_saves:
  assumes "\<not> spa_bNoStore (fi_spattr fi)" "fi_status fi \<le> FIST_COMPLETE" "fi_contentLength fi < 0 \<or> force" "fi_eDestroy fi = KEEP"
  shows "snd (DlFinish base hok force fi fs) =
    snd (SaveHeader base hok False
      (fi\<lparr>fi_status := FIST_COMPLETE,
          fi_contentLength := (if fi_contentLength fi < 0 then fi_sizeChecked fi else fi_contentLength fi)\<rparr>) fs)"
proof (cases "fi_contentLength fi < 0")
  case True
  with assms show ?thesis by (simp add: DlFinish_def Let_def not_less [symmetric])
next
  case False
  then have "fi\<lparr>fi_status := FIST_COMPLETE, fi_contentLength := fi_contentLength fi\<rparr> = fi\<lparr>fi_status := FIST_COMPLETE\<rparr>"
    by (cases fi) simp
  with False assms show ?thesis by (simp add: DlFinish_def Let_def not_less [symmetric])
qed




theorem Setup_complete_sound_witness:
  "\<exists>c. [''/c/a'' \<mapsto> ''xyz'', ''/c/a.head'' \<mapsto> head_text 3 date_unset []] (abs_path ''/c/'' (fileitem_new ''a'')) = Some c \<and>
     fi_sizeChecked (Setup ''/c/'' [''/c/a'' \<mapsto> ''xyz'', ''/c/a.head'' \<mapsto> head_text 3 date_unset []] (fileitem_new ''a'')) = int (length c)"
proof -
  have "fi_status (fileitem_new ''a'') = FIST_FRESH" "fi_contentLength (fileitem_new ''a'') = -1"
    by (simp_all add: fileitem_new_def)
  moreover have "fi_status (Setup ''/c/'' [''/c/a'' \<mapsto> ''xyz'', ''/c/a.head'' \<mapsto> head_text 3 date_unset []] (fileitem_new ''a'')) = FIST_COMPLETE"
    by code_simp
  ultimately show ?thesis using Setup_complete_sound [of "fileitem_new ''a''" "''/c/''"] by blast
qed

text \<open>
  A head file that cannot be read does not make \<open>Setup\<close> start over: the parser returns -1 from
  a function of type \<open>bool\<close>. An item that asks for the header only is then reported as having
  received a header with status 200, although nothing is known about the file.
\<close>

theorem Setup_missing_head:
  assumes "fi_status fi = FIST_FRESH" "fs (head_path base fi) = None" "\<not> spa_bVolatile (fi_spattr fi)" "spa_bHeadOnly (fi_spattr fi)"
  shows "fi_status (Setup base fs fi) = FIST_DLGOTHEAD \<and> fi_responseStatus (Setup base fs fi) = \<lparr>st_code = 200, st_msg = ''OK''\<rparr> \<and>
    fi_contentLength (Setup base fs fi) = fi_contentLength fi"
  using assms by (simp add: Setup_def ParseHeadFromStorage_def head_none_def apply_head_def Let_def)

theorem Setup_missing_head_witness:
  "fi_status (Setup ''/c/'' Map.empty ((fileitem_new ''a'')\<lparr>fi_spattr := spattr_default\<lparr>spa_bHeadOnly := True\<rparr>\<rparr>)) = FIST_DLGOTHEAD"
  using Setup_missing_head [of "(fileitem_new ''a'')\<lparr>fi_spattr := spattr_default\<lparr>spa_bHeadOnly := True\<rparr>\<rparr>" Map.empty "''/c/''"]
  by (simp add: fileitem_new_def spattr_default_def)

end
