(* ===== verification/Registry.thy ===== *)
theory Registry
  imports FileItem
begin

text \<open>
  \<open>src/acregistry.h\<close> and \<open>src/acregistry.cc\<close>: the registry of active file items. Items are
  shared by all requests for a path through holder objects; the destructor of a holder counts
  users down and unregisters the item when the last one is gone.

  Items live in an explicit store, since holders, the registry map and the queue of prolonged
  items alias them. \<open>rg_owner\<close> stands for the members \<open>m_owner\<close> and \<open>m_globRef\<close> of an item: the
  key under which it is registered. \<open>rg_clients\<close> lists the items of all holder objects that exist
  outside of the registry. Each operation runs under the locks of the code. The destruction of an
  item object when its last pointer disappears is not modelled here.
\<close>

section \<open>State\<close>

definition END_OF_TIME :: time_t where "END_OF_TIME = 2 ^ 63 - 1 - 2"

datatype ESharingHow = ALWAYS_TRY_SHARING | AUTO_MOVE_OUT_OF_THE_WAY | FORCE_MOVE_OUT_OF_THE_WAY

record reg_cfg =
  rc_stupidfs :: bool
  rc_maxtempdelay :: int
  rc_stucksecs :: int
  rc_base :: string

record registry =
  rg_heap :: "nat \<Rightarrow> fileitem option"
  rg_next :: nat
  rg_map :: "string \<Rightarrow> nat option"
  rg_owner :: "nat \<Rightarrow> string option"
  rg_clients :: "nat list"
  rg_prolonged :: "(nat \<times> time_t) list"
  rg_sched :: "time_t list"
  rg_fs :: fsys

definition registry_new :: "fsys \<Rightarrow> registry" where
  "registry_new fs = \<lparr>rg_heap = Map.empty, rg_next = 0, rg_map = Map.empty, rg_owner = Map.empty,
     rg_clients = [], rg_prolonged = [], rg_sched = [], rg_fs = fs\<rparr>"

definition rg_item :: "registry \<Rightarrow> nat \<Rightarrow> fileitem" where
  "rg_item r i = the (rg_heap r i)"

definition rg_upd :: "nat \<Rightarrow> (fileitem \<Rightarrow> fileitem) \<Rightarrow> registry \<Rightarrow> registry" where
  "rg_upd i f r = r\<lparr>rg_heap := (rg_heap r)(i := map_option f (rg_heap r i))\<rparr>"

definition usercount_add :: "int \<Rightarrow> fileitem \<Rightarrow> fileitem" where
  "usercount_add d fi = fi\<lparr>fi_usercount := fi_usercount fi + d\<rparr>"

section \<open>Operations\<close>

definition Unreg :: "nat \<Rightarrow> registry \<Rightarrow> registry" where
  "Unreg i r =
     (case rg_owner r i of
        None \<Rightarrow> r
      | Some k \<Rightarrow> r\<lparr>rg_map := (rg_map r)(k := None), rg_owner := (rg_owner r)(i := None)\<rparr>)"

definition AddToProlongedQueue :: "nat \<Rightarrow> time_t \<Rightarrow> registry \<Rightarrow> registry" where
  "AddToProlongedQueue i expTime r =
     (let q = rg_prolonged r @ [(i, expTime)] in
      r\<lparr>rg_prolonged := q, rg_sched := rg_sched r @ [snd (hd q)]\<rparr>)"

text \<open>
  The body of \<open>~TFileItemHolder\<close> for a holder of item \<open>i\<close>. The expression for the expiration date
  parses as \<open>(maxtempdelay + started) ? started : now\<close>.
\<close>

definition holder_dtor :: "reg_cfg \<Rightarrow> bool \<Rightarrow> time_t \<Rightarrow> nat \<Rightarrow> registry \<Rightarrow> registry" where
  "holder_dtor cfg in_shutdown now i r =
     (let r1 = rg_upd i (usercount_add (-1)) r;
          fi = rg_item r1 i;
          manger = (rg_owner r1 i \<noteq> None);
          expDate = (if rc_maxtempdelay cfg + fi_nTimeDlStarted fi \<noteq> 0 then fi_nTimeDlStarted fi else now)
      in if fi_usercount fi > 0 then r1
         else if manger \<and> \<not> in_shutdown \<and> rc_maxtempdelay cfg \<noteq> 0 \<and> spa_bVolatile (fi_spattr fi) \<and>
                 fi_status fi = FIST_COMPLETE \<and> expDate > now
         then AddToProlongedQueue i expDate (rg_upd i (usercount_add 1) r1)
         else
           let r2 = rg_upd i (\<lambda>fi. fi\<lparr>fi_status := (if fi_status fi < FIST_COMPLETE then FIST_DLSTOP else fi_status fi),
                                      fi_responseStatus := \<lparr>st_code = 500, st_msg = ''Cache file item expired''\<rparr>\<rparr>) r1
           in if manger then Unreg i r2 else r2)"

definition release_client :: "reg_cfg \<Rightarrow> bool \<Rightarrow> time_t \<Rightarrow> nat \<Rightarrow> registry \<Rightarrow> registry" where
  "release_client cfg in_shutdown now i r =
     holder_dtor cfg in_shutdown now i (r\<lparr>rg_clients := remove1 i (rg_clients r)\<rparr>)"

text \<open>A new object in the store, held by one new holder.\<close>

definition alloc_held :: "fileitem \<Rightarrow> registry \<Rightarrow> nat \<times> registry" where
  "alloc_held fi r =
     (rg_next r, r\<lparr>rg_heap := (rg_heap r)(rg_next r := Some fi), rg_next := rg_next r + 1,
                    rg_clients := rg_next r # rg_clients r\<rparr>)"

definition regnew :: "string \<Rightarrow> tSpecialPurposeAttr \<Rightarrow> registry \<Rightarrow> nat option \<times> registry" where
  "regnew sPathRel spattr r =
     (let (i, r1) = alloc_held ((fileitem_new sPathRel)\<lparr>fi_usercount := 1, fi_spattr := spattr\<rparr>) r
      in (Some i, r1\<lparr>rg_map := (rg_map r1)(sPathRel := Some i), rg_owner := (rg_owner r1)(i := Some sPathRel)\<rparr>))"

definition share :: "nat \<Rightarrow> registry \<Rightarrow> nat option \<times> registry" where
  "share i r = (Some i, rg_upd i (usercount_add 1) (r\<lparr>rg_clients := i # rg_clients r\<rparr>))"

text \<open>The outcome of \<open>link\<close>; for a successful one whether \<open>unlink\<close> then fails with \<open>ENOENT\<close>, with another error, or not.\<close>

datatype link_env = LinkOk | LinkUnlinkENOENT | LinkUnlinkErr | LinkENOENT | LinkErr

definition abandon_replace ::
  "string \<Rightarrow> string \<Rightarrow> tSpecialPurposeAttr \<Rightarrow> nat \<Rightarrow> registry \<Rightarrow> nat option \<times> registry" where
  "abandon_replace replPathAbs sPathRel spattr i r =
     (let r1 = rg_upd i (\<lambda>fi. fi\<lparr>fi_pathRel := replPathAbs, fi_eDestroy := ABANDONED\<rparr>) r;
          r2 = r1\<lparr>rg_owner := (rg_owner r1)(i := None), rg_map := (rg_map r1)(sPathRel := None)\<rparr>
      in regnew sPathRel spattr r2)"

definition must_make_way :: "reg_cfg \<Rightarrow> time_t \<Rightarrow> ESharingHow \<Rightarrow> tSpecialPurposeAttr \<Rightarrow> fileitem \<Rightarrow> bool" where
  "must_make_way cfg now how spattr fi \<longleftrightarrow>
     how = FORCE_MOVE_OUT_OF_THE_WAY \<or> now > fi_nTimeDlStarted fi + rc_stucksecs cfg \<or>
     spa_bVolatile (fi_spattr fi) \<noteq> spa_bVolatile spattr \<and> \<not> spa_bVolatile (fi_spattr fi)"

text \<open>Moving the file of an existing item out of the way and registering a new item for the path.\<close>

definition displace :: "reg_cfg \<Rightarrow> time_t \<Rightarrow> link_env \<Rightarrow> string \<Rightarrow> tSpecialPurposeAttr \<Rightarrow> nat \<Rightarrow> registry \<Rightarrow> nat option \<times> registry" where
  "displace cfg now le sPathRel spattr i r =
     (let fi = rg_item r i;
          replPathAbs = rc_base cfg @ fi_pathRel fi @ ''.'' @ ltos now;
          pathAbs = rc_base cfg @ fi_pathRel fi;
          fs = rg_fs r;
          replace = abandon_replace replPathAbs sPathRel spattr i
      in if fi_pathRel fi = [] then (None, r)
         else (case le of
                 LinkOk \<Rightarrow> replace (r\<lparr>rg_fs := fs(replPathAbs := fs pathAbs, pathAbs := None)\<rparr>)
               | LinkUnlinkErr \<Rightarrow> replace (r\<lparr>rg_fs := fs(replPathAbs := fs pathAbs)\<rparr>)
               | LinkUnlinkENOENT \<Rightarrow> (None, r\<lparr>rg_fs := fs(replPathAbs := fs pathAbs, pathAbs := None)\<rparr>)
               | LinkENOENT \<Rightarrow> replace r
               | LinkErr \<Rightarrow> (None, r)))"

definition Create :: "reg_cfg \<Rightarrow> time_t \<Rightarrow> link_env \<Rightarrow> string \<Rightarrow> ESharingHow \<Rightarrow> tSpecialPurposeAttr \<Rightarrow> registry \<Rightarrow> nat option \<times> registry" where
  "Create cfg now le sPathUnescaped how spattr r =
     (let sPathRel = NormalizePath (rc_stupidfs cfg) sPathUnescaped in
      case rg_map r sPathRel of
        None \<Rightarrow> regnew sPathRel spattr r
      | Some i \<Rightarrow>
          let fi = rg_item r i in
          if how = ALWAYS_TRY_SHARING \<or> fi_bCreateItemMustDisplace fi then share i r
          else if \<not> must_make_way cfg now how spattr fi \<and>
                  spa_bHeadOnly spattr \<noteq> spa_bHeadOnly (fi_spattr fi) \<and> \<not> spa_bHeadOnly (fi_spattr fi)
          then (case alloc_held ((fileitem_new sPathRel)\<lparr>fi_usercount := 1, fi_spattr := spattr\<lparr>spa_bNoStore := True\<rparr>\<rparr>) r of
                  (j, r1) \<Rightarrow> (Some j, r1))
          else if \<not> (must_make_way cfg now how spattr fi \<or>
                     spa_bHeadOnly spattr \<noteq> spa_bHeadOnly (fi_spattr fi) \<or>
                     spa_nRangeLimit spattr \<noteq> spa_nRangeLimit (fi_spattr fi))
          then share i r
          else
            displace cfg now le sPathRel spattr i r)"

text \<open>
  \<open>Create\<close> for an item made elsewhere. Without \<open>isShareable\<close> the holder refers to the item even if
  the path is taken; its user count is not increased then.
\<close>

definition Create_custom :: "fileitem \<Rightarrow> bool \<Rightarrow> registry \<Rightarrow> nat option \<times> registry" where
  "Create_custom fi isShareable r =
     (if fi_pathRel fi = [] then (None, r)
      else if rg_map r (fi_pathRel fi) \<noteq> None
      then (if isShareable then (None, r)
            else (case alloc_held fi r of (j, r1) \<Rightarrow> (Some j, r1)))
      else (case alloc_held (usercount_add 1 fi) r of
              (j, r1) \<Rightarrow>
                (Some j, r1\<lparr>rg_map := (rg_map r1)(fi_pathRel fi := Some j),
                            rg_owner := (rg_owner r1)(j := Some (fi_pathRel fi))\<rparr>)))"

text \<open>The expired entries at the front of the queue are released after the lock is given up.\<close>

definition reg_BackgroundCleanup :: "reg_cfg \<Rightarrow> bool \<Rightarrow> time_t \<Rightarrow> registry \<Rightarrow> time_t \<times> registry" where
  "reg_BackgroundCleanup cfg in_shutdown now r =
     (let q = rg_prolonged r;
          released = takeWhile (\<lambda>e. \<not> snd e > now) q;
          rest = dropWhile (\<lambda>e. \<not> snd e > now) q
      in if q = [] then (END_OF_TIME, r)
         else (if rest = [] then END_OF_TIME else snd (hd rest),
               fold (\<lambda>e. holder_dtor cfg in_shutdown now (fst e)) released (r\<lparr>rg_prolonged := rest\<rparr>)))"

section \<open>Invariant\<close>

definition holders :: "registry \<Rightarrow> nat \<Rightarrow> nat" where
  "holders r i = count_list (rg_clients r) i + count_list (map fst (rg_prolonged r)) i"

text \<open>\<open>pend\<close> are holders taken out of the lists whose destructor is still to run.\<close>

definition reg_inv :: "nat list \<Rightarrow> registry \<Rightarrow> bool" where
  "reg_inv pend r \<longleftrightarrow>
     (\<forall>p i. rg_map r p = Some i \<longleftrightarrow> rg_owner r i = Some p) \<and>
     (\<forall>i p. rg_owner r i = Some p \<longrightarrow>
        (\<exists>fi. rg_heap r i = Some fi \<and> fi_pathRel fi = p \<and> fi_usercount fi = int (holders r i + count_list pend i) \<and>
              holders r i + count_list pend i > 0)) \<and>
     (\<forall>i. holders r i + count_list pend i > 0 \<longrightarrow> rg_heap r i \<noteq> None) \<and>
     (\<forall>i. rg_heap r i \<noteq> None \<longrightarrow> i < rg_next r)"


lemma reg_invI:
  assumes "\<And>p i. rg_map r p = Some i \<longleftrightarrow> rg_owner r i = Some p"
    and "\<And>i p. rg_owner r i = Some p \<Longrightarrow> \<exists>fi. rg_heap r i = Some fi \<and> fi_pathRel fi = p \<and>
           fi_usercount fi = int (holders r i + count_list pend i) \<and> holders r i + count_list pend i > 0"
    and "\<And>i. holders r i + count_list pend i > 0 \<Longrightarrow> rg_heap r i \<noteq> None"
    and "\<And>i. rg_heap r i \<noteq> None \<Longrightarrow> i < rg_next r"
  shows "reg_inv pend r"
  using assms unfolding reg_inv_def by blast

lemma reg_invD:
  assumes "reg_inv pend r"
  shows "rg_map r p = Some i \<longleftrightarrow> rg_owner r i = Some p"
    and "rg_owner r i = Some p \<Longrightarrow> \<exists>fi. rg_heap r i = Some fi \<and> fi_pathRel fi = p \<and>
           fi_usercount fi = int (holders r i + count_list pend i) \<and> holders r i + count_list pend i > 0"
    and "holders r i + count_list pend i > 0 \<Longrightarrow> rg_heap r i \<noteq> None"
    and "rg_heap r i \<noteq> None \<Longrightarrow> i < rg_next r"
  using assms unfolding reg_inv_def by (blast, blast, metis, metis)

lemma rg_upd_simps [simp]:
  "rg_map (rg_upd i f r) = rg_map r" "rg_owner (rg_upd i f r) = rg_owner r" "rg_next (rg_upd i f r) = rg_next r"
  "rg_clients (rg_upd i f r) = rg_clients r" "rg_prolonged (rg_upd i f r) = rg_prolonged r" "rg_fs (rg_upd i f r) = rg_fs r"
  "rg_heap (rg_upd i f r) j = (if j = i then map_option f (rg_heap r i) else rg_heap r j)"
  "holders (rg_upd i f r) j = holders r j"
  by (simp_all add: rg_upd_def holders_def)

lemma usercount_simps [simp]:
  "fi_usercount (usercount_add d fi) = fi_usercount fi + d" "fi_pathRel (usercount_add d fi) = fi_pathRel fi"
  by (simp_all add: usercount_add_def)

lemma reg_inv_new: "reg_inv [] (registry_new fs)"
  by (auto intro: reg_invI simp: registry_new_def holders_def)

text \<open>Removing one pending holder, in the two ways the destructor ends without unregistering.\<close>

lemma reg_inv_count_down:
  assumes "reg_inv (i # pend) r" "rg_owner r i \<noteq> None \<longrightarrow> holders r i + count_list pend i > 0"
  shows "reg_inv pend (rg_upd i (usercount_add (-1)) r)"
proof (rule reg_invI)
  fix j p
  assume "rg_owner (rg_upd i (usercount_add (-1)) r) j = Some p"
  then have o: "rg_owner r j = Some p" by simp
  from reg_invD(2) [OF assms(1) o] show "\<exists>fi. rg_heap (rg_upd i (usercount_add (-1)) r) j = Some fi \<and> fi_pathRel fi = p \<and>
      fi_usercount fi = int (holders (rg_upd i (usercount_add (-1)) r) j + count_list pend j) \<and>
      holders (rg_upd i (usercount_add (-1)) r) j + count_list pend j > 0"
    using assms(2) o by (cases "j = i") auto
next
  fix j
  assume "holders (rg_upd i (usercount_add (-1)) r) j + count_list pend j > 0"
  then show "rg_heap (rg_upd i (usercount_add (-1)) r) j \<noteq> None"
    using reg_invD(3) [OF assms(1), of j] by auto
qed (use reg_invD(1,4) [OF assms(1)] in \<open>auto split: if_splits\<close>)

lemma reg_inv_unreg:
  assumes "reg_inv (i # pend) r"
  shows "reg_inv pend (Unreg i (rg_upd i f r))"
proof (cases "rg_owner r i")
  case None
  show ?thesis
  proof (rule reg_invI)
    fix j p
    assume "rg_owner (Unreg i (rg_upd i f r)) j = Some p"
    then have o: "rg_owner r j = Some p" "j \<noteq> i" using None by (auto simp: Unreg_def)
    from reg_invD(2) [OF assms o(1)] o(2) show "\<exists>fi. rg_heap (Unreg i (rg_upd i f r)) j = Some fi \<and> fi_pathRel fi = p \<and>
        fi_usercount fi = int (holders (Unreg i (rg_upd i f r)) j + count_list pend j) \<and>
        holders (Unreg i (rg_upd i f r)) j + count_list pend j > 0"
      using None by (simp add: Unreg_def)
  next
    fix j
    assume "holders (Unreg i (rg_upd i f r)) j + count_list pend j > 0"
    then show "rg_heap (Unreg i (rg_upd i f r)) j \<noteq> None"
      using reg_invD(3) [OF assms, of j] None by (auto simp: Unreg_def)
  qed (use reg_invD(1,4) [OF assms] None in \<open>auto simp: Unreg_def split: if_splits\<close>)
next
  case (Some k)
  let ?r = "(rg_upd i f r)\<lparr>rg_map := (rg_map r)(k := None), rg_owner := (rg_owner r)(i := None)\<rparr>"
  have e: "Unreg i (rg_upd i f r) = ?r" using Some by (simp add: Unreg_def)
  have h: "holders ?r j = holders r j" for j by (simp add: holders_def)
  show ?thesis unfolding e
  proof (rule reg_invI)
    fix p j
    note m = reg_invD(1) [OF assms]
    show "rg_map ?r p = Some j \<longleftrightarrow> rg_owner ?r j = Some p"
    proof (cases "p = k")
      case True
      have "rg_owner r j \<noteq> Some k" if "j \<noteq> i" using that m [of k i] m [of k j] Some by simp
      then show ?thesis using True by simp
    next
      case False
      have "rg_map r p \<noteq> Some i" using False m [of p i] Some by simp
      then show ?thesis using False m [of p j] Some by auto
    qed
  next
    fix j p
    assume "rg_owner ?r j = Some p"
    then have o: "rg_owner r j = Some p" "j \<noteq> i" by (auto split: if_splits)
    from reg_invD(2) [OF assms o(1)] o(2) show "\<exists>fi. rg_heap ?r j = Some fi \<and> fi_pathRel fi = p \<and>
        fi_usercount fi = int (holders ?r j + count_list pend j) \<and> holders ?r j + count_list pend j > 0"
      by (simp add: h)
  next
    fix j
    assume "holders ?r j + count_list pend j > 0"
    then show "rg_heap ?r j \<noteq> None" using reg_invD(3) [OF assms, of j] by (auto simp: h)
  qed (use reg_invD(4) [OF assms] in \<open>auto split: if_splits\<close>)
qed

lemma reg_inv_prolong:
  assumes "reg_inv (i # pend) r"
  shows "reg_inv pend (AddToProlongedQueue i t r)"
proof -
  have h: "holders (AddToProlongedQueue i t r) j + count_list pend j = holders r j + count_list (i # pend) j" for j
    by (simp add: holders_def AddToProlongedQueue_def Let_def)
  show ?thesis
    using assms unfolding reg_inv_def h by (simp add: AddToProlongedQueue_def Let_def)
qed

lemma rg_upd_comp: "rg_upd i g (rg_upd i f r) = rg_upd i (g \<circ> f) r"
  by (simp add: rg_upd_def option.map_comp)

lemma holder_dtor_inv:
  assumes "reg_inv (i # pend) r"
  shows "reg_inv pend (holder_dtor cfg sh now i r)"
proof -
  let ?r1 = "rg_upd i (usercount_add (-1)) r"
  obtain fi0 where f0: "rg_heap r i = Some fi0" using reg_invD(3) [OF assms, of i] by auto
  have item: "rg_item ?r1 i = usercount_add (-1) fi0" using f0 by (simp add: rg_item_def)
  have own: "fi_usercount fi0 = int (holders r i + count_list (i # pend) i)" if "rg_owner r i \<noteq> None"
    using that reg_invD(2) [OF assms, of i] f0 by auto
  have up: "rg_upd i (usercount_add 1) ?r1 = r"
    using f0 by (simp add: rg_upd_def usercount_add_def fun_upd_idem)
  show ?thesis
  proof (cases "fi_usercount fi0 - 1 > 0")
    case True
    then have "reg_inv pend ?r1" using own by (intro reg_inv_count_down [OF assms]) auto
    then show ?thesis using True by (simp add: holder_dtor_def Let_def item)
  next
    case False
    have un: "reg_inv pend (Unreg i (rg_upd i g ?r1))" "rg_owner r i = None \<Longrightarrow> reg_inv pend (rg_upd i g ?r1)" for g
      using reg_inv_unreg [OF assms, of "g \<circ> usercount_add (-1)"] by (simp_all add: rg_upd_comp Unreg_def)
    from False show ?thesis
      using reg_inv_prolong [OF assms] un by (auto simp: holder_dtor_def Let_def item up)
  qed
qed

lemma count_remove1: "i \<in> set xs \<Longrightarrow> count_list (remove1 i xs) j + count_list [i] j = count_list xs j"
  by (induction xs) auto

lemma release_pending:
  assumes "reg_inv [] r" "i \<in> set (rg_clients r)"
  shows "reg_inv [i] (r\<lparr>rg_clients := remove1 i (rg_clients r)\<rparr>)" (is "reg_inv [i] ?r")
proof -
  have h: "holders ?r j + count_list [i] j = holders r j + count_list [] j" for j
    using count_remove1 [OF assms(2), of j] by (simp add: holders_def)
  show ?thesis using assms(1) unfolding reg_inv_def h by simp
qed

lemma release_client_inv:
  assumes "reg_inv [] r" "i \<in> set (rg_clients r)"
  shows "reg_inv [] (release_client cfg sh now i r)"
  unfolding release_client_def by (rule holder_dtor_inv [OF release_pending [OF assms]])

lemma fold_holder_dtor_inv:
  "reg_inv (map fst es @ pend) r \<Longrightarrow> reg_inv pend (fold (\<lambda>e. holder_dtor cfg sh now (fst e)) es r)"
  by (induction es arbitrary: r) (simp_all add: holder_dtor_inv)

lemma cleanup_pending:
  assumes "reg_inv [] r"
  shows "reg_inv (map fst (takeWhile P (rg_prolonged r)) @ []) (r\<lparr>rg_prolonged := dropWhile P (rg_prolonged r)\<rparr>)"
    (is "reg_inv (map fst ?es @ []) ?r")
proof -
  have "count_list (map fst (rg_prolonged r)) j = count_list (map fst ?es) j + count_list (map fst (dropWhile P (rg_prolonged r))) j" for j
    by (metis count_list_append map_append takeWhile_dropWhile_id)
  then have h: "holders ?r j + count_list (map fst ?es @ []) j = holders r j" for j by (simp add: holders_def)
  show ?thesis using assms unfolding reg_inv_def h by simp
qed

lemma reg_BackgroundCleanup_inv:
  assumes "reg_inv [] r"
  shows "reg_inv [] (snd (reg_BackgroundCleanup cfg sh now r))"
  using assms fold_holder_dtor_inv [OF cleanup_pending [OF assms]]
  by (simp add: reg_BackgroundCleanup_def Let_def)

lemma alloc_held_inv:
  assumes "reg_inv [] r" "alloc_held fi r = (j, r1)"
  shows "reg_inv [] r1 \<and> j = rg_next r \<and> rg_heap r1 j = Some fi \<and> rg_owner r1 = rg_owner r \<and> rg_map r1 = rg_map r \<and>
    holders r1 j = 1 \<and> rg_owner r j = None"
proof -
  let ?n = "rg_next r"
  have r1: "r1 = r\<lparr>rg_heap := (rg_heap r)(?n := Some fi), rg_next := ?n + 1, rg_clients := ?n # rg_clients r\<rparr>" "j = ?n"
    using assms(2) by (auto simp: alloc_held_def)
  have fresh: "rg_heap r ?n = None" using reg_invD(4) [OF assms(1), of ?n] by (cases "rg_heap r ?n") auto
  have h0: "holders r ?n = 0" using reg_invD(3) [OF assms(1), of ?n] fresh by auto
  have o0: "rg_owner r ?n = None" using reg_invD(2) [OF assms(1), of ?n] fresh by (cases "rg_owner r ?n") auto
  have h: "holders r1 k = (if k = ?n then 1 else holders r k)" for k
    using h0 by (auto simp: r1 holders_def)
  have "reg_inv [] r1"
  proof (rule reg_invI)
    show "rg_map r1 p = Some i \<longleftrightarrow> rg_owner r1 i = Some p" for p i using reg_invD(1) [OF assms(1), of p i] by (simp add: r1)
    fix i p
    assume "rg_owner r1 i = Some p"
    then have o: "rg_owner r i = Some p" "i \<noteq> ?n" using o0 by (auto simp: r1)
    from reg_invD(2) [OF assms(1) o(1)] o(2) show "\<exists>fi. rg_heap r1 i = Some fi \<and> fi_pathRel fi = p \<and>
        fi_usercount fi = int (holders r1 i + count_list [] i) \<and> holders r1 i + count_list [] i > 0"
      by (simp add: h) (simp add: r1)
  next
    fix i
    assume "holders r1 i + count_list [] i > 0"
    then have "i = ?n \<or> holders r i > 0" by (auto simp: h split: if_splits)
    then show "rg_heap r1 i \<noteq> None" using reg_invD(3) [OF assms(1), of i] by (auto simp: r1)
  next
    fix i
    assume "rg_heap r1 i \<noteq> None"
    then show "i < rg_next r1" using reg_invD(4) [OF assms(1), of i] by (auto simp: r1 split: if_splits)
  qed
  then show ?thesis using o0 h by (simp add: r1)
qed

lemma register_inv:
  assumes "reg_inv [] r" "rg_map r p = None" "rg_owner r j = None" "rg_heap r j = Some fi" "fi_pathRel fi = p"
    "fi_usercount fi = 1" "holders r j = 1"
  shows "reg_inv [] (r\<lparr>rg_map := (rg_map r)(p := Some j), rg_owner := (rg_owner r)(j := Some p)\<rparr>)" (is "reg_inv [] ?r")
proof (rule reg_invI)
  have h: "holders ?r k = holders r k" for k by (simp add: holders_def)
  show "rg_map ?r q = Some i \<longleftrightarrow> rg_owner ?r i = Some q" for q i
    using reg_invD(1) [OF assms(1), of q i] assms(2,3) by auto
  fix i q
  assume "rg_owner ?r i = Some q"
  then show "\<exists>fi. rg_heap ?r i = Some fi \<and> fi_pathRel fi = q \<and>
      fi_usercount fi = int (holders ?r i + count_list [] i) \<and> holders ?r i + count_list [] i > 0"
    using reg_invD(2) [OF assms(1), of i q] assms(4-7) by (auto simp: h split: if_splits)
next
  show "holders ?r i + count_list [] i > 0 \<Longrightarrow> rg_heap ?r i \<noteq> None" for i
    using reg_invD(3) [OF assms(1), of i] by (simp add: holders_def)
  show "rg_heap ?r i \<noteq> None \<Longrightarrow> i < rg_next ?r" for i using reg_invD(4) [OF assms(1), of i] by simp
qed

lemma regnew_inv:
  assumes "reg_inv [] r" "rg_map r p = None" "regnew p a r = (res, r')"
  shows "reg_inv [] r' \<and> (\<exists>i. res = Some i \<and> rg_map r' p = Some i \<and> fi_spattr (rg_item r' i) = a \<and> fi_pathRel (rg_item r' i) = p)"
proof -
  let ?fi = "(fileitem_new p)\<lparr>fi_usercount := 1, fi_spattr := a\<rparr>"
  obtain i r1 where al: "alloc_held ?fi r = (i, r1)" by fastforce
  note a = alloc_held_inv [OF assms(1) al]
  have "reg_inv [] (r1\<lparr>rg_map := (rg_map r1)(p := Some i), rg_owner := (rg_owner r1)(i := Some p)\<rparr>)"
    using a assms(2) by (intro register_inv [where fi = ?fi]) (auto simp: fileitem_new_def)
  then show ?thesis using assms(3) al a by (auto simp: regnew_def rg_item_def fileitem_new_def)
qed

lemma share_inv:
  assumes "reg_inv [] r" "rg_owner r i \<noteq> None" "share i r = (res, r')"
  shows "reg_inv [] r' \<and> res = Some i \<and> rg_map r' = rg_map r \<and> fi_spattr (rg_item r' i) = fi_spattr (rg_item r i) \<and>
    fi_pathRel (rg_item r' i) = fi_pathRel (rg_item r i)"
proof -
  obtain p fi where o: "rg_owner r i = Some p" "rg_heap r i = Some fi" using assms(2) reg_invD(2) [OF assms(1), of i] by auto
  have r': "r' = rg_upd i (usercount_add 1) (r\<lparr>rg_clients := i # rg_clients r\<rparr>)" "res = Some i"
    using assms(3) by (auto simp: share_def)
  have h: "holders r' k = (if k = i then holders r k + 1 else holders r k)" for k by (simp add: r' holders_def)
  have "reg_inv [] r'"
  proof (rule reg_invI)
    show "rg_map r' q = Some j \<longleftrightarrow> rg_owner r' j = Some q" for q j using reg_invD(1) [OF assms(1), of q j] by (simp add: r')
    fix j q
    assume "rg_owner r' j = Some q"
    then have "rg_owner r j = Some q" by (simp add: r')
    from reg_invD(2) [OF assms(1) this] show "\<exists>fi. rg_heap r' j = Some fi \<and> fi_pathRel fi = q \<and>
        fi_usercount fi = int (holders r' j + count_list [] j) \<and> holders r' j + count_list [] j > 0"
      by (auto simp: h) (auto simp: r')
  next
    fix j
    assume "holders r' j + count_list [] j > 0"
    then have "j = i \<or> holders r j > 0" by (auto simp: h split: if_splits)
    then show "rg_heap r' j \<noteq> None" using reg_invD(3) [OF assms(1), of j] o by (auto simp: r')
  next
    fix j
    assume "rg_heap r' j \<noteq> None"
    then show "j < rg_next r'" using reg_invD(4) [OF assms(1), of j] by (auto simp: r' split: if_splits)
  qed
  then show ?thesis using o by (simp add: r' rg_item_def usercount_add_def)
qed

lemma reg_inv_fs: "reg_inv pend (r\<lparr>rg_fs := fs\<rparr>) = reg_inv pend r"
  by (simp add: reg_inv_def holders_def)

lemma abandon_inv:
  assumes "reg_inv [] r" "rg_map r p = Some i"
  shows "reg_inv [] ((rg_upd i f r)\<lparr>rg_owner := (rg_owner r)(i := None), rg_map := (rg_map r)(p := None)\<rparr>)" (is "reg_inv [] ?r")
proof -
  have o: "rg_owner r i = Some p" using reg_invD(1) [OF assms(1), of p i] assms(2) by simp
  have h: "holders ?r k = holders r k" for k by (simp add: holders_def)
  note m = reg_invD(1) [OF assms(1)]
  show ?thesis
  proof (rule reg_invI)
    fix q j
    show "rg_map ?r q = Some j \<longleftrightarrow> rg_owner ?r j = Some q"
      using m [of q j] m [of p j] assms(2) o by (cases "q = p"; cases "j = i") auto
  next
    fix j q
    assume "rg_owner ?r j = Some q"
    then have "rg_owner r j = Some q" "j \<noteq> i" by (auto split: if_splits)
    from reg_invD(2) [OF assms(1) this(1)] this(2) show "\<exists>fi. rg_heap ?r j = Some fi \<and> fi_pathRel fi = q \<and>
        fi_usercount fi = int (holders ?r j + count_list [] j) \<and> holders ?r j + count_list [] j > 0"
      by (simp add: h)
  next
    fix j
    assume "holders ?r j + count_list [] j > 0"
    then show "rg_heap ?r j \<noteq> None" using reg_invD(3) [OF assms(1), of j] by (auto simp: h)
  next
    fix j
    assume "rg_heap ?r j \<noteq> None"
    then show "j < rg_next ?r" using reg_invD(4) [OF assms(1), of j] by (auto split: if_splits)
  qed
qed

lemma abandon_replace_inv:
  assumes "reg_inv [] r" "rg_map r p = Some i" "abandon_replace ra p a i r = (res, r')"
  shows "reg_inv [] r' \<and> (\<exists>j. res = Some j \<and> rg_map r' p = Some j \<and> fi_spattr (rg_item r' j) = a \<and> fi_pathRel (rg_item r' j) = p)"
proof -
  let ?f = "\<lambda>fi. fi\<lparr>fi_pathRel := ra, fi_eDestroy := ABANDONED\<rparr>"
  let ?r2 = "(rg_upd i ?f r)\<lparr>rg_owner := (rg_owner r)(i := None), rg_map := (rg_map r)(p := None)\<rparr>"
  have "regnew p a ?r2 = (res, r')" using assms(3) by (simp add: abandon_replace_def Let_def)
  with abandon_inv [OF assms(1,2), of ?f] show ?thesis by (intro regnew_inv [where r = ?r2]) simp_all
qed


definition attr_compatible :: "tSpecialPurposeAttr \<Rightarrow> tSpecialPurposeAttr \<Rightarrow> bool" where
  "attr_compatible want got \<longleftrightarrow>
     (spa_bVolatile want \<longrightarrow> spa_bVolatile got) \<and> spa_bHeadOnly want = spa_bHeadOnly got \<and>
     spa_nRangeLimit want = spa_nRangeLimit got"

lemma displace_inv:
  assumes "reg_inv [] r" "rg_map r p = Some i" "displace cfg now le p a i r = (res, r')"
  shows "reg_inv [] r' \<and> (\<forall>j. res = Some j \<longrightarrow> rg_map r' p = Some j \<and> fi_spattr (rg_item r' j) = a \<and> fi_pathRel (rg_item r' j) = p)"
proof -
  have ab: "abandon_replace ra p a i (r\<lparr>rg_fs := fs\<rparr>) = (res, r') \<Longrightarrow> ?thesis" for ra fs
    using abandon_replace_inv [of "r\<lparr>rg_fs := fs\<rparr>" p i ra a res r'] assms(1,2) by (auto simp: reg_inv_fs)
  have ab0: "abandon_replace ra p a i r = (res, r') \<Longrightarrow> ?thesis" for ra
    using abandon_replace_inv [OF assms(1,2)] by auto
  show ?thesis
  proof (cases "fi_pathRel (rg_item r i) = []")
    case True
    then show ?thesis using assms by (auto simp: displace_def Let_def)
  next
    case False
    then show ?thesis using assms(1,3) ab ab0
      by (cases le) (auto simp: displace_def Let_def reg_inv_fs)
  qed
qed

text \<open>What every way out of \<open>Create\<close> guarantees.\<close>

lemma Create_inv:
  assumes "reg_inv [] r" "Create cfg now le path how a r = (res, r')"
  shows "reg_inv [] r' \<and> (\<forall>j. res = Some j \<longrightarrow>
    fi_pathRel (rg_item r' j) = NormalizePath (rc_stupidfs cfg) path \<and>
    (rg_map r' (NormalizePath (rc_stupidfs cfg) path) = Some j \<or> spa_bNoStore (fi_spattr (rg_item r' j))) \<and>
    (how \<noteq> ALWAYS_TRY_SHARING \<longrightarrow> attr_compatible a (fi_spattr (rg_item r' j)) \<or>
       (\<exists>fi. rg_heap r j = Some fi \<and> fi_bCreateItemMustDisplace fi)))"
proof -
  let ?p = "NormalizePath (rc_stupidfs cfg) path"
  show ?thesis
  proof (cases "rg_map r ?p")
    case None
    then have "regnew ?p a r = (res, r')" using assms(2) by (simp add: Create_def Let_def)
    from regnew_inv [OF assms(1) None this] show ?thesis by (auto simp: attr_compatible_def)
  next
    case (Some i)
    have o: "rg_owner r i = Some ?p" using reg_invD(1) [OF assms(1), of ?p i] Some by simp
    obtain fi where fi: "rg_heap r i = Some fi" "fi_pathRel fi = ?p" using reg_invD(2) [OF assms(1) o] by auto
    have it: "rg_item r i = fi" using fi by (simp add: rg_item_def)
    note E = assms(2) [unfolded Create_def Let_def Some option.case it]
    let ?hd = "spa_bHeadOnly a \<noteq> spa_bHeadOnly (fi_spattr fi)" and ?mw = "must_make_way cfg now how a fi"
      and ?rl = "spa_nRangeLimit a \<noteq> spa_nRangeLimit (fi_spattr fi)"
    consider (early) "how = ALWAYS_TRY_SHARING \<or> fi_bCreateItemMustDisplace fi"
      | (side) "\<not> (how = ALWAYS_TRY_SHARING \<or> fi_bCreateItemMustDisplace fi)" "\<not> ?mw \<and> ?hd \<and> \<not> spa_bHeadOnly (fi_spattr fi)"
      | (shared) "\<not> (how = ALWAYS_TRY_SHARING \<or> fi_bCreateItemMustDisplace fi)" "\<not> (\<not> ?mw \<and> ?hd \<and> \<not> spa_bHeadOnly (fi_spattr fi))"
          "\<not> (?mw \<or> ?hd \<or> ?rl)"
      | (move) "\<not> (how = ALWAYS_TRY_SHARING \<or> fi_bCreateItemMustDisplace fi)" "\<not> (\<not> ?mw \<and> ?hd \<and> \<not> spa_bHeadOnly (fi_spattr fi))"
          "?mw \<or> ?hd \<or> ?rl"
      by blast
    then show ?thesis
    proof cases
      case early
      then have "share i r = (res, r')" using E by simp
      from share_inv [OF assms(1) _ this] o early fi it Some show ?thesis by auto
    next
      case side
      let ?n = "(fileitem_new ?p)\<lparr>fi_usercount := 1, fi_spattr := a\<lparr>spa_bNoStore := True\<rparr>\<rparr>"
      obtain j r1 where al: "alloc_held ?n r = (j, r1)" by fastforce
      have "res = Some j" "r' = r1" using E side al by auto
      then show ?thesis using alloc_held_inv [OF assms(1) al] by (auto simp: rg_item_def fileitem_new_def attr_compatible_def)
    next
      case shared
      then have "share i r = (res, r')" using E by simp
      from share_inv [OF assms(1) _ this] o shared fi it Some show ?thesis
        by (auto simp: attr_compatible_def must_make_way_def)
    next
      case move
      have "displace cfg now le ?p a i r = (res, r')" using E move by (simp only: if_not_P if_False simp_thms)
      from displace_inv [OF assms(1) Some this] show ?thesis by (auto simp: attr_compatible_def)
    qed
  qed
qed

lemma Create_custom_inv:
  assumes "reg_inv [] r" "Create_custom fi sh r = (res, r')" "fi_usercount fi = 0"
  shows "reg_inv [] r'"
proof (cases "rg_map r (fi_pathRel fi) = None \<and> fi_pathRel fi \<noteq> []")
  case True
  obtain j r1 where al: "alloc_held (usercount_add 1 fi) r = (j, r1)" by fastforce
  note a = alloc_held_inv [OF assms(1) al]
  have "reg_inv [] (r1\<lparr>rg_map := (rg_map r1)(fi_pathRel fi := Some j), rg_owner := (rg_owner r1)(j := Some (fi_pathRel fi))\<rparr>)"
    using a True assms(3) by (intro register_inv [where fi = "usercount_add 1 fi"]) auto
  then show ?thesis using assms(2) True al by (auto simp: Create_custom_def)
next
  case False
  obtain j r1 where al: "alloc_held fi r = (j, r1)" by fastforce
  show ?thesis using assms(1,2) False al alloc_held_inv [OF assms(1) al] by (auto simp: Create_custom_def split: if_splits)
qed

section \<open>Runs of the registry\<close>

text \<open>
  Between the operations of the registry the holders of an item change it through its own
  operations (\<open>rs_item\<close>), which leave its path and its user count alone.
\<close>

inductive reg_step :: "registry \<Rightarrow> registry \<Rightarrow> bool" where
  rs_create: "Create cfg now le path how a r = (res, r') \<Longrightarrow> reg_step r r'"
| rs_custom: "fi_usercount fi = 0 \<Longrightarrow> Create_custom fi sh r = (res, r') \<Longrightarrow> reg_step r r'"
| rs_release: "i \<in> set (rg_clients r) \<Longrightarrow> reg_step r (release_client cfg sh now i r)"
| rs_cleanup: "reg_step r (snd (reg_BackgroundCleanup cfg sh now r))"
| rs_item: "(\<And>fi. fi_pathRel (f fi) = fi_pathRel fi \<and> fi_usercount (f fi) = fi_usercount fi) \<Longrightarrow>
    reg_step r (rg_upd i f r)"

definition reg_reach :: "registry \<Rightarrow> bool" where
  "reg_reach r \<longleftrightarrow> (\<exists>fs. reg_step\<^sup>*\<^sup>* (registry_new fs) r)"

lemma reg_inv_item:
  assumes "reg_inv pend r" "\<And>fi. fi_pathRel (f fi) = fi_pathRel fi \<and> fi_usercount (f fi) = fi_usercount fi"
  shows "reg_inv pend (rg_upd i f r)"
proof (rule reg_invI)
  fix j p
  assume "rg_owner (rg_upd i f r) j = Some p"
  then show "\<exists>fi. rg_heap (rg_upd i f r) j = Some fi \<and> fi_pathRel fi = p \<and>
      fi_usercount fi = int (holders (rg_upd i f r) j + count_list pend j) \<and> holders (rg_upd i f r) j + count_list pend j > 0"
    using reg_invD(2) [OF assms(1), of j p] assms(2) by auto
next
  fix j
  assume "holders (rg_upd i f r) j + count_list pend j > 0"
  then show "rg_heap (rg_upd i f r) j \<noteq> None" using reg_invD(3) [OF assms(1), of j] by auto
qed (use reg_invD(1,4) [OF assms(1)] in \<open>auto split: if_splits\<close>)

lemma reg_step_inv: "reg_step r r' \<Longrightarrow> reg_inv [] r \<Longrightarrow> reg_inv [] r'"
  by (induction rule: reg_step.induct)
    (auto dest: Create_inv Create_custom_inv intro: release_client_inv reg_BackgroundCleanup_inv reg_inv_item)

lemma reg_reach_inv: "reg_reach r \<Longrightarrow> reg_inv [] r"
proof -
  assume "reg_reach r"
  then obtain fs where "reg_step\<^sup>*\<^sup>* (registry_new fs) r" by (auto simp: reg_reach_def)
  then show ?thesis by (induction rule: rtranclp_induct) (auto intro: reg_inv_new reg_step_inv)
qed


definition reg_cfg_demo :: reg_cfg where
  "reg_cfg_demo = \<lparr>rc_stupidfs = False, rc_maxtempdelay = 27, rc_stucksecs = 500, rc_base = ''/c/''\<rparr>"


text \<open>
  The item that \<open>Create\<close> returns has the normalized path of the request; it is the one
  registered for that path, or it is marked as not to be stored; and unless the caller asks for
  sharing in any case, it is as volatile as requested, agrees with the request on HEAD and on the
  range limit, or it existed before and has \<open>m_bCreateItemMustDisplace\<close> set.
\<close>

theorem Create_returns_suitable_item:
  assumes "reg_reach r" "Create cfg now le path how a r = (Some j, r')"
  shows "fi_pathRel (rg_item r' j) = NormalizePath (rc_stupidfs cfg) path \<and>
    (rg_map r' (NormalizePath (rc_stupidfs cfg) path) = Some j \<or> spa_bNoStore (fi_spattr (rg_item r' j))) \<and>
    (how \<noteq> ALWAYS_TRY_SHARING \<longrightarrow> attr_compatible a (fi_spattr (rg_item r' j)) \<or>
       (\<exists>fi. rg_heap r j = Some fi \<and> fi_bCreateItemMustDisplace fi))"
  using Create_inv [OF reg_reach_inv [OF assms(1)] assms(2)] by blast

theorem Create_returns_suitable_item_witness:
  "let r0 = registry_new Map.empty;
       (res, r) = Create reg_cfg_demo 1000 LinkOk ''a//b'' AUTO_MOVE_OUT_OF_THE_WAY (spattr_default\<lparr>spa_bVolatile := True\<rparr>) r0 in
   res = Some 0 \<and> fi_pathRel (rg_item r 0) = NormalizePath False ''a//b'' \<and>
   attr_compatible (spattr_default\<lparr>spa_bVolatile := True\<rparr>) (fi_spattr (rg_item r 0))"
proof -
  let ?a = "spattr_default\<lparr>spa_bVolatile := True\<rparr>" and ?r0 = "registry_new Map.empty"
  define r where "r = snd (Create reg_cfg_demo 1000 LinkOk ''a//b'' AUTO_MOVE_OUT_OF_THE_WAY ?a ?r0)"
  have C: "Create reg_cfg_demo 1000 LinkOk ''a//b'' AUTO_MOVE_OUT_OF_THE_WAY ?a ?r0 = (Some 0, r)"
    by (simp add: r_def Create_def regnew_def alloc_held_def registry_new_def Let_def)
  have reach: "reg_reach ?r0" unfolding reg_reach_def by blast
  have n: "rg_heap ?r0 0 = None" "\<not> rc_stupidfs reg_cfg_demo" by (simp_all add: registry_new_def reg_cfg_demo_def)
  from Create_returns_suitable_item [OF reach C] show ?thesis unfolding Let_def C by (simp add: n)
qed

section \<open>The interface of the registry\<close>

text \<open>
  What the rest of the program relies on: a map from keys to items that counts users. \<open>users s k\<close>
  is the number of holders of clients for the item found under key \<open>k\<close>.
\<close>

locale user_counted_map =
  fixes inv :: "'s \<Rightarrow> bool"
    and norm :: "'e \<Rightarrow> 'p \<Rightarrow> 'k"
    and acquire :: "'e \<Rightarrow> 'p \<Rightarrow> 's \<Rightarrow> 'i option \<times> 's"
    and release :: "'e \<Rightarrow> 'i \<Rightarrow> 's \<Rightarrow> 's"
    and held :: "'s \<Rightarrow> 'i set"
    and look :: "'s \<Rightarrow> 'k \<Rightarrow> 'i option"
    and users :: "'s \<Rightarrow> 'k \<Rightarrow> nat"
  assumes acquire_inv: "inv s \<Longrightarrow> inv (snd (acquire e p s))"
    and acquire_look: "inv s \<Longrightarrow> look (snd (acquire e p s)) (norm e p) = fst (acquire e p s)"
    and acquire_keeps: "inv s \<Longrightarrow> look s k = Some i \<Longrightarrow> look (snd (acquire e p s)) k = Some i"
    and acquire_users: "inv s \<Longrightarrow> users (snd (acquire e p s)) = (users s)(norm e p := users s (norm e p) + 1)"
    and release_inv: "inv s \<Longrightarrow> i \<in> held s \<Longrightarrow> inv (release e i s)"
    and release_keeps: "inv s \<Longrightarrow> i \<in> held s \<Longrightarrow> look s k = Some j \<Longrightarrow> users (release e i s) k > 0 \<Longrightarrow>
           look (release e i s) k = Some j"
    and release_users: "inv s \<Longrightarrow> i \<in> held s \<Longrightarrow>
           users (release e i s) k = (if look s k = Some i then users s k - 1 else users s k)"
begin

definition op_step :: "'k \<Rightarrow> 's \<Rightarrow> 's \<Rightarrow> bool" where
  "op_step k s s' \<longleftrightarrow> users s' k > 0 \<and>
     ((\<exists>e p. s' = snd (acquire e p s)) \<or> (\<exists>e. \<exists>i \<in> held s. s' = release e i s))"

lemma op_step_keeps: "op_step k s s' \<Longrightarrow> inv s \<Longrightarrow> look s k = Some i \<Longrightarrow> inv s' \<and> look s' k = Some i"
  unfolding op_step_def using acquire_inv acquire_keeps release_inv release_keeps by blast

lemma same_item_while_used:
  assumes "(op_step k)\<^sup>*\<^sup>* s s'" "inv s" "look s k = Some i"
  shows "inv s' \<and> look s' k = Some i"
  using assms by (induction rule: rtranclp_induct) (auto dest: op_step_keeps)

lemma acquire_same_item:
  assumes "(op_step (norm e p))\<^sup>*\<^sup>* s s'" "inv s" "look s (norm e p) = Some i"
  shows "fst (acquire e p s') = Some i"
proof -
  note a = same_item_while_used [OF assms]
  from acquire_keeps [of s' "norm e p" i e p] acquire_look [of s' e p] a show ?thesis by simp
qed

end

definition reg_users :: "registry \<Rightarrow> string \<Rightarrow> nat" where
  "reg_users r p = (case rg_map r p of None \<Rightarrow> 0 | Some i \<Rightarrow> count_list (rg_clients r) i)"

record reg_env =
  re_cfg :: reg_cfg
  re_now :: time_t
  re_link :: link_env
  re_shutdown :: bool
  re_attr :: tSpecialPurposeAttr

abbreviation acquire_shared :: "reg_env \<Rightarrow> string \<Rightarrow> registry \<Rightarrow> nat option \<times> registry" where
  "acquire_shared e p \<equiv> Create (re_cfg e) (re_now e) (re_link e) p ALWAYS_TRY_SHARING (re_attr e)"

abbreviation release_held :: "reg_env \<Rightarrow> nat \<Rightarrow> registry \<Rightarrow> registry" where
  "release_held e \<equiv> release_client (re_cfg e) (re_shutdown e) (re_now e)"

abbreviation reg_norm :: "reg_env \<Rightarrow> string \<Rightarrow> string" where
  "reg_norm e \<equiv> NormalizePath (rc_stupidfs (re_cfg e))"

lemma acquire_shared_eq:
  "Create cfg now le p ALWAYS_TRY_SHARING a r =
     (case rg_map r (NormalizePath (rc_stupidfs cfg) p) of
        None \<Rightarrow> regnew (NormalizePath (rc_stupidfs cfg) p) a r | Some i \<Rightarrow> share i r)"
  by (simp add: Create_def Let_def split: option.split)

lemma clients_fresh: "reg_inv [] r \<Longrightarrow> count_list (rg_clients r) (rg_next r) = 0"
proof (rule ccontr)
  assume "reg_inv [] r" "count_list (rg_clients r) (rg_next r) \<noteq> 0"
  then show False using reg_invD(3,4) [of "[]" r "rg_next r"] by (simp add: holders_def)
qed

lemma map_fresh: "reg_inv [] r \<Longrightarrow> rg_map r p \<noteq> Some (rg_next r)"
  using reg_invD(1,2,4) by (metis less_irrefl option.distinct(1))

lemma acquire_users_eq:
  assumes "reg_inv [] r"
  shows "reg_users (snd (acquire_shared e p r)) = (reg_users r)(reg_norm e p := reg_users r (reg_norm e p) + 1)"
proof
  fix q
  note inj = reg_invD(1) [OF assms]
  have "i = j \<Longrightarrow> q = q'" if "rg_map r q = Some i" "rg_map r q' = Some j" for i j q q'
    using that inj by fastforce
  then show "reg_users (snd (acquire_shared e p r)) q = ((reg_users r)(reg_norm e p := reg_users r (reg_norm e p) + 1)) q"
    using clients_fresh [OF assms] map_fresh [OF assms, of q]
    by (auto simp: acquire_shared_eq reg_users_def regnew_def alloc_held_def share_def Let_def split: option.splits)
qed

lemma holder_dtor_client_frame:
  "rg_clients (holder_dtor cfg sh now i r) = rg_clients r"
  "j \<noteq> i \<Longrightarrow> rg_owner (holder_dtor cfg sh now i r) j = rg_owner r j"
  by (auto simp: holder_dtor_def Let_def AddToProlongedQueue_def Unreg_def split: option.splits)

text \<open>The destructor unregisters an item only if no holder is left.\<close>

lemma holder_dtor_owner:
  assumes "reg_inv (i # pend) r" "rg_owner r i = Some p"
  shows "rg_owner (holder_dtor cfg sh now i r) i = Some p \<or>
    rg_owner (holder_dtor cfg sh now i r) i = None \<and> holders r i + count_list pend i = 0"
proof -
  obtain fi where fi: "rg_heap r i = Some fi" "fi_usercount fi = int (holders r i + count_list (i # pend) i)"
    using reg_invD(2) [OF assms] by auto
  have item: "rg_item (rg_upd i (usercount_add (-1)) r) i = usercount_add (-1) fi" using fi by (simp add: rg_item_def)
  show ?thesis using fi assms(2)
    by (auto simp: holder_dtor_def Let_def item AddToProlongedQueue_def Unreg_def)
qed

lemma release_map:
  assumes inv: "reg_inv [] r" and i: "i \<in> set (rg_clients r)" and m: "rg_map r k = Some j"
  shows "rg_map (release_client cfg sh now i r) k = Some j \<or>
    rg_map (release_client cfg sh now i r) k = None \<and> j = i \<and> count_list (rg_clients r) i = 1"
proof -
  let ?r = "r\<lparr>rg_clients := remove1 i (rg_clients r)\<rparr>" and ?r' = "release_client cfg sh now i r"
  note inv' = release_client_inv [OF inv i, of cfg sh now]
  have o: "rg_owner r j = Some k" using reg_invD(1) [OF inv, of k j] m by simp
  show ?thesis
  proof (cases "j = i")
    case False
    then have "rg_owner ?r' j = Some k" using o by (simp add: release_client_def holder_dtor_client_frame)
    then show ?thesis using reg_invD(1) [OF inv', of k j] by simp
  next
    case True
    have "rg_owner ?r i = Some k" using o True by simp
    from holder_dtor_owner [OF release_pending [OF inv i] this, of cfg sh now]
    have d: "rg_owner ?r' i = Some k \<or> rg_owner ?r' i = None \<and> count_list (remove1 i (rg_clients r)) i = 0"
      by (auto simp: release_client_def holders_def)
    have "rg_map ?r' k = None" if none: "rg_owner ?r' i = None"
    proof (rule ccontr)
      assume "rg_map ?r' k \<noteq> None"
      then obtain l where l: "rg_owner ?r' l = Some k" using reg_invD(1) [OF inv', of k] by auto
      then have "l \<noteq> i" using none by auto
      then have "rg_owner r l = Some k" using l by (simp add: release_client_def holder_dtor_client_frame)
      then show False using reg_invD(1) [OF inv, of k l] m \<open>l \<noteq> i\<close> True by simp
    qed
    then show ?thesis using d reg_invD(1) [OF inv', of k i] True count_remove1 [OF i, of i] by auto
  qed
qed

lemma release_map_None:
  assumes inv: "reg_inv [] r" and i: "i \<in> set (rg_clients r)" and m: "rg_map r k = None"
  shows "rg_map (release_client cfg sh now i r) k = None"
proof (rule ccontr)
  let ?r' = "release_client cfg sh now i r"
  assume "rg_map ?r' k \<noteq> None"
  then obtain j where "rg_owner ?r' j = Some k" using reg_invD(1) [OF release_client_inv [OF inv i], of _ _ _ k] by auto
  moreover have "rg_owner ?r' j = Some k \<Longrightarrow> rg_owner r j = Some k"
    by (auto simp: release_client_def holder_dtor_def Let_def AddToProlongedQueue_def Unreg_def split: option.splits if_splits)
  ultimately show False using reg_invD(1) [OF inv, of k j] m by simp
qed

lemma release_users_eq:
  assumes "reg_inv [] r" "i \<in> set (rg_clients r)"
  shows "reg_users (release_client cfg sh now i r) k = (if rg_map r k = Some i then reg_users r k - 1 else reg_users r k)"
proof -
  have c: "rg_clients (release_client cfg sh now i r) = remove1 i (rg_clients r)"
    by (simp add: release_client_def holder_dtor_client_frame)
  have n: "count_list (remove1 i (rg_clients r)) j = count_list (rg_clients r) j - (if j = i then 1 else 0)" for j
    using count_remove1 [OF assms(2), of j] by auto
  show ?thesis
  proof (cases "rg_map r k")
    case None
    then show ?thesis using release_map_None [OF assms None] by (simp add: reg_users_def)
  next
    case (Some j)
    from release_map [OF assms Some, of cfg sh now] show ?thesis using Some by (auto simp: reg_users_def c n)
  qed
qed

interpretation reg: user_counted_map "reg_inv []" reg_norm acquire_shared release_held "\<lambda>r. set (rg_clients r)" rg_map reg_users
proof
  fix r :: registry and e p k i j
  assume inv: "reg_inv [] r"
  show "reg_inv [] (snd (acquire_shared e p r))" using Create_inv [OF inv surjective_pairing] by blast
  show "rg_map (snd (acquire_shared e p r)) (reg_norm e p) = fst (acquire_shared e p r)"
    by (auto simp: acquire_shared_eq regnew_def alloc_held_def share_def Let_def split: option.splits)
  show "rg_map (snd (acquire_shared e p r)) k = Some i" if "rg_map r k = Some i"
    using that by (auto simp: acquire_shared_eq regnew_def alloc_held_def share_def Let_def split: option.splits)
  show "reg_users (snd (acquire_shared e p r)) = (reg_users r)(reg_norm e p := reg_users r (reg_norm e p) + 1)"
    by (rule acquire_users_eq [OF inv])
  assume i: "i \<in> set (rg_clients r)"
  show "reg_inv [] (release_held e i r)" by (rule release_client_inv [OF inv i])
  show "rg_map (release_held e i r) k = Some j" if "rg_map r k = Some j" "reg_users (release_held e i r) k > 0"
    using release_map [OF inv i that(1), of "re_cfg e" "re_shutdown e" "re_now e"] that(2) by (auto simp: reg_users_def)
  show "reg_users (release_held e i r) k = (if rg_map r k = Some i then reg_users r k - 1 else reg_users r k)"
    by (rule release_users_eq [OF inv i])
qed



lemma holder_dtor_map:
  assumes inv: "reg_inv (i # pend) r"
  shows "rg_map (holder_dtor cfg sh now i r) k = rg_map r k \<or>
    rg_map r k = Some i \<and> rg_map (holder_dtor cfg sh now i r) k = None \<and> holders r i + count_list pend i = 0"
proof (cases "rg_owner r i")
  case None
  then show ?thesis by (auto simp: holder_dtor_def Let_def AddToProlongedQueue_def Unreg_def)
next
  case (Some p)
  have "rg_map (holder_dtor cfg sh now i r) k =
      (if rg_owner (holder_dtor cfg sh now i r) i = None \<and> k = p then None else rg_map r k)"
    using Some by (auto simp: holder_dtor_def Let_def AddToProlongedQueue_def Unreg_def)
  moreover have "rg_map r p = Some i" using reg_invD(1) [OF inv, of p i] Some by simp
  ultimately show ?thesis using holder_dtor_owner [OF inv Some, of cfg sh now] by auto
qed

lemma holder_dtor_users:
  assumes "reg_inv (i # pend) r"
  shows "reg_users (holder_dtor cfg sh now i r) = reg_users r"
proof
  fix k
  from holder_dtor_map [OF assms, of cfg sh now k] show "reg_users (holder_dtor cfg sh now i r) k = reg_users r k"
    by (auto simp: reg_users_def holder_dtor_client_frame holders_def split: option.splits)
qed

lemma fold_holder_dtor_users:
  "reg_inv (map fst es @ pend) r \<Longrightarrow> reg_users (fold (\<lambda>e. holder_dtor cfg sh now (fst e)) es r) = reg_users r"
  by (induction es arbitrary: r) (simp_all add: holder_dtor_inv holder_dtor_users)

lemma cleanup_users:
  assumes "reg_inv [] r"
  shows "reg_users (snd (reg_BackgroundCleanup cfg sh now r)) = reg_users r"
proof (cases "rg_prolonged r = []")
  case False
  let ?P = "\<lambda>e. \<not> snd e > now"
  let ?r = "r\<lparr>rg_prolonged := dropWhile ?P (rg_prolonged r)\<rparr>"
  let ?es = "takeWhile ?P (rg_prolonged r)"
  have "reg_inv (map fst ?es @ []) ?r" by (rule cleanup_pending [OF assms])
  from fold_holder_dtor_users [OF this, of cfg sh now]
  have "reg_users (fold (\<lambda>e. holder_dtor cfg sh now (fst e)) ?es ?r) = reg_users ?r" .
  also have "reg_users ?r = reg_users r" by (rule ext) (simp add: reg_users_def split: option.split)
  finally show ?thesis using False by (simp add: reg_BackgroundCleanup_def Let_def)
qed (simp add: reg_BackgroundCleanup_def Let_def)

text \<open>
  C28. The registry refines a table that counts the clients of each path: a shared request adds one
  to the entry of its path, the release of a holder takes one from the entry of the path whose
  registered item it held and changes no other, and the background cleanup changes none.
\<close>

theorem registry_refines_user_table:
  assumes "reg_reach r"
  shows "reg_users (snd (acquire_shared e p r)) = (reg_users r)(reg_norm e p := reg_users r (reg_norm e p) + 1) \<and>
    (\<forall>i \<in> set (rg_clients r). \<forall>k. reg_users (release_held e i r) k =
       (if rg_map r k = Some i then reg_users r k - 1 else reg_users r k)) \<and>
    reg_users (snd (reg_BackgroundCleanup cfg sh now r)) = reg_users r"
proof -
  note inv = reg_reach_inv [OF assms]
  show ?thesis using reg.acquire_users [OF inv] reg.release_users [OF inv] cleanup_users [OF inv] by blast
qed

theorem registry_refines_user_table_witness:
  "let e = \<lparr>re_cfg = reg_cfg_demo, re_now = 1000, re_link = LinkOk, re_shutdown = False, re_attr = spattr_default\<rparr>;
       r1 = snd (acquire_shared e ''a'' (registry_new Map.empty))
   in reg_users r1 ''a'' = 1 \<and> reg_users (release_held e 0 r1) ''a'' = 0"
proof -
  define e where "e = \<lparr>re_cfg = reg_cfg_demo, re_now = 1000, re_link = LinkOk, re_shutdown = False, re_attr = spattr_default\<rparr>"
  define r1 where "r1 = snd (acquire_shared e ''a'' (registry_new Map.empty))"
  have "reg_step (registry_new Map.empty) r1" unfolding r1_def by (rule rs_create) (rule surjective_pairing)
  then have reach: "reg_reach r1" unfolding reg_reach_def by blast
  have m: "rg_map r1 ''a'' = Some 0" "0 \<in> set (rg_clients r1)" "reg_users r1 ''a'' = 1" unfolding r1_def e_def by code_simp+
  from registry_refines_user_table [OF reach, where e = e and p = "''a''"] m show ?thesis
    unfolding Let_def e_def r1_def by simp
qed

text \<open>
  C30. The precedence of \<open>?:\<close> in the expiration date of a released item: whenever the download
  started, as always, not in the future, the computed date is its start and lies in the past, so
  that the item is never put into the queue that should keep it ready for some time.
\<close>

theorem released_item_not_prolonged:
  assumes "rg_heap r i = Some fi" "0 < fi_nTimeDlStarted fi" "fi_nTimeDlStarted fi \<le> now" "0 < rc_maxtempdelay cfg"
  shows "rg_prolonged (holder_dtor cfg sh now i r) = rg_prolonged r"
  using assms
  by (auto simp: holder_dtor_def Let_def rg_item_def usercount_add_def Unreg_def split: option.splits)

theorem released_item_not_prolonged_witness:
  "let fi = (fileitem_new ''a'')\<lparr>fi_usercount := 1, fi_status := FIST_COMPLETE, fi_nTimeDlStarted := 995,
              fi_spattr := spattr_default\<lparr>spa_bVolatile := True\<rparr>\<rparr>;
       r = (registry_new Map.empty)\<lparr>rg_heap := [0 \<mapsto> fi], rg_map := [''a'' \<mapsto> 0], rg_owner := [0 \<mapsto> ''a''], rg_next := 1\<rparr>
   in rg_prolonged (holder_dtor reg_cfg_demo False 1000 0 r) = []"
proof -
  define fi where "fi = (fileitem_new ''a'')\<lparr>fi_usercount := 1, fi_status := FIST_COMPLETE, fi_nTimeDlStarted := 995,
              fi_spattr := spattr_default\<lparr>spa_bVolatile := True\<rparr>\<rparr>"
  define r where "r = (registry_new Map.empty)\<lparr>rg_heap := [0 \<mapsto> fi], rg_map := [''a'' \<mapsto> 0], rg_owner := [0 \<mapsto> ''a''], rg_next := 1\<rparr>"
  have "rg_heap r 0 = Some fi" "rg_prolonged r = []" by (simp_all add: r_def registry_new_def)
  with released_item_not_prolonged [of r 0 fi 1000 reg_cfg_demo False] show ?thesis
    by (simp add: Let_def fi_def r_def reg_cfg_demo_def)
qed

end
