(* ===== verification/DlJob.thy ===== *)
theory DlJob
  imports Registry HttpUrl Header
begin

text \<open>
  \<open>src/dlcon.cc\<close>, \<open>struct tDlJob\<close>: one download. The job chooses a source, writes the request,
  and consumes the bytes of the response: head, body of known length or chunked body, which it
  hands to the file item. The loop of \<open>ProcessIncomming\<close> is \<open>dl_step\<close>, iterated with fuel;
  \<open>ProcessIncomming_returns\<close> shows that the fuel used is always enough.

  The input buffer is represented by its contents (\<open>ab_view\<close>), on which \<open>acbuf::drop\<close> is \<open>drop\<close>.
  \<open>DlAddData\<close> is a virtual method; the field \<open>de_add\<close> of the environment stands for the method of
  the class of the item together with the results of its system calls. \<open>m_nRest\<close> only gets
  values that are not negative and is a natural number.
\<close>

section \<open>Data\<close>

datatype EStreamState = STATE_GETHEADER | STATE_PROCESS_DATA | STATE_GETCHUNKHEAD
  | STATE_PROCESS_CHUNKDATA | STATE_GET_CHUNKTRAILER | STATE_FINISHJOB

datatype EResponseEval = GOOD | BUSY_OR_ERROR | RESTART_NEEDED

type_synonym hints = "32 word"

definition HINT_MORE :: hints where "HINT_MORE = 0"
definition HINT_DONE :: hints where "HINT_DONE = 1"
definition HINT_RECONNECT_NOW :: hints where "HINT_RECONNECT_NOW = 2"
definition EFLAG_JOB_BROKEN :: hints where "EFLAG_JOB_BROKEN = 4"
definition EFLAG_MIRROR_BROKEN :: hints where "EFLAG_MIRROR_BROKEN = 8"
definition EFLAG_STORE_COLLISION :: hints where "EFLAG_STORE_COLLISION = 16"
definition HINT_SWITCH :: hints where "HINT_SWITCH = 32"
definition EFLAG_LOST_CON :: hints where "EFLAG_LOST_CON = 64"
definition HINT_KILL_LAST_FILE :: hints where "HINT_KILL_LAST_FILE = 128"
definition HINT_TGTCHANGE :: hints where "HINT_TGTCHANGE = 256"
definition HINT_RECONNECT_SOON :: hints where "HINT_RECONNECT_SOON = 512"

named_theorems hint_defs "values of the result flags"

lemmas [hint_defs] = HINT_MORE_def HINT_DONE_def HINT_RECONNECT_NOW_def EFLAG_JOB_BROKEN_def EFLAG_MIRROR_BROKEN_def
  EFLAG_STORE_COLLISION_def HINT_SWITCH_def EFLAG_LOST_CON_def HINT_KILL_LAST_FILE_def HINT_TGTCHANGE_def HINT_RECONNECT_SOON_def

definition FAKEDATEMARK :: string where "FAKEDATEMARK = ''Sat, 26 Apr 1986 01:23:39 GMT''"

text \<open>The parts of \<open>tRepoData\<close> that a job uses, and the configuration values.\<close>

record tRepoData =
  rd_backends :: "tHttpUrl list"
  rd_keyfiles :: "string list"
  rd_deltasrc :: tHttpUrl
  rd_pProxy :: "tHttpUrl option"

record dl_cfg =
  dc_redirmax :: int
  dc_badredmime :: string
  dc_vrangeops :: int
  dc_persistoutgoing :: bool
  dc_agentheader :: string
  dc_requestapx :: string

record dl_env =
  de_cfg :: dl_cfg
  de_base :: string
  de_mk :: "tm \<Rightarrow> time_t"
  de_now :: time_t
  de_head_ok :: bool
  de_after :: string
  de_add :: "string \<Rightarrow> fileitem \<Rightarrow> fsys \<Rightarrow> add_result"

record tDlJob =
  dj_DlState :: EStreamState
  dj_pRepoDesc :: "tRepoData option"
  dj_extraHeaders :: string
  dj_remoteUri :: tHttpUrl
  dj_pCurBackend :: "tHttpUrl option"
  dj_bBackendMode :: bool
  dj_bIsPassThroughRequest :: bool
  dj_bAllowStoreData :: bool
  dj_bFileItemAssigned :: bool
  dj_nRedirRemaining :: int
  dj_fiAttr :: tSpecialPurposeAttr
  dj_nRest :: nat
  dj_nUsedRangeStartPos :: off_t
  dj_sErrorMsg :: string

definition tDlJob_init :: "dl_cfg \<Rightarrow> tSpecialPurposeAttr \<Rightarrow> bool \<Rightarrow> string \<Rightarrow> tDlJob" where
  "tDlJob_init cfg attr isPT extraHeaders =
     \<lparr>dj_DlState = STATE_GETHEADER, dj_pRepoDesc = None, dj_extraHeaders = extraHeaders,
      dj_remoteUri = url_clear, dj_pCurBackend = None, dj_bBackendMode = False,
      dj_bIsPassThroughRequest = isPT, dj_bAllowStoreData = True, dj_bFileItemAssigned = False,
      dj_nRedirRemaining = dc_redirmax cfg, dj_fiAttr = attr, dj_nRest = 0,
      dj_nUsedRangeStartPos = -1, dj_sErrorMsg = []\<rparr>"

text \<open>The constructors also register the job as a downloader with the item.\<close>

definition tDlJob_url :: "dl_cfg \<Rightarrow> fileitem \<Rightarrow> tHttpUrl \<Rightarrow> bool \<Rightarrow> string \<Rightarrow> tDlJob \<times> fileitem" where
  "tDlJob_url cfg fi src isPT extraHeaders =
     ((tDlJob_init cfg (fi_spattr fi) isPT extraHeaders)\<lparr>dj_remoteUri := src\<rparr>, DlRefCountAdd fi)"

definition tDlJob_repo ::
  "dl_cfg \<Rightarrow> fileitem \<Rightarrow> string \<Rightarrow> tRepoData option \<Rightarrow> bool \<Rightarrow> string \<Rightarrow> tDlJob \<times> fileitem" where
  "tDlJob_repo cfg fi sRestPath repodata isPT extraHeaders =
     ((tDlJob_init cfg (fi_spattr fi) isPT extraHeaders)
        \<lparr>dj_remoteUri := url_clear\<lparr>sPath := sRestPath\<rparr>, dj_pRepoDesc := repodata, dj_bBackendMode := True\<rparr>,
      DlRefCountAdd fi)"

definition tDlJob_dtor :: "tDlJob \<Rightarrow> fileitem \<Rightarrow> fileitem" where
  "tDlJob_dtor j fi =
     DlRefCountDec \<lparr>st_code = 503, st_msg = (if dj_sErrorMsg j = [] then ''Download Expired'' else dj_sErrorMsg j)\<rparr> fi"

definition HasBrokenStorage :: "fileitem option \<Rightarrow> bool" where
  "HasBrokenStorage st \<longleftrightarrow> (case st of None \<Rightarrow> True | Some fi \<Rightarrow> fi_status fi > FIST_COMPLETE)"

definition GetPeerHost :: "tDlJob \<Rightarrow> tHttpUrl" where
  "GetPeerHost j = (case dj_pCurBackend j of Some b \<Rightarrow> b | None \<Rightarrow> dj_remoteUri j)"

definition ResetStreamState :: "tDlJob \<Rightarrow> tDlJob" where
  "ResetStreamState j = j\<lparr>dj_nRest := 0, dj_DlState := STATE_GETHEADER, dj_nUsedRangeStartPos := -1\<rparr>"

definition RemoteUri :: "tDlJob \<Rightarrow> bool \<Rightarrow> string" where
  "RemoteUri j bUrlEncoded =
     (case dj_pCurBackend j of
        Some b \<Rightarrow> ToURI b bUrlEncoded False @
          (if bUrlEncoded then UrlEscape (sPath (dj_remoteUri j)) else sPath (dj_remoteUri j))
      | None \<Rightarrow> ToURI (dj_remoteUri j) bUrlEncoded False)"

section \<open>Choice of the source\<close>

text \<open>
  \<open>RewriteSource\<close>; \<open>None\<close> where the URL parser reads outside of a string. The backend pointer
  refers to a constant, so that \<open>move\<close> copies.
\<close>

definition rel_base :: "string \<Rightarrow> string" where
  "rel_base p = (case rfind_chr p (CHR ''/'') of None \<Rightarrow> ''/'' | Some i \<Rightarrow> take (i + 1) p)"

definition redirect_rel :: "string \<Rightarrow> tDlJob \<Rightarrow> tDlJob" where
  "redirect_rel loc j = j\<lparr>dj_remoteUri := (dj_remoteUri j)\<lparr>sPath := rel_base (sPath (dj_remoteUri j)) @ loc\<rparr>\<rparr>"

definition RewriteSource :: "string option \<Rightarrow> tDlJob \<Rightarrow> (bool \<times> tDlJob) option" where
  "RewriteSource pNewUrl j0 =
     (let j = j0\<lparr>dj_nRedirRemaining := dj_nRedirRemaining j0 - 1\<rparr> in
      if dj_nRedirRemaining j \<le> 0 then Some (False, j\<lparr>dj_sErrorMsg := ''Redirection loop''\<rparr>)
      else case pNewUrl of
        None \<Rightarrow> Some (False, j\<lparr>dj_sErrorMsg := ''Bad redirection''\<rparr>)
      | Some u \<Rightarrow>
          if c_str u = [] then Some (False, j\<lparr>dj_sErrorMsg := ''Bad redirection''\<rparr>)
          else
            let loc = UrlUnescape (c_str u);
                is_abs_path = startsWith loc ''/'' in
            case (if is_abs_path then Some (False, url_clear) else SetHttpUrl loc False) of
              None \<Rightarrow> None
            | Some (is_url, newUri) \<Rightarrow>
                if is_url
                then Some (True, j\<lparr>dj_bBackendMode := False, dj_pCurBackend := None, dj_remoteUri := newUri\<rparr>)
                else if dj_bBackendMode j
                then (case dj_pCurBackend j of
                        None \<Rightarrow> Some (False, j\<lparr>dj_sErrorMsg := ''Bad redirection target in backend mode''\<rparr>)
                      | Some b \<Rightarrow>
                          if is_abs_path
                          then Some (True, j\<lparr>dj_bBackendMode := False, dj_remoteUri := b\<lparr>sPath := loc\<rparr>\<rparr>)
                          else Some (True, redirect_rel loc
                                 (j\<lparr>dj_bBackendMode := False,
                                    dj_remoteUri := b\<lparr>sPath := sPath b @ sPath (dj_remoteUri j)\<rparr>\<rparr>)))
                else if is_abs_path
                then Some (True, j\<lparr>dj_remoteUri := (dj_remoteUri j)\<lparr>sPath := loc\<rparr>\<rparr>)
                else Some (True, redirect_rel loc j))"

text \<open>The blacklist maps host keys to the reason; the scan over the backends keeps the first reason.\<close>

fun find_backend :: "(string \<Rightarrow> string option) \<Rightarrow> tHttpUrl list \<Rightarrow> string \<Rightarrow> tHttpUrl option \<times> string" where
  "find_backend blacklist [] reason = (None, reason)"
| "find_backend blacklist (b # bs) reason =
     (case blacklist (GetHostPortKey b) of
        None \<Rightarrow> (Some b, reason)
      | Some msg \<Rightarrow> find_backend blacklist bs (if reason = [] then msg else reason))"

definition SetupJobConfig :: "(string \<Rightarrow> string option) \<Rightarrow> string \<Rightarrow> tDlJob \<Rightarrow> bool \<times> string \<times> tDlJob" where
  "SetupJobConfig blacklist sReasonMsg j =
     (if dj_bBackendMode j then
        (if (case dj_pCurBackend j of Some b \<Rightarrow> blacklist (GetHostPortKey b) = None | None \<Rightarrow> False)
         then (True, sReasonMsg, j)
         else case find_backend blacklist (case dj_pRepoDesc j of Some d \<Rightarrow> rd_backends d | None \<Rightarrow> []) sReasonMsg of
                (Some b, reason) \<Rightarrow> (True, reason, j\<lparr>dj_pCurBackend := Some b\<rparr>)
              | (None, reason) \<Rightarrow>
                  (False, if reason = [] then ''Mirror blocked due to repeated errors'' else reason, j))
      else case blacklist (GetHostPortKey (GetPeerHost j)) of
             None \<Rightarrow> (True, sReasonMsg, j)
           | Some msg \<Rightarrow> (False, msg, j))"

section \<open>The request\<close>

definition auth_line :: "string \<Rightarrow> tHttpUrl \<Rightarrow> string" where
  "auth_line name u = (if sUserPass u = [] then [] else name @ '': Basic '' @ EncodeBase64Auth (sUserPass u) @ svRN)"

text \<open>The position to resume from, and the limit of the range.\<close>

definition range_start :: "dl_cfg \<Rightarrow> tSpecialPurposeAttr \<Rightarrow> fileitem \<Rightarrow> off_t" where
  "range_start cfg attr fi =
     (let p0 = (if fi_sizeChecked fi \<ge> 0 then fi_sizeChecked fi else fi_sizeCachedInitial fi);
          p1 = (if p0 < -1 then -1 else p0);
          p2 = (if dc_vrangeops cfg \<le> 0 then -1
                else if p1 = fi_contentLength fi \<and> p1 > 1 then p1 - 1 else p1)
      in if spa_bVolatile attr
         then (if \<not> date_isSet (fi_responseModDate fi) then -1 else p2)
         else p1)"

definition range_limit :: "off_t \<Rightarrow> off_t \<Rightarrow> off_t" where
  "range_limit pos lim =
     (if lim \<ge> 0 then (if pos < 0 then 0 else if lim < pos then -1 else lim) else lim)"

definition range_lines :: "fileitem \<Rightarrow> off_t \<Rightarrow> off_t \<Rightarrow> string" where
  "range_lines fi pos lim =
     (if pos > 0
      then (if date_isSet (fi_responseModDate fi) then ''If-Range: '' @ date_view (fi_responseModDate fi) @ svRN else []) @
           ''Range: bytes='' @ int_str pos @ ''-'' @ (if lim > 0 then int_str lim else []) @ svRN
      else [])"

definition request_target :: "tDlJob \<Rightarrow> bool \<Rightarrow> string" where
  "request_target j viaProxy =
     (if viaProxy then RemoteUri j True
      else (case dj_pCurBackend j of Some b \<Rightarrow> UrlEscape (sPath b) | None \<Rightarrow> []) @ UrlEscape (sPath (dj_remoteUri j)))"

definition AppendRequest :: "dl_cfg \<Rightarrow> string \<Rightarrow> tHttpUrl option \<Rightarrow> fileitem \<Rightarrow> tDlJob \<Rightarrow> string \<times> tDlJob" where
  "AppendRequest cfg head0 proxy fi j =
     (let attr = dj_fiAttr j;
          pos = range_start cfg attr fi;
          lim = range_limit pos (spa_nRangeLimit attr);
          keep = (if dc_persistoutgoing cfg then ''keep-alive'' @ svRN else ''close'' @ svRN)
      in (head0 @ (if spa_bHeadOnly attr then ''HEAD '' else ''GET '') @ request_target j (proxy \<noteq> None) @
          '' HTTP/1.1'' @ svRN @ dc_agentheader cfg @ ''Host: '' @ sHost (GetPeerHost j) @ svRN @
          (case proxy of
             None \<Rightarrow> []
           | Some p \<Rightarrow> auth_line ''Proxy-Authorization'' p @ ''Proxy-Connection: '' @ keep) @
          auth_line ''Authorization'' (GetPeerHost j) @
          range_lines fi pos lim @
          (if spa_bVolatile (fi_spattr fi) then ''Cache-Control: max-age=0'' @ svRN else []) @
          dc_requestapx cfg @ dj_extraHeaders j @ ''Accept: application/octet-stream'' @ svRN @
          (if dj_bIsPassThroughRequest j then []
           else ''Accept-Encoding: identity'' @ svRN @ ''Connection: '' @ keep) @ svRN,
          j\<lparr>dj_bAllowStoreData := \<not> spa_bHeadOnly attr, dj_nUsedRangeStartPos := pos,
             dj_fiAttr := attr\<lparr>spa_nRangeLimit := lim\<rparr>\<rparr>))"

section \<open>The response\<close>

text \<open>
  The regular expression \<open>bytes(\s*|=)(\d+)-(\d+|\*)/(\d+|\*)\<close> at the beginning of a string: the
  texts that start with the second and with the fourth group. No choice of the expression leaves
  another way to match.
\<close>

definition skip_num_or_star :: "string \<Rightarrow> string option" where
  "skip_num_or_star s =
     (if s = [] then None else if isdigit (hd s) then Some (dropWhile isdigit s)
      else if hd s = CHR ''*'' then Some (tl s) else None)"

definition content_range_at :: "string \<Rightarrow> (string \<times> string) option" where
  "content_range_at s =
     (if take 5 s \<noteq> ''bytes'' then None
      else
        let r = drop 5 s; r1 = dropWhile isspace r;
            g2 = (if r1 \<noteq> [] \<and> isdigit (hd r1) then r1
                  else if r \<noteq> [] \<and> hd r = CHR ''='' then tl r else []);
            r2 = dropWhile isdigit g2
        in if g2 = [] \<or> \<not> isdigit (hd g2) \<or> r2 = [] \<or> hd r2 \<noteq> CHR ''-'' then None
           else case skip_num_or_star (tl r2) of
                  None \<Rightarrow> None
                | Some r3 \<Rightarrow>
                    if r3 = [] \<or> hd r3 \<noteq> CHR ''/'' \<or> skip_num_or_star (tl r3) = None then None
                    else Some (g2, tl r3))"

fun content_range_search :: "string \<Rightarrow> (string \<times> string) option" where
  "content_range_search [] = None"
| "content_range_search (c # cs) =
     (case content_range_at (c # cs) of Some r \<Rightarrow> Some r | None \<Rightarrow> content_range_search cs)"

definition mark_assigned :: "time_t \<Rightarrow> tDlJob \<Rightarrow> fileitem \<Rightarrow> tDlJob \<times> fileitem" where
  "mark_assigned now j fi = (j\<lparr>dj_bFileItemAssigned := True\<rparr>, fi\<lparr>fi_nTimeDlStarted := now\<rparr>)"

definition job_withError ::
  "time_t \<Rightarrow> string \<Rightarrow> EDestroyMode \<Rightarrow> tDlJob \<Rightarrow> fileitem \<Rightarrow> fsys \<Rightarrow> EResponseEval \<times> tDlJob \<times> fileitem \<times> fsys" where
  "job_withError now message destruction j fi fs =
     (let (j1, fi1) = mark_assigned now (j\<lparr>dj_bAllowStoreData := False\<rparr>) fi
      in (BUSY_OR_ERROR, j1, DlSetError \<lparr>st_code = 503, st_msg = message\<rparr> destruction fi1, fs))"

text \<open>The end of \<open>CheckAndSaveHeader\<close> for a response that is accepted.\<close>

definition start_storing ::
  "dl_env \<Rightarrow> header \<Rightarrow> nat \<Rightarrow> off_t \<Rightarrow> string \<Rightarrow> tDlJob \<Rightarrow> fileitem \<Rightarrow> fsys \<Rightarrow> EResponseEval \<times> tDlJob \<times> fileitem \<times> fsys" where
  "start_storing env h rawLen contLen sLocation j fi fs =
     (let (j1, fi1) = mark_assigned (de_now env) j fi;
          (ok, fi2) = DlStarted (de_mk env) rawLen (tHttpDate_cstr (hdr_h h LAST_MODIFIED) False)
                        (if sLocation = [] then RemoteUri j1 False else sLocation) (hdr_status h)
                        (dj_nUsedRangeStartPos j1) contLen fi1
      in if \<not> ok then (BUSY_OR_ERROR, j1, fi2, fs)
         else if \<not> dj_bAllowStoreData j1
         then (let (fi3, fs3) = DlFinish (de_base env) (de_head_ok env) True fi2 fs in (GOOD, j1, fi3, fs3))
         else (GOOD, j1, fi2, fs))"

definition is_probe_result :: "(tm \<Rightarrow> time_t) \<Rightarrow> header \<Rightarrow> off_t \<Rightarrow> off_t \<Rightarrow> fileitem \<Rightarrow> bool" where
  "is_probe_result mk h contLen startPos fi \<longleftrightarrow>
     spa_bVolatile (fi_spattr fi) \<and> fi_sizeCachedInitial fi > 0 \<and> contLen = fi_sizeCachedInitial fi \<and>
     fi_sizeCachedInitial fi - 1 = startPos \<and> date_eq_cstr mk (fi_responseModDate fi) (hdr_h h LAST_MODIFIED)"

text \<open>The answer 206.\<close>

definition partial_response ::
  "dl_env \<Rightarrow> header \<Rightarrow> nat \<Rightarrow> tDlJob \<Rightarrow> fileitem \<Rightarrow> fsys \<Rightarrow> EResponseEval \<times> tDlJob \<times> fileitem \<times> fsys" where
  "partial_response env h rawLen j fi fs =
     (case hdr_h h CONTENT_RANGE of
        None \<Rightarrow> job_withError (de_now env) ''Missing Content-Range in Partial Response'' KEEP j fi fs
      | Some p \<Rightarrow>
          (case content_range_search (c_str p) of
             None \<Rightarrow> job_withError (de_now env) ''Bad range'' KEEP j fi fs
           | Some (g2, g4) \<Rightarrow>
               let contLen = atoofft g4; startPos = atoofft g2 in
               if is_probe_result (de_mk env) h contLen startPos fi
               then (let (j1, fi1) = mark_assigned (de_now env) (j\<lparr>dj_bAllowStoreData := False\<rparr>) fi;
                         fi2 = fi1\<lparr>fi_sizeChecked := fi_sizeCachedInitial fi1, fi_contentLength := fi_sizeCachedInitial fi1\<rparr>;
                         (fi3, fs3) = DlFinish (de_base env) (de_head_ok env) True fi2 fs
                     in (GOOD, j1, fi3, fs3))
               else if startPos = -1 \<or> dj_nUsedRangeStartPos j \<noteq> startPos \<or> startPos < fi_sizeCachedInitial fi
               then job_withError (de_now env) ''Server reports unexpected range'' KEEP j fi fs
               else start_storing env (setStatus 200 ''OK'' h) rawLen contLen [] j fi fs))"

definition CheckAndSaveHeader ::
  "dl_env \<Rightarrow> header \<Rightarrow> nat \<Rightarrow> off_t \<Rightarrow> tDlJob \<Rightarrow> fileitem \<Rightarrow> fsys \<Rightarrow> EResponseEval \<times> tDlJob \<times> fileitem \<times> fsys" where
  "CheckAndSaveHeader env h rawLen contLen j fi0 fs =
     (let fi = fi0\<lparr>fi_nIncommingCount := fi_nIncommingCount fi0 + of_nat rawLen\<rparr>;
          code = st_code (hdr_status h);
          loc = (case hdr_h h LOCATION of None \<Rightarrow> [] | Some l \<Rightarrow> c_str l)
      in if fi_status fi \<ge> FIST_COMPLETE then (BUSY_OR_ERROR, j, fi, fs)
         else if \<not> dj_bFileItemAssigned j \<and> fi_status fi > FIST_DLPENDING then (BUSY_OR_ERROR, j, fi, fs)
         else if code = 200 then start_storing env h rawLen contLen [] (j\<lparr>dj_nUsedRangeStartPos := 0\<rparr>) fi fs
         else if code = 206 then partial_response env h rawLen j fi fs
         else if code = 416 then
           (if fi_sizeChecked fi < 0
            then (RESTART_NEEDED, j, fi\<lparr>fi_sizeCachedInitial := 0, fi_bWriterMustReplaceFile := True\<rparr>, fs)
            else job_withError (de_now env) ''Disagreement on file size, cleaning up'' TRUNCATE j fi fs)
         else if dj_bFileItemAssigned j then job_withError (de_now env) (st_msg (hdr_status h)) KEEP j fi fs
         else if isRedirect (hdr_status h) \<and> loc = []
         then job_withError (de_now env) ''Invalid redirection (missing location)'' KEEP j fi fs
         else start_storing env h rawLen (-1) (if isRedirect (hdr_status h) then loc else [])
                (j\<lparr>dj_bAllowStoreData := False\<rparr>) fi fs)"

section \<open>Consuming the input\<close>

text \<open>
  \<open>DlNoItem\<close> is the result for a job without item, \<open>DlFault\<close> stands for behaviour that C++ leaves undefined, \<open>DlBlocked\<close> for a write call of the
  storage that does not return.
\<close>

datatype dl_out = DlRet hints tDlJob fileitem fsys string | DlNoItem hints tDlJob | DlFault | DlBlocked

function NewData_loop :: "dl_env \<Rightarrow> tDlJob \<Rightarrow> fileitem \<Rightarrow> fsys \<Rightarrow> string \<Rightarrow> dl_out" where
  "NewData_loop env j fi fs inBuf =
     (let nToStore = min (length inBuf) (dj_nRest j);
          j1 = j\<lparr>dj_nRest := dj_nRest j - nToStore\<rparr>
      in if nToStore = 0 then DlRet HINT_MORE j fi fs inBuf
         else if dj_bAllowStoreData j then
           (case de_add env (take nToStore inBuf) fi fs of
              AddRet ok fi1 fs1 \<Rightarrow>
                (if ok then NewData_loop env j1 fi1 fs1 (drop nToStore inBuf)
                 else DlRet (HINT_RECONNECT_NOW OR EFLAG_JOB_BROKEN) (j\<lparr>dj_sErrorMsg := ''Cannot store''\<rparr>) fi1 fs1 inBuf)
            | AddUndefined \<Rightarrow> DlFault
            | AddBlocked \<Rightarrow> DlBlocked)
         else NewData_loop env j1 fi fs (drop nToStore inBuf))"
  by pat_completeness auto
termination
  by (relation "measure (\<lambda>(env, j, fi, fs, inBuf). length inBuf)") auto

declare NewData_loop.simps [simp del]

definition NewDataHandler :: "dl_env \<Rightarrow> tDlJob \<Rightarrow> fileitem \<Rightarrow> fsys \<Rightarrow> string \<Rightarrow> dl_out" where
  "NewDataHandler env j fi fs inBuf =
     (case NewData_loop env j fi fs inBuf of
        DlRet r j1 fi1 fs1 b \<Rightarrow>
          (if r \<noteq> HINT_MORE then DlRet r j1 fi1 fs1 b
           else if dj_nRest j1 \<noteq> 0 then DlRet HINT_MORE j1 fi1 fs1 b
           else DlRet HINT_SWITCH
                  (j1\<lparr>dj_DlState := (if dj_DlState j1 = STATE_PROCESS_DATA then STATE_FINISHJOB else STATE_GETCHUNKHEAD)\<rparr>)
                  fi1 fs1 b)
      | x \<Rightarrow> x)"

datatype dl_next = Again tDlJob fileitem fsys string | Leave dl_out

definition strcasecmp_c :: "string \<Rightarrow> string \<Rightarrow> bool" where
  "strcasecmp_c a b \<longleftrightarrow> map tolower (c_str a) = map tolower (c_str b)"

text \<open>Detection of redirectors that lead to a login page or the like, by the MIME type.\<close>

definition check_bad_redirect :: "dl_cfg \<Rightarrow> tDlJob \<Rightarrow> fileitem \<Rightarrow> header \<Rightarrow> header" where
  "check_bad_redirect cfg j fi h =
     (if dc_redirmax cfg \<noteq> 0 \<and> dc_badredmime cfg \<noteq> [] \<and> dc_redirmax cfg \<noteq> dj_nRedirRemaining j \<and>
         (case hdr_h h CONTENT_TYPE of
            None \<Rightarrow> False | Some t \<Rightarrow> find_sub (c_str (dc_badredmime cfg)) (c_str t) \<noteq> None) \<and>
         st_code (hdr_status h) < 300
      then (if spa_bVolatile (fi_spattr fi) then header_set LAST_MODIFIED (Some FAKEDATEMARK) h
            else setStatus 501 ''Redirected to invalid target'' h)
      else h)"

text \<open>How the body is transferred: the new state, or an error.\<close>

definition body_mode :: "header \<Rightarrow> off_t \<Rightarrow> tDlJob \<Rightarrow> (tDlJob \<times> header) option" where
  "body_mode h contentLength j =
     (if spa_bHeadOnly (dj_fiAttr j) then Some (j\<lparr>dj_DlState := STATE_FINISHJOB\<rparr>, h)
      else if (case hdr_h h TRANSFER_ENCODING of None \<Rightarrow> False | Some t \<Rightarrow> strcasecmp_c t ''chunked'')
      then Some (j\<lparr>dj_DlState := STATE_GETCHUNKHEAD\<rparr>, header_del TRANSFER_ENCODING h)
      else if contentLength < 0 then None
      else Some (j\<lparr>dj_nRest := nat contentLength, dj_DlState := STATE_PROCESS_DATA\<rparr>, h))"

definition keyfile_missing :: "header \<Rightarrow> tDlJob \<Rightarrow> bool" where
  "keyfile_missing h j \<longleftrightarrow>
     st_code (hdr_status h) \<ge> 400 \<and> sHost (dj_remoteUri j) = [] \<and>
     (case dj_pRepoDesc j of
        None \<Rightarrow> False | Some d \<Rightarrow> \<exists>kfile \<in> set (rd_keyfiles d). endsWith (sPath (dj_remoteUri j)) kfile)"

definition wants_close :: "header \<Rightarrow> bool" where
  "wants_close h \<longleftrightarrow>
     (case (case hdr_h h CONNECTION of Some c \<Rightarrow> Some c | None \<Rightarrow> hdr_h h PROXY_CONNECTION) of
        None \<Rightarrow> False | Some c \<Rightarrow> strcasecmp_c c ''close'')"

text \<open>A complete response head of \<open>n\<close> bytes.\<close>

definition store_head :: "dl_env \<Rightarrow> header \<Rightarrow> nat \<Rightarrow> off_t \<Rightarrow> hints \<Rightarrow> tDlJob \<Rightarrow> fileitem \<Rightarrow> fsys \<Rightarrow> string \<Rightarrow> dl_next" where
  "store_head env h n contentLength ret j fi fs inBuf =
     (case CheckAndSaveHeader env (check_bad_redirect (de_cfg env) j fi h) n contentLength j fi fs of
        (res, j1, fi1, fs1) \<Rightarrow>
          let j2 = (if spa_bHeadOnly (fi_spattr fi1) then j1\<lparr>dj_nRest := 0\<rparr> else j1); b = drop n inBuf in
          (case res of
             RESTART_NEEDED \<Rightarrow> Leave (DlRet (ret OR EFLAG_LOST_CON OR HINT_RECONNECT_NOW) j2 fi1 fs1 b)
           | BUSY_OR_ERROR \<Rightarrow>
               Leave (DlRet (ret OR HINT_RECONNECT_NOW OR EFLAG_JOB_BROKEN OR EFLAG_STORE_COLLISION)
                       (j2\<lparr>dj_DlState := STATE_PROCESS_DATA, dj_sErrorMsg := ''Busy Cache Item''\<rparr>) fi1 fs1 b)
           | GOOD \<Rightarrow> Again j2 fi1 fs1 b))"

definition got_head :: "dl_env \<Rightarrow> bool \<Rightarrow> header \<Rightarrow> nat \<Rightarrow> tDlJob \<Rightarrow> fileitem \<Rightarrow> fsys \<Rightarrow> string \<Rightarrow> dl_next" where
  "got_head env bOnlyRedirectionActivity h n j fi fs inBuf =
     (let ret = (if wants_close h then HINT_RECONNECT_SOON else 0);
          contentLength = atoofft_def_val (hdr_h h CONTENT_LENGTH) (-1);
          cl0 = atoofft_def_val (hdr_h h CONTENT_LENGTH) 0
      in if st_code (hdr_status h) < 200 then Leave (DlRet (ret OR HINT_MORE) j fi fs (drop n inBuf))
         else if dc_redirmax (de_cfg env) \<noteq> 0 \<and> isRedirect (hdr_status h) then
           (case RewriteSource (hdr_h h LOCATION) j of
              None \<Rightarrow> Leave DlFault
            | Some (ok, j1) \<Rightarrow>
                if \<not> ok then Leave (DlRet (ret OR EFLAG_JOB_BROKEN) j1 fi fs inBuf)
                else Leave (DlRet (ret OR HINT_TGTCHANGE) j1 fi fs
                       (if 0 \<le> cl0 \<and> cl0 \<le> int (length inBuf) then drop (nat cl0) inBuf else inBuf)))
         else if dc_redirmax (de_cfg env) \<noteq> 0 \<and> bOnlyRedirectionActivity
         then Leave (DlRet (ret OR EFLAG_LOST_CON OR HINT_RECONNECT_NOW) j fi fs inBuf)
         else if keyfile_missing h j
         then Leave (DlRet (ret OR HINT_RECONNECT_NOW OR EFLAG_MIRROR_BROKEN)
                      (j\<lparr>dj_sErrorMsg := ''Keyfile N/A, mirror blacklisted''\<rparr>) fi fs inBuf)
         else
           (case body_mode h contentLength j of
              None \<Rightarrow> Leave (DlRet (ret OR HINT_RECONNECT_NOW OR EFLAG_JOB_BROKEN)
                             (j\<lparr>dj_sErrorMsg := ''Missing Content-Length''\<rparr>) fi fs inBuf)
            | Some (j1, h1) \<Rightarrow> store_head env h1 n contentLength ret j1 fi fs inBuf))"

definition step_header :: "dl_env \<Rightarrow> bool \<Rightarrow> tDlJob \<Rightarrow> fileitem \<Rightarrow> fsys \<Rightarrow> string \<Rightarrow> dl_next" where
  "step_header env bOnly j fi fs inBuf =
     (if inBuf = [] then Leave (DlRet HINT_MORE j fi fs inBuf)
      else
        (case Load False inBuf (de_after env) header_new of
           LoadFault \<Rightarrow> Leave DlFault
         | LoadRet hDataLen h _ \<Rightarrow>
             if hDataLen = 0 then Leave (DlRet HINT_MORE j fi fs inBuf)
             else if hDataLen < 0
             then Leave (DlRet (EFLAG_MIRROR_BROKEN OR HINT_RECONNECT_NOW OR HINT_KILL_LAST_FILE)
                          (j\<lparr>dj_sErrorMsg := ''Invalid header''\<rparr>) fi fs inBuf)
             else if hdr_type h \<noteq> ANSWER
             then Leave (DlRet (EFLAG_MIRROR_BROKEN OR EFLAG_LOST_CON OR HINT_RECONNECT_NOW)
                          (j\<lparr>dj_sErrorMsg := ''Unexpected response type''\<rparr>) fi fs inBuf)
             else got_head env bOnly h (nat hDataLen) j fi fs inBuf))"

text \<open>
  \<open>sscanf\<close> with \<open>%x\<close>: space, an optional sign and prefix, hexadecimal digits; the number is read
  like by \<open>strtoul\<close> and stored in 32 bits.
\<close>

definition hex_num :: "string \<Rightarrow> int" where
  "hex_num ds = fold (\<lambda>c v. 16 * v + hexval c) ds 0"

definition is_hex :: "char \<Rightarrow> bool" where
  "is_hex c \<longleftrightarrow> hexval c \<le> 15"

definition scan_hex :: "string \<Rightarrow> nat option" where
  "scan_hex s =
     (let s1 = dropWhile isspace s;
          neg = (s1 \<noteq> [] \<and> hd s1 = CHR ''-'');
          s2 = (if s1 \<noteq> [] \<and> hd s1 \<in> {CHR ''-'', CHR ''+''} then tl s1 else s1);
          s3 = (if take 2 s2 \<in> {''0x'', ''0X''} then drop 2 s2 else s2);
          ds = takeWhile is_hex s3;
          v = min (hex_num ds) (2 ^ 64 - 1)
      in if takeWhile is_hex s2 = [] then None
         else Some (nat ((if neg then - v else v) mod 2 ^ 32)))"

definition step_chunkhead :: "tDlJob \<Rightarrow> fileitem \<Rightarrow> fsys \<Rightarrow> string \<Rightarrow> dl_next" where
  "step_chunkhead j fi fs inBuf0 =
     (let inBuf = dropWhile (\<lambda>c. c = CHR 0x0D \<or> c = CHR 0x0A) inBuf0 in
      case find_sub svRN (c_str inBuf) of
        None \<Rightarrow> Leave (DlRet HINT_MORE j fi fs inBuf)
      | Some crlf \<Rightarrow>
          (case scan_hex (c_str inBuf) of
             None \<Rightarrow> Leave (DlRet EFLAG_JOB_BROKEN (j\<lparr>dj_sErrorMsg := ''Invalid stream''\<rparr>) fi fs inBuf)
           | Some len \<Rightarrow>
               Again (if len > 0 then j\<lparr>dj_nRest := len, dj_DlState := STATE_PROCESS_CHUNKDATA\<rparr>
                      else j\<lparr>dj_DlState := STATE_GET_CHUNKTRAILER\<rparr>) fi fs (drop (crlf + 2) inBuf)))"

definition step_trailer :: "tDlJob \<Rightarrow> fileitem \<Rightarrow> fsys \<Rightarrow> string \<Rightarrow> dl_next" where
  "step_trailer j fi fs inBuf =
     (if length inBuf < 2 then Leave (DlRet HINT_MORE j fi fs inBuf)
      else case find_sub svRN (c_str inBuf) of
             None \<Rightarrow> Leave (DlRet HINT_MORE j fi fs inBuf)
           | Some crlf \<Rightarrow>
               Again (if crlf = 0 then j\<lparr>dj_DlState := STATE_FINISHJOB\<rparr> else j) fi fs (drop (crlf + 2) inBuf))"

text \<open>One round of the loop in \<open>ProcessIncomming\<close>, and the loop.\<close>

definition dl_step :: "dl_env \<Rightarrow> bool \<Rightarrow> tDlJob \<Rightarrow> fileitem \<Rightarrow> fsys \<Rightarrow> string \<Rightarrow> dl_next" where
  "dl_step env bOnly j fi fs inBuf =
     (case dj_DlState j of
        STATE_GETHEADER \<Rightarrow> step_header env bOnly j fi fs inBuf
      | STATE_FINISHJOB \<Rightarrow>
          (case DlFinish (de_base env) (de_head_ok env) False fi fs of
             (fi1, fs1) \<Rightarrow> Leave (DlRet HINT_DONE (j\<lparr>dj_DlState := STATE_GETHEADER\<rparr>) fi1 fs1 inBuf))
      | STATE_GETCHUNKHEAD \<Rightarrow> step_chunkhead j fi fs inBuf
      | STATE_GET_CHUNKTRAILER \<Rightarrow> step_trailer j fi fs inBuf
      | _ \<Rightarrow>
          (case NewDataHandler env j fi fs inBuf of
             DlRet r j1 fi1 fs1 b \<Rightarrow> if r = HINT_SWITCH then Again j1 fi1 fs1 b else Leave (DlRet r j1 fi1 fs1 b)
           | x \<Rightarrow> Leave x))"

fun dl_loop :: "nat \<Rightarrow> dl_env \<Rightarrow> bool \<Rightarrow> tDlJob \<Rightarrow> fileitem \<Rightarrow> fsys \<Rightarrow> string \<Rightarrow> dl_out option" where
  "dl_loop 0 env bOnly j fi fs inBuf = None"
| "dl_loop (Suc k) env bOnly j fi fs inBuf =
     (case dl_step env bOnly j fi fs inBuf of
        Leave x \<Rightarrow> Some x
      | Again j1 fi1 fs1 b \<Rightarrow> dl_loop k env bOnly j1 fi1 fs1 b)"

definition dl_fuel :: "string \<Rightarrow> nat" where
  "dl_fuel inBuf = 3 * length inBuf + 3"

definition ProcessIncomming :: "dl_env \<Rightarrow> bool \<Rightarrow> tDlJob \<Rightarrow> fileitem option \<Rightarrow> fsys \<Rightarrow> string \<Rightarrow> dl_out option" where
  "ProcessIncomming env bOnly j pStorage fs inBuf =
     (case pStorage of
        None \<Rightarrow> Some (DlNoItem (HINT_RECONNECT_NOW OR EFLAG_JOB_BROKEN) (j\<lparr>dj_sErrorMsg := ''Bad cache item''\<rparr>))
      | Some fi \<Rightarrow> dl_loop (dl_fuel inBuf) env bOnly j fi fs inBuf)"

section \<open>The loop ends\<close>

definition state_rank :: "EStreamState \<Rightarrow> nat" where
  "state_rank s = (if s \<in> {STATE_PROCESS_DATA, STATE_PROCESS_CHUNKDATA} then 1 else 0)"

definition dl_measure :: "tDlJob \<Rightarrow> string \<Rightarrow> nat" where
  "dl_measure j inBuf = 3 * length inBuf + state_rank (dj_DlState j)"

lemma state_rank_le: "state_rank s \<le> 1"
  by (simp add: state_rank_def)

lemma measure_consumed:
  assumes "length b < length inBuf"
  shows "dl_measure j1 b < dl_measure j inBuf"
  using assms state_rank_le [of "dj_DlState j1"] by (simp add: dl_measure_def)

lemma step_header_Again:
  assumes "step_header env bOnly j fi fs inBuf = Again j1 fi1 fs1 b"
  shows "length b < length inBuf"
proof -
  obtain n h where ne: "inBuf \<noteq> []" "(n::int) \<noteq> 0" "\<not> n < 0" and g: "got_head env bOnly h (nat n) j fi fs inBuf = Again j1 fi1 fs1 b"
    using assms by (auto simp: step_header_def split: if_splits load_result.splits)
  have "b = drop (nat n) inBuf"
    using g by (auto simp: got_head_def store_head_def Let_def split: if_splits option.splits prod.splits EResponseEval.splits)
  then show ?thesis using ne by simp
qed

lemma step_chunkhead_Again:
  assumes "step_chunkhead j fi fs inBuf = Again j1 fi1 fs1 b"
  shows "length b < length inBuf"
proof -
  let ?b = "dropWhile (\<lambda>c. c = CHR 0x0D \<or> c = CHR 0x0A) inBuf"
  obtain k where k: "find_sub svRN (c_str ?b) = Some k" "b = drop (k + 2) ?b"
    using assms by (auto simp: step_chunkhead_def Let_def split: option.splits)
  have "?b \<noteq> []"
  proof
    assume "?b = []"
    then show False using k(1) by (simp add: c_str_def svRN_def del: dropWhile_eq_Nil_conv)
  qed
  then have "length b < length ?b" using k(2) by (simp del: dropWhile_eq_Nil_conv)
  also have "length ?b \<le> length inBuf" by (rule length_dropWhile_le)
  finally show ?thesis .
qed

lemma step_trailer_Again: "step_trailer j fi fs inBuf = Again j1 fi1 fs1 b \<Longrightarrow> length b < length inBuf"
  by (auto simp: step_trailer_def split: if_splits option.splits)

text \<open>The loop of \<open>NewDataHandler\<close> runs at most once.\<close>

lemma NewData_loop_stop:
  assumes "inBuf = [] \<or> dj_nRest j = 0"
  shows "NewData_loop env j fi fs inBuf = DlRet HINT_MORE j fi fs inBuf"
  using assms by (subst NewData_loop.simps) (auto simp: Let_def)

lemma NewData_loop_eq:
  "NewData_loop env j fi fs inBuf =
     (let n = min (length inBuf) (dj_nRest j); j1 = j\<lparr>dj_nRest := dj_nRest j - n\<rparr> in
      if n = 0 then DlRet HINT_MORE j fi fs inBuf
      else if dj_bAllowStoreData j then
        (case de_add env (take n inBuf) fi fs of
           AddRet ok fi1 fs1 \<Rightarrow>
             (if ok then DlRet HINT_MORE j1 fi1 fs1 (drop n inBuf)
              else DlRet (HINT_RECONNECT_NOW OR EFLAG_JOB_BROKEN) (j\<lparr>dj_sErrorMsg := ''Cannot store''\<rparr>) fi1 fs1 inBuf)
         | AddUndefined \<Rightarrow> DlFault
         | AddBlocked \<Rightarrow> DlBlocked)
      else DlRet HINT_MORE j1 fi fs (drop n inBuf))"
proof -
  let ?n = "min (length inBuf) (dj_nRest j)"
  have "drop ?n inBuf = [] \<or> dj_nRest (j\<lparr>dj_nRest := dj_nRest j - ?n\<rparr>) = 0" by auto
  note stop = NewData_loop_stop [OF this, of env]
  show ?thesis by (subst NewData_loop.simps) (simp only: Let_def stop)
qed

lemma NewData_loop_length:
  "NewData_loop env j fi fs inBuf = DlRet r j1 fi1 fs1 b \<Longrightarrow> length b \<le> length inBuf \<and> dj_DlState j1 = dj_DlState j \<and> r \<noteq> HINT_SWITCH"
  by (auto simp: NewData_loop_eq Let_def hint_defs split: if_splits add_result.splits)

lemma dl_step_decreases:
  assumes "dl_step env bOnly j fi fs inBuf = Again j1 fi1 fs1 b"
  shows "dl_measure j1 b < dl_measure j inBuf"
proof (cases "dj_DlState j \<in> {STATE_PROCESS_DATA, STATE_PROCESS_CHUNKDATA}")
  case True
  obtain j2 where nd: "NewData_loop env j fi fs inBuf = DlRet HINT_MORE j2 fi1 fs1 b"
    and j1: "j1 = j2\<lparr>dj_DlState := (if dj_DlState j2 = STATE_PROCESS_DATA then STATE_FINISHJOB else STATE_GETCHUNKHEAD)\<rparr>"
    using assms True by (auto simp: dl_step_def NewDataHandler_def dest: NewData_loop_length split: dl_out.splits if_splits)
  have "state_rank (dj_DlState j1) = 0" by (simp add: j1 state_rank_def)
  moreover have "state_rank (dj_DlState j) = 1" using True by (simp add: state_rank_def)
  ultimately show ?thesis using NewData_loop_length [OF nd] by (simp add: dl_measure_def)
next
  case False
  then have "length b < length inBuf"
    using assms step_header_Again step_chunkhead_Again step_trailer_Again
    by (cases "dj_DlState j") (auto simp: dl_step_def split: prod.splits)
  then show ?thesis by (rule measure_consumed)
qed

lemma dl_loop_enough: "dl_measure j inBuf < k \<Longrightarrow> \<exists>x. dl_loop k env bOnly j fi fs inBuf = Some x"
proof (induction k arbitrary: j fi fs inBuf)
  case (Suc k)
  show ?case
  proof (cases "dl_step env bOnly j fi fs inBuf")
    case (Again j1 fi1 fs1 b)
    with dl_step_decreases [OF Again] Suc show ?thesis by simp
  qed simp
qed simp

lemma dl_loop_mono: "dl_loop k env bOnly j fi fs inBuf = Some x \<Longrightarrow> k \<le> k' \<Longrightarrow> dl_loop k' env bOnly j fi fs inBuf = Some x"
proof (induction k arbitrary: k' j fi fs inBuf)
  case (Suc k)
  then obtain k'' where k': "k' = Suc k''" by (cases k') auto
  with Suc show ?case by (auto split: dl_next.splits)
qed simp

lemma fuel_enough: "dl_measure j inBuf < dl_fuel inBuf"
  using state_rank_le [of "dj_DlState j"] by (simp add: dl_measure_def dl_fuel_def)

text \<open>
  C4. The loop of \<open>ProcessIncomming\<close> ends on every input, whatever the peer sends: it returns a
  result, and any larger number of rounds would give the same one.
\<close>

theorem ProcessIncomming_returns:
  "\<exists>x. ProcessIncomming env bOnly j (Some fi) fs inBuf = Some x \<and>
     (\<forall>k. dl_loop (dl_fuel inBuf + k) env bOnly j fi fs inBuf = Some x)"
proof -
  obtain x where "dl_loop (dl_fuel inBuf) env bOnly j fi fs inBuf = Some x"
    using dl_loop_enough [OF fuel_enough] by blast
  then have "dl_loop (dl_fuel inBuf + k) env bOnly j fi fs inBuf = Some x" for k by (rule dl_loop_mono) simp
  moreover have "ProcessIncomming env bOnly j (Some fi) fs inBuf = dl_loop (dl_fuel inBuf) env bOnly j fi fs inBuf"
    by (simp add: ProcessIncomming_def)
  ultimately show ?thesis by (metis add_0_right)
qed

section \<open>Chunked transfer\<close>

text \<open>The chunked encoding of a list of chunks: sizes in hexadecimal, no extensions and no trailer fields.\<close>

fun hex_str :: "nat \<Rightarrow> string" where
  "hex_str n = (if n < 16 then [h2t_map n] else hex_str (n div 16) @ [h2t_map (n mod 16)])"

declare hex_str.simps [simp del]

fun chunk_enc :: "string list \<Rightarrow> string" where
  "chunk_enc [] = ''0'' @ svRN @ svRN"
| "chunk_enc (d # ds) = hex_str (length d) @ svRN @ d @ svRN @ chunk_enc ds"

definition good_chunks :: "string list \<Rightarrow> bool" where
  "good_chunks ds \<longleftrightarrow> (\<forall>d \<in> set ds. d \<noteq> [] \<and> length d < 2 ^ 32)"

definition hexdig :: "char \<Rightarrow> bool" where
  "hexdig c \<longleftrightarrow> c \<in> h2t_map ` {..<16}"

lemma hex_all: "list_all (\<lambda>n. is_hex (h2t_map n) \<and> \<not> isspace (h2t_map n) \<and>
    h2t_map n \<notin> {CHR 0x00, CHR 0x0D, CHR 0x0A, CHR ''-'', CHR ''+'', CHR ''x'', CHR ''X''}) [0..<16]"
  by code_simp

lemma hex_char:
  assumes "hexdig c"
  shows "is_hex c \<and> \<not> isspace c \<and> c \<notin> {CHR 0x00, CHR 0x0D, CHR 0x0A, CHR ''-'', CHR ''+'', CHR ''x'', CHR ''X''}"
proof -
  obtain n where "c = h2t_map n" "n \<in> set [0..<16]" using assms by (auto simp: hexdig_def)
  with bspec [OF hex_all [unfolded list_all_iff] this(2)] show ?thesis by simp
qed

lemma hexdig_h2t: "n < 16 \<Longrightarrow> hexdig (h2t_map n)"
  by (simp add: hexdig_def)

lemma hex_str_props: "hex_str n \<noteq> [] \<and> (\<forall>c \<in> set (hex_str n). hexdig c) \<and> hex_num (hex_str n) = int n"
proof (induction n rule: hex_str.induct)
  case (1 n)
  show ?case
  proof (cases "n < 16")
    case True
    then show ?thesis by (subst (1 2 3) hex_str.simps) (simp add: hex_num_def hexdig_h2t)
  next
    case False
    have "int n = 16 * int (n div 16) + int (n mod 16)" by presburger
    then show ?thesis using 1 False by (subst (1 2 3) hex_str.simps) (auto simp: hex_num_def hexdig_h2t)
  qed
qed

lemma scan_hex_line:
  assumes "hx \<noteq> []" "\<forall>c \<in> set hx. hexdig c" "hex_num hx = int n" "n < 2 ^ 32"
  shows "scan_hex (hx @ svRN @ t) = Some n"
proof -
  obtain c r where hx: "hx = c # r" using assms(1) by (cases hx) auto
  have c: "is_hex c" "\<not> isspace c" "c \<notin> {CHR ''-'', CHR ''+''}" using assms(2) hex_char by (auto simp: hx)
  have x: "take 2 (hx @ svRN @ t) \<notin> {''0x'', ''0X''}"
    using assms(2) hex_char by (cases r) (auto simp: hx svRN_def)
  have cr: "\<not> is_hex (CHR 0x0D)" by code_simp
  have tw: "takeWhile is_hex (hx @ svRN @ t) = hx" using assms(2) hex_char cr by (simp add: takeWhile_append2 svRN_def)
  have dw: "dropWhile isspace (hx @ svRN @ t) = hx @ svRN @ t" using c by (simp add: hx)
  have mn: "min (int n) (2 ^ 64 - 1) = int n" using assms(4) by simp
  have hd: "hd (hx @ svRN @ t) = c" by (simp add: hx)
  show ?thesis unfolding scan_hex_def Let_def dw hd using c x assms(1,4)
    by (simp add: tw assms(3) mn)
qed

lemma length_svRN: "length svRN = 2"
  by (simp add: svRN_def)

lemma find_line_end:
  assumes "CHR 0x00 \<notin> set hx" "CHR 0x0A \<notin> set hx" "b @ fut = hx @ svRN @ t"
  shows "find_sub svRN (c_str b) = (if length hx + 2 \<le> length b then Some (length hx) else None)"
proof (cases "length hx + 2 \<le> length b")
  case True
  have "take (length hx + 2) (b @ fut) = hx @ svRN" by (simp add: assms(3) svRN_def)
  then have "take (length hx + 2) b = hx @ svRN" using True by simp
  then obtain t1 where b: "b = hx @ svRN @ t1" by (metis append.assoc append_take_drop_id)
  have "find_sub svRN hx = None" by (rule find_sub_RN_no_nl [OF assms(2)])
  then show ?thesis using True assms(1) find_sub_RN_line [of hx "c_str t1"]
    by (simp add: b c_str_append) (simp add: c_str_def svRN_def)
next
  case False
  have "b = take (length b) (hx @ svRN @ t)" using assms(3) by (metis append_eq_conv_conj)
  then have b: "b = take (length b) hx @ take (length b - length hx) svRN"
    using False by (simp add: length_svRN)
  have "CHR 0x0A \<notin> set (take (length b - length hx) svRN)"
  proof -
    have "length b - length hx = 0 \<or> length b - length hx = 1" using False by arith
    then show ?thesis by (auto simp: svRN_def)
  qed
  then have "CHR 0x0A \<notin> set b" using assms(2) by (subst b) (auto dest: in_set_takeD)
  then have "CHR 0x0A \<notin> set (c_str b)" by (auto simp: c_str_def dest: set_takeWhileD)
  then show ?thesis using False find_sub_RN_no_nl by simp
qed

text \<open>
  \<open>expects j s data rest\<close>: in the state of the job, the stream \<open>s\<close> is the remainder of a chunked body
  that still delivers \<open>data\<close>, followed by \<open>rest\<close>.
\<close>

definition expects :: "tDlJob \<Rightarrow> string \<Rightarrow> string \<Rightarrow> string \<Rightarrow> bool" where
  "expects j s data rest \<longleftrightarrow>
     (dj_DlState j = STATE_GETCHUNKHEAD \<and> (\<exists>nl ds. set nl \<subseteq> {CHR 0x0D, CHR 0x0A} \<and> good_chunks ds \<and>
        s = nl @ chunk_enc ds @ rest \<and> data = concat ds)) \<or>
     (dj_DlState j = STATE_PROCESS_CHUNKDATA \<and> (\<exists>d ds. dj_nRest j = length d \<and> d \<noteq> [] \<and> good_chunks ds \<and>
        s = d @ svRN @ chunk_enc ds @ rest \<and> data = d @ concat ds)) \<or>
     (dj_DlState j = STATE_GET_CHUNKTRAILER \<and> s = svRN @ rest \<and> data = []) \<or>
     (dj_DlState j = STATE_FINISHJOB \<and> s = rest \<and> data = [])"

text \<open>The size line at the beginning of an encoded list of chunks.\<close>

lemma chunk_enc_line:
  assumes "good_chunks ds"
  obtains hx n t where "chunk_enc ds = hx @ svRN @ t" "hx \<noteq> []" "\<forall>c \<in> set hx. hexdig c" "hex_num hx = int n" "n < 2 ^ 32"
    "n = 0 \<and> ds = [] \<and> t = svRN \<or> (\<exists>d ds'. ds = d # ds' \<and> n = length d \<and> n > 0 \<and> t = d @ svRN @ chunk_enc ds')"
proof (cases ds)
  case Nil
  have "hexdig (CHR ''0'')" using hexdig_h2t [of 0] by (simp add: h2t_map_def)
  moreover have "hex_num ''0'' = int 0" using hexval_h2t [of 0] by (simp add: hex_num_def h2t_map_def)
  ultimately show ?thesis using that [of "''0''" svRN 0] Nil by simp
next
  case (Cons d ds')
  then have "d \<noteq> []" "length d < 2 ^ 32" using assms by (auto simp: good_chunks_def)
  then show ?thesis using that [of "hex_str (length d)" "d @ svRN @ chunk_enc ds'" "length d"] hex_str_props [of "length d"] Cons
    by simp
qed

lemma dropWhile_nl:
  assumes "set nl \<subseteq> {CHR 0x0D, CHR 0x0A}" "b @ fut = nl @ c # t" "c \<notin> {CHR 0x0D, CHR 0x0A}"
  defines "P \<equiv> \<lambda>c. c = CHR 0x0D \<or> c = CHR 0x0A"
  shows "dropWhile P b @ fut = c # t \<and> dropWhile P b \<noteq> [] \<or>
    dropWhile P b = [] \<and> (\<exists>nl'. set nl' \<subseteq> {CHR 0x0D, CHR 0x0A} \<and> fut = nl' @ c # t)"
  using assms(1,2)
proof (induction b arbitrary: nl)
  case Nil
  then show ?case by (intro disjI2) auto
next
  case (Cons x b)
  show ?case
  proof (cases nl)
    case Nil
    then have "x = c" "b @ fut = t" using Cons.prems(2) by simp_all
    then show ?thesis using assms(3) by (simp add: P_def)
  next
    case (Cons y nl')
    then have "x = y" "b @ fut = nl' @ c # t" "P x" using \<open>(x # b) @ fut = nl @ c # t\<close> \<open>set nl \<subseteq> _\<close> by (auto simp: P_def)
    then show ?thesis using Cons.IH [of nl'] \<open>set nl \<subseteq> _\<close> Cons by simp
  qed
qed

lemma step_chunkhead_expects:
  assumes "expects j (b @ fut) data rest" "dj_DlState j = STATE_GETCHUNKHEAD"
  shows "(\<exists>b1. step_chunkhead j fi fs b = Leave (DlRet HINT_MORE j fi fs b1) \<and> expects j (b1 @ fut) data rest \<and>
            length rest < length fut) \<or>
    (\<exists>j1 b1. step_chunkhead j fi fs b = Again j1 fi fs b1 \<and> expects j1 (b1 @ fut) data rest \<and>
       dj_bAllowStoreData j1 = dj_bAllowStoreData j)"
proof -
  let ?P = "\<lambda>c. c = CHR 0x0D \<or> c = CHR 0x0A"
  obtain nl ds where nl: "set nl \<subseteq> {CHR 0x0D, CHR 0x0A}" and ds: "good_chunks ds" "data = concat ds"
    and s: "b @ fut = nl @ chunk_enc ds @ rest" using assms by (auto simp: expects_def)
  obtain hx n t where e: "chunk_enc ds = hx @ svRN @ t" and hx: "hx \<noteq> []" "\<forall>c \<in> set hx. hexdig c" "hex_num hx = int n" "n < 2 ^ 32"
    and t: "n = 0 \<and> ds = [] \<and> t = svRN \<or> (\<exists>d ds'. ds = d # ds' \<and> n = length d \<and> n > 0 \<and> t = d @ svRN @ chunk_enc ds')"
    using chunk_enc_line [OF ds(1)] by metis
  obtain c r where c: "hx = c # r" "c \<notin> {CHR 0x0D, CHR 0x0A}" using hx(1,2) hex_char by (cases hx) auto
  have no: "CHR 0x00 \<notin> set hx" "CHR 0x0A \<notin> set hx" using hx(2) hex_char by auto
  have s': "b @ fut = nl @ c # (r @ svRN @ t @ rest)" using s e c by simp
  let ?b = "dropWhile ?P b"
  from dropWhile_nl [OF nl s' c(2)] show ?thesis
  proof
    assume "?b @ fut = c # r @ svRN @ t @ rest \<and> ?b \<noteq> []"
    then have b: "?b @ fut = hx @ svRN @ t @ rest" by (simp add: c)
    note f = find_line_end [OF no b]
    show ?thesis
    proof (cases "length hx + 2 \<le> length ?b")
      case False
      have "length ?b + length fut = length hx + 2 + length t + length rest"
        using arg_cong [OF b, of length] by (simp add: length_svRN)
      then have "length rest < length fut" using False by simp
      moreover have "expects j (?b @ fut) data rest"
        unfolding expects_def b using assms(2) ds e by (intro disjI1) (auto intro!: exI [of _ "[]"] exI [of _ ds])
      ultimately show ?thesis using f False by (simp add: step_chunkhead_def Let_def)
    next
      case True
      have "take (length hx + 2) (?b @ fut) = hx @ svRN" by (simp add: b length_svRN)
      then have "take (length hx + 2) ?b = hx @ svRN" using True by simp
      then obtain b1 where b1: "?b = hx @ svRN @ b1" by (metis append.assoc append_take_drop_id)
      then have rest: "b1 @ fut = t @ rest" using b by simp
      have sc: "scan_hex (c_str ?b) = Some n"
        using scan_hex_line [OF hx, of "c_str b1"] no by (simp add: b1 c_str_append) (simp add: c_str_def svRN_def)
      let ?j = "if n > 0 then j\<lparr>dj_nRest := n, dj_DlState := STATE_PROCESS_CHUNKDATA\<rparr> else j\<lparr>dj_DlState := STATE_GET_CHUNKTRAILER\<rparr>"
      have "step_chunkhead j fi fs b = Again ?j fi fs b1"
        using f True sc by (simp add: step_chunkhead_def Let_def) (simp add: b1 length_svRN)
      moreover have "expects ?j (b1 @ fut) data rest"
        unfolding expects_def rest using t ds by (auto simp: good_chunks_def) blast
      ultimately show ?thesis by (intro disjI2) auto
    qed
  next
    assume "?b = [] \<and> (\<exists>nl'. set nl' \<subseteq> {CHR 0x0D, CHR 0x0A} \<and> fut = nl' @ c # r @ svRN @ t @ rest)"
    then obtain nl' where b: "?b = []" and fut: "set nl' \<subseteq> {CHR 0x0D, CHR 0x0A}" "fut = nl' @ chunk_enc ds @ rest"
      by (auto simp: e c)
    have "expects j ([] @ fut) data rest" using assms(2) ds fut by (auto simp: expects_def)
    moreover have "length rest < length fut" by (simp add: fut e length_svRN)
    ultimately show ?thesis
      using b by (intro disjI1) (simp add: step_chunkhead_def Let_def c_str_def svRN_def del: dropWhile_eq_Nil_conv)
  qed
qed

lemma step_trailer_expects:
  assumes "expects j (b @ fut) data rest" "dj_DlState j = STATE_GET_CHUNKTRAILER"
  shows "(step_trailer j fi fs b = Leave (DlRet HINT_MORE j fi fs b) \<and> length rest < length fut) \<or>
    (\<exists>j1 b1. step_trailer j fi fs b = Again j1 fi fs b1 \<and> expects j1 (b1 @ fut) data rest \<and>
       dj_bAllowStoreData j1 = dj_bAllowStoreData j)"
proof (cases "length b < 2")
  case True
  have "b @ fut = svRN @ rest" using assms by (simp add: expects_def)
  from arg_cong [OF this, of length] have "length b + length fut = 2 + length rest" by (simp add: length_svRN)
  then show ?thesis using True by (simp add: step_trailer_def)
next
  case False
  have s: "b @ fut = [] @ svRN @ rest" "data = []" using assms by (simp_all add: expects_def)
  have "take 2 (b @ fut) = svRN" by (simp add: s length_svRN)
  then have "take 2 b = svRN" using False by simp
  then obtain b1 where b: "b = svRN @ b1" by (metis append_take_drop_id)
  have "find_sub svRN (c_str b) = Some 0" using find_line_end [OF _ _ s(1)] False by simp
  then have "step_trailer j fi fs b = Again (j\<lparr>dj_DlState := STATE_FINISHJOB\<rparr>) fi fs b1"
    using False by (simp add: step_trailer_def) (simp add: b length_svRN)
  then show ?thesis using s b by (auto simp: expects_def)
qed

text \<open>
  The interface to the storage: an operation that takes every non-empty piece of data and appends
  it to the contents.
\<close>

locale byte_sink =
  fixes add :: "string \<Rightarrow> fileitem \<Rightarrow> fsys \<Rightarrow> add_result"
    and ready :: "fileitem \<Rightarrow> fsys \<Rightarrow> bool"
    and content :: "fileitem \<Rightarrow> fsys \<Rightarrow> string"
  assumes add_ok: "ready fi fs \<Longrightarrow> d \<noteq> [] \<Longrightarrow>
    \<exists>fi' fs'. add d fi fs = AddRet True fi' fs' \<and> ready fi' fs' \<and> content fi' fs' = content fi fs @ d"
begin

definition advance :: "tDlJob \<Rightarrow> fileitem \<Rightarrow> fsys \<Rightarrow> string \<Rightarrow> string \<Rightarrow> tDlJob \<Rightarrow> fileitem \<Rightarrow> fsys \<Rightarrow> string \<Rightarrow> bool" where
  "advance j fi fs data rest j1 fi1 fs1 s1 \<longleftrightarrow>
     (\<exists>del data'. data = del @ data' \<and> expects j1 s1 data' rest \<and> dj_bAllowStoreData j1 \<and>
        ready fi1 fs1 \<and> content fi1 fs1 = content fi fs @ del)"

lemma advance_refl:
  "expects j1 s1 data rest \<Longrightarrow> dj_bAllowStoreData j1 \<Longrightarrow> ready fi fs \<Longrightarrow> advance j fi fs data rest j1 fi fs s1"
  by (auto simp: advance_def)

lemma data_step:
  assumes "expects j (b @ fut) data rest" "dj_DlState j = STATE_PROCESS_CHUNKDATA" "dj_bAllowStoreData j"
    and "ready fi fs" "de_add env = add"
  shows "\<exists>r j1 fi1 fs1 b1. NewDataHandler env j fi fs b = DlRet r j1 fi1 fs1 b1 \<and>
    advance j fi fs data rest j1 fi1 fs1 (b1 @ fut) \<and> (r = HINT_MORE \<and> length rest < length fut \<or> r = HINT_SWITCH)"
proof -
  obtain d ds where d: "dj_nRest j = length d" "d \<noteq> []" and ds: "good_chunks ds"
    and s: "b @ fut = d @ svRN @ chunk_enc ds @ rest" and data: "data = d @ concat ds"
    using assms(1,2) by (auto simp: expects_def)
  let ?n = "min (length b) (length d)"
  have len: "length b + length fut = length d + 2 + length (chunk_enc ds) + length rest"
    using arg_cong [OF s, of length] by (simp add: length_svRN)
  have "take ?n (b @ fut) = take ?n d" unfolding s by (simp add: min_def)
  then have tk: "take ?n b = take ?n d" by simp
  have "drop ?n (b @ fut) = drop ?n d @ svRN @ chunk_enc ds @ rest" unfolding s by (simp add: min_def)
  then have dr: "drop ?n b @ fut = drop ?n d @ svRN @ chunk_enc ds @ rest" by simp
  show ?thesis
  proof (cases "b = []")
    case True
    then have "NewData_loop env j fi fs b = DlRet HINT_MORE j fi fs b" by (simp add: NewData_loop_stop)
    then have "NewDataHandler env j fi fs b = DlRet HINT_MORE j fi fs b" using d by (simp add: NewDataHandler_def)
    then show ?thesis using advance_refl assms(1,3,4) len True d by auto
  next
    case False
    have n0: "?n \<noteq> 0" using False d(2) by (simp add: min_def)
    have "take ?n d \<noteq> []" using False d(2) by simp
    from add_ok [OF assms(4) this] obtain fi1 fs1 where a: "add (take ?n d) fi fs = AddRet True fi1 fs1" "ready fi1 fs1"
      "content fi1 fs1 = content fi fs @ take ?n d" by blast
    let ?j = "j\<lparr>dj_nRest := length d - ?n\<rparr>"
    have nd: "NewData_loop env j fi fs b = DlRet HINT_MORE ?j fi1 fs1 (drop ?n b)"
      using d(1) a(1) assms(3,5) by (simp add: NewData_loop_eq Let_def tk n0 del: min_less_iff_conj)
    show ?thesis
    proof (cases "length d \<le> length b")
      case True
      let ?j1 = "?j\<lparr>dj_DlState := STATE_GETCHUNKHEAD\<rparr>"
      have "NewDataHandler env j fi fs b = DlRet HINT_SWITCH ?j1 fi1 fs1 (drop ?n b)"
        using nd True assms(2) by (simp add: NewDataHandler_def)
      moreover have "expects ?j1 (drop ?n b @ fut) (concat ds) rest"
        unfolding expects_def dr using True ds by (intro disjI1) (auto simp: svRN_def intro!: exI [of _ svRN] exI [of _ ds])
      moreover have "advance j fi fs data rest ?j1 fi1 fs1 (drop ?n b @ fut)"
        unfolding advance_def using calculation(2) a(2,3) data True assms(3)
        by (intro exI [of _ d] exI [of _ "concat ds"]) simp
      ultimately show ?thesis by blast
    next
      case less: False
      have "NewDataHandler env j fi fs b = DlRet HINT_MORE ?j fi1 fs1 (drop ?n b)"
        using nd less by (simp add: NewDataHandler_def)
      moreover have "expects ?j (drop ?n b @ fut) (drop ?n d @ concat ds) rest"
        unfolding expects_def dr using less ds assms(2)
        by - (rule disjI2, rule disjI1, auto intro!: exI [of _ "drop (length b) d"] exI [of _ ds])
      moreover have "advance j fi fs data rest ?j fi1 fs1 (drop ?n b @ fut)"
        unfolding advance_def using calculation(2) a(2,3) data assms(3)
        by (intro exI [of _ "take ?n d"] exI [of _ "drop ?n d @ concat ds"]) simp
      moreover have "length rest < length fut" using len less by simp
      ultimately show ?thesis by blast
    qed
  qed
qed

end

context byte_sink
begin

definition done_with :: "dl_env \<Rightarrow> fileitem \<Rightarrow> fsys \<Rightarrow> string \<Rightarrow> dl_out \<Rightarrow> bool" where
  "done_with env fi fs b x \<longleftrightarrow>
     (\<exists>j1. x = DlRet HINT_DONE j1 (fst (DlFinish (de_base env) (de_head_ok env) False fi fs))
                 (snd (DlFinish (de_base env) (de_head_ok env) False fi fs)) b \<and> dj_DlState j1 = STATE_GETHEADER)"

lemma step_expects:
  assumes "expects j (b @ fut) data rest" "dj_bAllowStoreData j" "ready fi fs" "de_add env = add"
  shows "(\<exists>j1 fi1 fs1 b1. dl_step env bOnly j fi fs b = Again j1 fi1 fs1 b1 \<and> advance j fi fs data rest j1 fi1 fs1 (b1 @ fut)) \<or>
    (\<exists>j1 fi1 fs1 b1. dl_step env bOnly j fi fs b = Leave (DlRet HINT_MORE j1 fi1 fs1 b1) \<and>
       advance j fi fs data rest j1 fi1 fs1 (b1 @ fut) \<and> length rest < length fut) \<or>
    (\<exists>x. dl_step env bOnly j fi fs b = Leave x \<and> data = [] \<and> done_with env fi fs b x \<and> b @ fut = rest)"
proof -
  consider (head) "dj_DlState j = STATE_GETCHUNKHEAD" | (data) "dj_DlState j = STATE_PROCESS_CHUNKDATA"
    | (trail) "dj_DlState j = STATE_GET_CHUNKTRAILER" | (fin) "dj_DlState j = STATE_FINISHJOB"
    using assms(1) by (auto simp: expects_def)
  then show ?thesis
  proof cases
    case head
    then have e: "dl_step env bOnly j fi fs b = step_chunkhead j fi fs b" by (simp add: dl_step_def)
    from step_chunkhead_expects [OF assms(1) head, of fi fs] show ?thesis
      unfolding e using advance_refl assms(2,3) by metis
  next
    case data
    from data_step [OF assms(1) data assms(2-4)] obtain r j1 fi1 fs1 b1 where
      n: "NewDataHandler env j fi fs b = DlRet r j1 fi1 fs1 b1" "advance j fi fs data rest j1 fi1 fs1 (b1 @ fut)"
      "r = HINT_MORE \<and> length rest < length fut \<or> r = HINT_SWITCH" by blast
    have "dl_step env bOnly j fi fs b = (if r = HINT_SWITCH then Again j1 fi1 fs1 b1 else Leave (DlRet r j1 fi1 fs1 b1))"
      using n(1) data by (simp add: dl_step_def)
    then show ?thesis using n(2,3) by (auto simp: hint_defs)
  next
    case trail
    then have e: "dl_step env bOnly j fi fs b = step_trailer j fi fs b" by (simp add: dl_step_def)
    from step_trailer_expects [OF assms(1) trail, of fi fs] show ?thesis
      unfolding e using advance_refl assms(1-3) by metis
  next
    case fin
    then have "b @ fut = rest" "data = []" using assms(1) by (auto simp: expects_def)
    then show ?thesis using fin by (auto simp: dl_step_def done_with_def split: prod.splits)
  qed
qed

text \<open>One call of \<open>ProcessIncomming\<close> on the part of the stream that has arrived.\<close>

lemma loop_expects:
  assumes "dl_loop k env bOnly j fi fs b = Some x"
    and "expects j (b @ fut) data rest" "dj_bAllowStoreData j" "ready fi fs" "de_add env = add"
  shows "(\<exists>j1 fi1 fs1 b1. x = DlRet HINT_MORE j1 fi1 fs1 b1 \<and> advance j fi fs data rest j1 fi1 fs1 (b1 @ fut) \<and>
       length rest < length fut) \<or>
    (\<exists>fi1 fs1 b1. done_with env fi1 fs1 b1 x \<and> ready fi1 fs1 \<and> content fi1 fs1 = content fi fs @ data \<and> b1 @ fut = rest)"
  using assms(1-4)
proof (induction k arbitrary: j fi fs b data)
  case (Suc k)
  from step_expects [OF Suc.prems(2-4) assms(5), of bOnly] show ?case
  proof (elim disjE exE conjE)
    fix j1 fi1 fs1 b1
    assume st: "dl_step env bOnly j fi fs b = Again j1 fi1 fs1 b1" and adv: "advance j fi fs data rest j1 fi1 fs1 (b1 @ fut)"
    then obtain del data' where a: "data = del @ data'" "expects j1 (b1 @ fut) data' rest" "dj_bAllowStoreData j1"
      "ready fi1 fs1" "content fi1 fs1 = content fi fs @ del" by (auto simp: advance_def)
    have "dl_loop k env bOnly j1 fi1 fs1 b1 = Some x" using Suc.prems(1) st by simp
    from Suc.IH [OF this a(2-4)] show ?case
    proof (elim disjE exE conjE)
      fix j2 fi2 fs2 b2
      assume "x = DlRet HINT_MORE j2 fi2 fs2 b2" "advance j1 fi1 fs1 data' rest j2 fi2 fs2 (b2 @ fut)" "length rest < length fut"
      moreover from this(2) a have "advance j fi fs data rest j2 fi2 fs2 (b2 @ fut)"
        unfolding advance_def by (metis append.assoc)
      ultimately show ?case by blast
    qed (use a in auto)
  next
    fix x'
    assume "dl_step env bOnly j fi fs b = Leave x'" "data = []" "done_with env fi fs b x'" "b @ fut = rest"
    moreover from this(1) Suc.prems(1) have "x = x'" by simp
    ultimately show ?case using Suc.prems(4) by (intro disjI2 exI [of _ fi] exI [of _ fs] exI [of _ b]) simp
  qed (use Suc.prems in auto)
qed simp

end

text \<open>The calls of \<open>ProcessIncomming\<close> while the response arrives in segments.\<close>

fun feed :: "dl_env \<Rightarrow> bool \<Rightarrow> tDlJob \<Rightarrow> fileitem \<Rightarrow> fsys \<Rightarrow> string \<Rightarrow> string list \<Rightarrow> dl_out option" where
  "feed env bOnly j fi fs inBuf [] = None"
| "feed env bOnly j fi fs inBuf (s # ss) =
     (case ProcessIncomming env bOnly j (Some fi) fs (inBuf @ s) of
        Some (DlRet r j1 fi1 fs1 b) \<Rightarrow>
          if r = HINT_MORE then feed env bOnly j1 fi1 fs1 b ss else Some (DlRet r j1 fi1 fs1 (b @ concat ss))
      | x \<Rightarrow> x)"

context byte_sink
begin

lemma feed_expects:
  assumes "ss \<noteq> []" "expects j (l @ concat ss) data rest" "dj_bAllowStoreData j" "ready fi fs" "de_add env = add"
  shows "\<exists>x fi1 fs1. feed env bOnly j fi fs l ss = Some x \<and> done_with env fi1 fs1 rest x \<and> ready fi1 fs1 \<and>
    content fi1 fs1 = content fi fs @ data"
  using assms(1-4)
proof (induction ss arbitrary: j fi fs l data)
  case (Cons s ss)
  obtain x where x: "dl_loop (dl_fuel (l @ s)) env bOnly j fi fs (l @ s) = Some x"
    using dl_loop_enough [OF fuel_enough] by blast
  then have p: "ProcessIncomming env bOnly j (Some fi) fs (l @ s) = Some x" by (simp add: ProcessIncomming_def)
  have e: "expects j ((l @ s) @ concat ss) data rest" using Cons.prems(2) by simp
  from loop_expects [OF x e Cons.prems(3,4) assms(5)] show ?case
  proof (elim disjE exE conjE)
    fix j1 fi1 fs1 b1
    assume m: "x = DlRet HINT_MORE j1 fi1 fs1 b1" "advance j fi fs data rest j1 fi1 fs1 (b1 @ concat ss)" "length rest < length (concat ss)"
    then obtain del data' where a: "data = del @ data'" "expects j1 (b1 @ concat ss) data' rest" "dj_bAllowStoreData j1"
      "ready fi1 fs1" "content fi1 fs1 = content fi fs @ del" by (auto simp: advance_def)
    have "ss \<noteq> []" using m(3) by auto
    from Cons.IH [OF this a(2-4)] a show ?case using m p by simp
  next
    fix fi1 fs1 b1
    assume d: "done_with env fi1 fs1 b1 x" "ready fi1 fs1" "content fi1 fs1 = content fi fs @ data" "b1 @ concat ss = rest"
    then obtain j1 fi2 fs2 where x: "x = DlRet HINT_DONE j1 fi2 fs2 b1" "dj_DlState j1 = STATE_GETHEADER"
      "fi2 = fst (DlFinish (de_base env) (de_head_ok env) False fi1 fs1)" "fs2 = snd (DlFinish (de_base env) (de_head_ok env) False fi1 fs1)"
      by (auto simp: done_with_def)
    have "feed env bOnly j fi fs l (s # ss) = Some (DlRet HINT_DONE j1 fi2 fs2 rest)"
      using p x(1) d(4) by (simp add: hint_defs)
    then show ?case using d x by (auto simp: done_with_def)
  qed
qed simp

end

definition fi_content :: "string \<Rightarrow> fileitem \<Rightarrow> fsys \<Rightarrow> string" where
  "fi_content base fi fs = take (nat (fi_sizeChecked fi)) (the (fs (abs_path base fi)))"

definition fi_ready :: "string \<Rightarrow> fileitem \<Rightarrow> fsys \<Rightarrow> bool" where
  "fi_ready base fi fs \<longleftrightarrow>
     (\<exists>off. fi_filefd fi = Some off \<and> on_disk base off fi fs) \<and> FIST_DLGOTHEAD \<le> fi_status fi \<and>
     fi_status fi \<le> FIST_COMPLETE \<and> \<not> spa_bNoStore (fi_spattr fi)"

text \<open>The method of the storage class, with a disk that takes all the data at once.\<close>

abbreviation add_all :: "string \<Rightarrow> int \<Rightarrow> open_env \<Rightarrow> string \<Rightarrow> fileitem \<Rightarrow> fsys \<Rightarrow> add_result" where
  "add_all base asp oe \<equiv> \<lambda>d. DlAddData base asp oe [Inr (length d)] d"

interpretation fi_sink: byte_sink "add_all base asp oe" "fi_ready base" "fi_content base" for base asp oe
proof
  fix fi fs and d :: string
  assume r: "fi_ready base fi fs" and d: "d \<noteq> []"
  obtain off c where o: "fi_filefd fi = Some off" "fi_sizeChecked fi = int off" "fs (abs_path base fi) = Some c" "off \<le> length c"
    using r unfolding fi_ready_def on_disk_def by metis
  let ?p = "abs_path base fi"
  let ?fi = "fi\<lparr>fi_nIncommingCount := fi_nIncommingCount fi + of_nat (length d), fi_sizeChecked := int (off + length d),
               fi_filefd := Some (off + length d)\<rparr>"
  let ?fs = "fs(?p := Some (file_write off d c))"
  have st: "\<not> fi_status fi < FIST_DLGOTHEAD" "\<not> fi_status fi > FIST_COMPLETE" using r by (auto simp: fi_ready_def not_less)
  have "write_loop path [Inr (length d)] d fi1 fs = AddRet True
      (fi1\<lparr>fi_sizeChecked := fi_sizeChecked fi1 + int (length d), fi_filefd := Some (the (fi_filefd fi1) + length d)\<rparr>)
      (fs(path := Some (file_write (the (fi_filefd fi1)) d (the (fs path)))))" for path fi1
    using d by (cases d) (simp_all add: Let_def)
  then have "add_all base asp oe d fi fs = AddRet True ?fi ?fs"
    using o st by (simp add: DlAddData_def Let_def abs_path_def)
  moreover have "fi_ready base ?fi ?fs"
    using r o by (auto simp: fi_ready_def on_disk_def abs_path_def length_file_write)
  moreover have "fi_content base ?fi ?fs = fi_content base fi fs @ d"
    using o file_write_prefix [OF o(4), of d] by (simp add: fi_content_def abs_path_def nat_int_add)
  ultimately show "\<exists>fi' fs'. add_all base asp oe d fi fs = AddRet True fi' fs' \<and> fi_ready base fi' fs' \<and>
      fi_content base fi' fs' = fi_content base fi fs @ d" by blast
qed

lemma DlFinish_content:
  assumes "fi_ready base fi fs"
  shows "fi_content base (fst (DlFinish base hok frc fi fs)) (snd (DlFinish base hok frc fi fs)) = fi_content base fi fs \<and>
    fi_status (fst (DlFinish base hok frc fi fs)) = FIST_COMPLETE"
  using assms SaveHeader_other [OF surjective_pairing, where base = base and fi' = fi]
  by (auto simp: DlFinish_def Let_def fi_content_def fi_ready_def abs_path_def not_less)


definition dl_env_demo :: dl_env where
  "dl_env_demo =
     \<lparr>de_cfg = \<lparr>dc_redirmax = 5, dc_badredmime = ''text/html'', dc_vrangeops = 1, dc_persistoutgoing = True,
                dc_agentheader = [], dc_requestapx = []\<rparr>,
      de_base = ''/c/'', de_mk = timegm_ref, de_now = 1000, de_head_ok = True, de_after = [],
      de_add = add_all ''/c/'' 0 env_ok\<rparr>"

definition fi_demo :: fileitem where
  "fi_demo = (fileitem_new ''a'')\<lparr>fi_status := FIST_DLRECEIVING, fi_sizeChecked := 1, fi_filefd := Some 1\<rparr>"

definition job_demo :: tDlJob where
  "job_demo = tDlJob_init (de_cfg dl_env_demo) spattr_default False []"


section \<open>Sources and resumption\<close>

text \<open>The redirects that a job follows.\<close>

fun follow :: "string option list \<Rightarrow> tDlJob \<Rightarrow> tDlJob option" where
  "follow [] j = Some j"
| "follow (u # us) j = (case RewriteSource u j of Some (True, j1) \<Rightarrow> follow us j1 | _ \<Rightarrow> None)"

lemma RewriteSource_count:
  "RewriteSource u j = Some (ok, j1) \<Longrightarrow> dj_nRedirRemaining j1 = dj_nRedirRemaining j - 1 \<and> (ok \<longrightarrow> dj_nRedirRemaining j1 > 0)"
  by (auto simp: RewriteSource_def redirect_rel_def Let_def split: if_splits option.splits prod.splits)



text \<open>
  A redirect to an absolute path stays with the server, its port, its protocol and its
  credentials, but a job that was using a backend of a repository keeps the backend pointer: the
  next request is for the base path of the backend followed by the new path, not for the new path.
\<close>

theorem backend_redirect_keeps_base:
  assumes "RewriteSource (Some u) j = Some (True, j')" "startsWith (UrlUnescape (c_str u)) ''/''"
    and "dj_bBackendMode j" "dj_pCurBackend j = Some b"
  shows "request_target j' False = UrlEscape (sPath b) @ UrlEscape (UrlUnescape (c_str u)) \<and>
    GetPeerHost j' = GetPeerHost j \<and> \<not> dj_bBackendMode j'"
  using assms
  by (auto simp: RewriteSource_def request_target_def GetPeerHost_def Let_def split: if_splits)

theorem backend_redirect_keeps_base_witness:
  "let b = url_clear\<lparr>sHost := ''h'', sPath := ''/debian''\<rparr>;
       j = job_demo\<lparr>dj_bBackendMode := True, dj_pCurBackend := Some b, dj_remoteUri := url_clear\<lparr>sPath := ''/x.deb''\<rparr>\<rparr>
   in case RewriteSource (Some ''/pool/x.deb'') j of
        Some (ok, j') \<Rightarrow> ok \<and> request_target j' False = ''/debian/pool/x.deb'' | None \<Rightarrow> False"
proof -
  define b where "b = url_clear\<lparr>sHost := ''h'', sPath := ''/debian''\<rparr>"
  define j where "j = job_demo\<lparr>dj_bBackendMode := True, dj_pCurBackend := Some b, dj_remoteUri := url_clear\<lparr>sPath := ''/x.deb''\<rparr>\<rparr>"
  have "case RewriteSource (Some ''/pool/x.deb'') j of Some (ok, _) \<Rightarrow> ok | None \<Rightarrow> False"
    unfolding j_def b_def by code_simp
  then obtain j' where r: "RewriteSource (Some ''/pool/x.deb'') j = Some (True, j')" by (auto split: option.splits)
  have s: "startsWith (UrlUnescape (c_str ''/pool/x.deb'')) ''/''"
    "UrlEscape (sPath b) @ UrlEscape (UrlUnescape (c_str ''/pool/x.deb'')) = ''/debian/pool/x.deb''"
    unfolding b_def by code_simp+
  from backend_redirect_keeps_base [OF r s(1), of b] s(2) r show ?thesis
    unfolding Let_def j_def b_def by simp
qed

lemma find_backend_spec:
  "find_backend bl bs r = (res, r') \<Longrightarrow>
     (case res of Some b \<Rightarrow> b \<in> set bs \<and> bl (GetHostPortKey b) = None
      | None \<Rightarrow> \<forall>b \<in> set bs. bl (GetHostPortKey b) \<noteq> None)"
proof (induction bs arbitrary: r)
  case (Cons a bs)
  show ?case
  proof (cases "bl (GetHostPortKey a)")
    case (Some m)
    with Cons.prems have "find_backend bl bs (if r = [] then m else r) = (res, r')" by simp
    from Cons.IH [OF this] Some show ?thesis by (auto split: option.splits)
  qed (use Cons.prems in auto)
qed auto

text \<open>
  C11. \<open>SetupJobConfig\<close> succeeds only with a peer that is not blacklisted, which in backend mode is
  the current backend or one of the repository; it gives up, and leaves the job as it is, only if
  every backend, or else the single source, is blacklisted.
\<close>

theorem SetupJobConfig_chooses_usable_peer:
  assumes "SetupJobConfig bl msg j = (ok, msg', j')"
    and "dj_bBackendMode j \<longrightarrow> dj_pRepoDesc j = Some d"
  shows "if ok then bl (GetHostPortKey (GetPeerHost j')) = None \<and>
              (dj_bBackendMode j \<longrightarrow> GetPeerHost j' \<in> set (rd_backends d) \<or> j' = j)
         else j' = j \<and> (if dj_bBackendMode j then \<forall>b \<in> set (rd_backends d). bl (GetHostPortKey b) \<noteq> None
                         else bl (GetHostPortKey (GetPeerHost j)) \<noteq> None)"
proof (cases "dj_bBackendMode j")
  case False
  then show ?thesis using assms by (auto simp: SetupJobConfig_def split: option.splits)
next
  case True
  then have d: "dj_pRepoDesc j = Some d" using assms(2) by simp
  obtain res r where f: "find_backend bl (rd_backends d) msg = (res, r)" by fastforce
  from assms(1) True d f find_backend_spec [OF f] show ?thesis
    by (auto simp: SetupJobConfig_def GetPeerHost_def split: if_splits option.splits)
qed

theorem SetupJobConfig_chooses_usable_peer_witness:
  "let a = url_clear\<lparr>sHost := ''a''\<rparr>; b = url_clear\<lparr>sHost := ''b''\<rparr>;
       d = \<lparr>rd_backends = [a, b], rd_keyfiles = [], rd_deltasrc = url_clear, rd_pProxy = None\<rparr>;
       j = job_demo\<lparr>dj_bBackendMode := True, dj_pRepoDesc := Some d\<rparr>;
       bl = [GetHostPortKey a \<mapsto> ''down'']
   in case SetupJobConfig bl [] j of (ok, msg, j') \<Rightarrow> ok \<and> bl (GetHostPortKey (GetPeerHost j')) = None"
proof -
  define a where "a = url_clear\<lparr>sHost := ''a''\<rparr>"
  define b where "b = url_clear\<lparr>sHost := ''b''\<rparr>"
  define d where "d = \<lparr>rd_backends = [a, b], rd_keyfiles = [], rd_deltasrc = url_clear, rd_pProxy = None\<rparr>"
  define j where "j = job_demo\<lparr>dj_bBackendMode := True, dj_pRepoDesc := Some d\<rparr>"
  have "fst (SetupJobConfig [GetHostPortKey a \<mapsto> ''down''] [] j)"
    unfolding j_def d_def b_def a_def by code_simp
  then obtain m j' where s: "SetupJobConfig [GetHostPortKey a \<mapsto> ''down''] [] j = (True, m, j')" by (metis prod.collapse)
  from SetupJobConfig_chooses_usable_peer [OF s, of d] show ?thesis
    unfolding Let_def s [unfolded j_def d_def b_def a_def] by (simp add: a_def b_def d_def j_def)
qed

lemma digits_val_nonneg: "\<forall>c \<in> set ds. isdigit c \<Longrightarrow> digits_val ds \<ge> 0"
proof (induction ds rule: rev_induct)
  case Nil
  show ?case by (simp add: digits_val_def)
next
  case (snoc c ds)
  then have "0 \<le> digit_val c" by (simp add: isdigit_def digit_val_def)
  then show ?case using snoc by simp
qed

lemma atoofft_digit:
  assumes "s \<noteq> []" "isdigit (hd s)"
  shows "atoofft s \<ge> 0"
proof -
  obtain c r where s: "s = c # r" using assms(1) by (cases s) auto
  have c: "isdigit c" "\<not> isspace c" "c \<noteq> CHR ''-''" "c \<noteq> CHR ''+''" "c \<noteq> CHR 0x00" using assms(2) s by (auto simp: isdigit_def isspace_def)
  have "digits_val (c # takeWhile isdigit t) \<ge> 0" for t by (rule digits_val_nonneg) (auto simp: c dest: set_takeWhileD)
  then show ?thesis using c
    by (simp add: atoofft_def atoll_def strtoll_def strtol10_def c_str_def s LLONG_MAX_def Let_def le_max_iff_disj)
qed

lemma content_range_start:
  "content_range_search s = Some (g2, g4) \<Longrightarrow> atoofft g2 \<ge> 0"
proof (induction s)
  case (Cons c cs)
  show ?case
  proof (cases "content_range_at (c # cs)")
    case (Some r)
    then have "g2 \<noteq> [] \<and> isdigit (hd g2)" using Cons.prems
      by (auto simp: content_range_at_def Let_def split: if_splits option.splits)
    then show ?thesis using atoofft_digit by blast
  qed (use Cons in auto)
qed simp

lemma DlFinish_sizes:
  "fi_sizeChecked (fst (DlFinish base hok frc fi fs)) = fi_sizeChecked fi"
  by (simp add: DlFinish_def Let_def)

lemma start_storing_GOOD:
  assumes "start_storing env h n cl loc j fi fs = (GOOD, j', fi', fs')" "dj_nUsedRangeStartPos j \<ge> 0"
  shows "fi_sizeChecked fi' = dj_nUsedRangeStartPos j \<and> fi_sizeChecked fi \<le> dj_nUsedRangeStartPos j"
proof -
  let ?fi = "fi\<lparr>fi_nTimeDlStarted := de_now env\<rparr>" and ?j = "j\<lparr>dj_bFileItemAssigned := True\<rparr>"
  let ?o = "if loc = [] then RemoteUri ?j False else loc"
  obtain ok fi2 where d: "DlStarted (de_mk env) n (tHttpDate_cstr (hdr_h h LAST_MODIFIED) False) ?o (hdr_status h)
      (dj_nUsedRangeStartPos j) cl ?fi = (ok, fi2)" by fastforce
  have ok: "ok" using assms(1) d by (auto simp: start_storing_def mark_assigned_def Let_def split: if_splits)
  have "fi_sizeChecked fi2 = dj_nUsedRangeStartPos j" "fi_sizeChecked fi \<le> dj_nUsedRangeStartPos j"
    using d ok assms(2) by (auto simp: DlStarted_def Let_def split: if_splits)
  moreover have "fi_sizeChecked fi' = fi_sizeChecked fi2"
    using assms(1) d ok DlFinish_sizes [of "de_base env" "de_head_ok env" True fi2 fs]
    by (auto simp: start_storing_def mark_assigned_def Let_def split: if_splits prod.splits)
  ultimately show ?thesis by simp
qed

text \<open>
  C3. Data of a partial response (206) are accepted only where they belong: either the response is
  the expected answer to the probe for the last byte of a volatile file, which only confirms what
  is in the cache and stores nothing, or its start position is the one that was requested, it is
  the position at which the item continues, and it lies behind neither the bytes found in the
  cache nor those already received.
\<close>

theorem partial_response_resumes_at_end:
  assumes "CheckAndSaveHeader env h n cl j fi fs = (GOOD, j', fi', fs')" "st_code (hdr_status h) = 206"
  shows "\<exists>p g2 g4. hdr_h h CONTENT_RANGE = Some p \<and> content_range_search (c_str p) = Some (g2, g4) \<and>
    (if is_probe_result (de_mk env) h (atoofft g4) (atoofft g2) fi
     then \<not> dj_bAllowStoreData j' \<and> fi_sizeChecked fi' = fi_sizeCachedInitial fi
     else atoofft g2 = dj_nUsedRangeStartPos j \<and> fi_sizeChecked fi' = atoofft g2 \<and>
          fi_sizeCachedInitial fi \<le> atoofft g2 \<and> fi_sizeChecked fi \<le> atoofft g2)"
proof -
  let ?fi = "fi\<lparr>fi_nIncommingCount := fi_nIncommingCount fi + of_nat n\<rparr>"
  have P: "partial_response env h n j ?fi fs = (GOOD, j', fi', fs')"
    using assms by (auto simp: CheckAndSaveHeader_def Let_def split: if_splits)
  then obtain p where p: "hdr_h h CONTENT_RANGE = Some p" by (auto simp: partial_response_def job_withError_def mark_assigned_def split: option.splits)
  with P obtain g2 g4 where g: "content_range_search (c_str p) = Some (g2, g4)"
    by (auto simp: partial_response_def job_withError_def mark_assigned_def split: option.splits)
  have pr: "is_probe_result (de_mk env) h (atoofft g4) (atoofft g2) ?fi = is_probe_result (de_mk env) h (atoofft g4) (atoofft g2) fi"
    by (simp add: is_probe_result_def)
  show ?thesis
  proof (cases "is_probe_result (de_mk env) h (atoofft g4) (atoofft g2) fi")
    case True
    let ?f = "?fi\<lparr>fi_nTimeDlStarted := de_now env, fi_sizeChecked := fi_sizeCachedInitial fi, fi_contentLength := fi_sizeCachedInitial fi\<rparr>"
    have "DlFinish (de_base env) (de_head_ok env) True ?f fs = (fi', fs')" "\<not> dj_bAllowStoreData j'"
      using P p g pr True by (auto simp: partial_response_def mark_assigned_def Let_def split: prod.splits)
    then have "fi_sizeChecked fi' = fi_sizeCachedInitial fi" using DlFinish_sizes [of "de_base env" "de_head_ok env" True ?f fs] by simp
    then show ?thesis using p g True \<open>\<not> dj_bAllowStoreData j'\<close> by simp
  next
    case False
    have nn: "0 \<le> atoofft g2" by (rule content_range_start [OF g])
    have eq: "atoofft g2 = dj_nUsedRangeStartPos j" "fi_sizeCachedInitial fi \<le> atoofft g2"
      and S: "start_storing env (setStatus 200 ''OK'' h) n (atoofft g4) [] j ?fi fs = (GOOD, j', fi', fs')"
      using P p g pr False by (auto simp: partial_response_def job_withError_def mark_assigned_def Let_def split: if_splits)
    from start_storing_GOOD [OF S] show ?thesis using p g eq nn False by simp
  qed
qed

theorem partial_response_resumes_at_end_witness:
  "let h = setStatus 206 ''Partial Content'' (header_set CONTENT_RANGE (Some ''bytes 3-9/10'') header_new);
       j = job_demo\<lparr>dj_nUsedRangeStartPos := 3\<rparr>;
       fi = (fileitem_new ''a'')\<lparr>fi_status := FIST_INITED, fi_sizeCachedInitial := 3\<rparr>
   in case CheckAndSaveHeader dl_env_demo h 80 7 j fi Map.empty of
        (res, j', fi', fs') \<Rightarrow> res = GOOD \<and> fi_sizeChecked fi' = 3"
proof -
  define h where "h = setStatus 206 ''Partial Content'' (header_set CONTENT_RANGE (Some ''bytes 3-9/10'') header_new)"
  define j where "j = job_demo\<lparr>dj_nUsedRangeStartPos := 3\<rparr>"
  define fi where "fi = (fileitem_new ''a'')\<lparr>fi_status := FIST_INITED, fi_sizeCachedInitial := 3\<rparr>"
  have r: "content_range_search ''bytes 3-9/10'' = Some (''3-9/10'', ''10'')" by code_simp
  have n: "atoofft ''3-9/10'' = 3" "atoofft ''10'' = 10" by code_simp+
  have "fst (CheckAndSaveHeader dl_env_demo h 80 7 j fi Map.empty) = GOOD"
    unfolding h_def j_def fi_def by code_simp
  then obtain j' fi' fs' where c: "CheckAndSaveHeader dl_env_demo h 80 7 j fi Map.empty = (GOOD, j', fi', fs')"
    by (metis prod_cases3 fst_conv)
  have s: "st_code (hdr_status h) = 206" by (simp add: h_def setStatus_def)
  from partial_response_resumes_at_end [OF c s] have "fi_sizeChecked fi' = 3"
    by (auto simp: h_def header_set_def setStatus_def header_new_def c_str_def r n is_probe_result_def fi_def fileitem_new_def
        spattr_default_def simp del: content_range_search.simps)
  then show ?thesis unfolding Let_def c [unfolded h_def j_def fi_def] by simp
qed

lemma range_start_bounds:
  "range_start cfg attr fi \<ge> -1 \<and>
   range_start cfg attr fi \<le> max (-1) (if fi_sizeChecked fi \<ge> 0 then fi_sizeChecked fi else fi_sizeCachedInitial fi) \<and>
   (spa_bVolatile attr \<and> (\<not> date_isSet (fi_responseModDate fi) \<or> dc_vrangeops cfg \<le> 0) \<longrightarrow> range_start cfg attr fi = -1)"
proof -
  define p0 where "p0 = (if fi_sizeChecked fi \<ge> 0 then fi_sizeChecked fi else fi_sizeCachedInitial fi)"
  show ?thesis unfolding range_start_def Let_def p0_def [symmetric] by auto
qed

lemma range_limit_bound: "range_limit pos lim > 0 \<Longrightarrow> pos \<le> range_limit pos lim"
  by (auto simp: range_limit_def split: if_splits)

text \<open>
  The position requested from the server never lies behind the data that the item has, a volatile
  file whose date is not known is always requested from the start, and so is one if range
  operations on volatile files are disabled.
\<close>

theorem request_range_is_sound:
  assumes "AppendRequest cfg head0 proxy fi j = (head, j')"
  shows "dj_nUsedRangeStartPos j' \<ge> -1 \<and>
    dj_nUsedRangeStartPos j' \<le> max (-1) (if fi_sizeChecked fi \<ge> 0 then fi_sizeChecked fi else fi_sizeCachedInitial fi) \<and>
    (spa_bVolatile (dj_fiAttr j) \<and> (\<not> date_isSet (fi_responseModDate fi) \<or> dc_vrangeops cfg \<le> 0) \<longrightarrow>
       dj_nUsedRangeStartPos j' = -1) \<and>
    (spa_nRangeLimit (dj_fiAttr j') > 0 \<longrightarrow> dj_nUsedRangeStartPos j' \<le> spa_nRangeLimit (dj_fiAttr j'))"
  using assms range_start_bounds [of cfg "dj_fiAttr j" fi] range_limit_bound
  by (auto simp: AppendRequest_def Let_def)

theorem request_range_is_sound_witness:
  "let fi = fi_demo\<lparr>fi_sizeChecked := 7\<rparr>
   in dj_nUsedRangeStartPos (snd (AppendRequest (de_cfg dl_env_demo) [] None fi job_demo)) \<le> 7"
  using request_range_is_sound [OF surjective_pairing,
      of "de_cfg dl_env_demo" "[]" None "fi_demo\<lparr>fi_sizeChecked := 7\<rparr>" job_demo]
  by simp

end
