(* ===== verification/Job.thy ===== *)
theory Job
  imports DlJob
begin

text \<open>
  \<open>src/job.h\<close>, \<open>src/job.cc\<close>: the server's side of a request: what part of the file the client asks
  for, the head of the response, and the state machine that sends the file while it may still be
  downloaded.

  \<open>jb_out\<close> is the sequence of bytes put on the connection. The environment of a call of \<open>SendData\<close>
  (\<open>send_env\<close>) holds the results of the system calls, the states of the item that are seen while
  waiting (the wait times out when the list ends) and the contents of the file. Maintenance pages,
  listings of local directories and the reaction to exceptions are not modelled.
\<close>

section \<open>State\<close>

datatype eJobResult = R_DONE | R_AGAIN | R_DISCON | R_NOTFORUS

datatype eActivity = STATE_NOT_STARTED | STATE_SEND_DATA | STATE_SEND_CHUNK_HEADER | STATE_SEND_CHUNK_DATA
  | STATE_DONE | STATE_DISCO_ASAP | STATE_SEND_BUF_NOT_FITEM

datatype EKeepAliveMode = CLOSE | KEEP_ALIVE | UNSPECIFIED

datatype eMaintWorkType = workNotSpecial | workExExpire | workExList | workExPurge | workExListDamaged
  | workExPurgeDamaged | workExTruncDamaged | workUSERINFO | workMAINTREPORT | workAUTHREQUEST
  | workAUTHREJECT | workIMPORT | workMIRROR | workDELETE | workDELETECONFIRM | workCOUNTSTATS
  | workSTYLESHEET | workTraceStart | workTraceEnd | workTRUNCATE | workTRUNCATECONFIRM

record job =
  jb_filefd :: bool
  jb_bIsHttp11 :: bool
  jb_bIsHeadOnly :: bool
  jb_keepAlive :: EKeepAliveMode
  jb_activity :: eActivity
  jb_sendbuf :: string
  jb_sFileLoc :: string
  jb_xff :: string
  jb_eMaintWorkType :: eMaintWorkType
  jb_ifMoSince :: tHttpDate
  jb_nReqRangeFrom :: off_t
  jb_nReqRangeTo :: off_t
  jb_nSendPos :: off_t
  jb_nChunkEnd :: off_t
  jb_nAllDataCount :: off_t
  jb_out :: string

definition job_new :: job where
  "job_new = \<lparr>jb_filefd = False, jb_bIsHttp11 = True, jb_bIsHeadOnly = False, jb_keepAlive = UNSPECIFIED,
     jb_activity = STATE_NOT_STARTED, jb_sendbuf = [], jb_sFileLoc = [], jb_xff = [],
     jb_eMaintWorkType = workNotSpecial, jb_ifMoSince = date_unset, jb_nReqRangeFrom = -1,
     jb_nReqRangeTo = -1, jb_nSendPos = 0, jb_nChunkEnd = -1, jb_nAllDataCount = 0, jb_out = []\<rparr>"

section \<open>The requested range\<close>

text \<open>\<open>sscanf\<close> with a prefix and two numbers: how many were read, and the variables.\<close>

definition scan_ld :: "string \<Rightarrow> (off_t \<times> string) option" where
  "scan_ld s = (case strtoll s of (v, r) \<Rightarrow> if r = c_str s then None else Some (v, r))"

definition scan_range :: "string \<Rightarrow> string \<Rightarrow> off_t \<times> off_t \<Rightarrow> nat \<times> off_t \<times> off_t" where
  "scan_range pfx s ft =
     (if \<not> startsWith s pfx then (0, ft)
      else case scan_ld (drop (length pfx) s) of
             None \<Rightarrow> (0, ft)
           | Some (from, r) \<Rightarrow>
               (case r of
                  c # r1 \<Rightarrow>
                    (if c \<noteq> CHR ''-'' then (1, from, snd ft)
                     else case scan_ld r1 of
                            None \<Rightarrow> (1, from, snd ft)
                          | Some (to, _) \<Rightarrow> (2, from, to))
                | [] \<Rightarrow> (1, from, snd ft)))"

definition ParseRange :: "header \<Rightarrow> job \<Rightarrow> bool \<times> job" where
  "ParseRange h jb =
     (case (case hdr_h h RANGE of Some r \<Rightarrow> Some r | None \<Rightarrow> hdr_h h CONTENT_RANGE) of
        None \<Rightarrow> (False, jb)
      | Some p0 \<Rightarrow>
          let p = c_str p0;
              (n1, ft1) = scan_range ''bytes='' p (jb_nReqRangeFrom jb, jb_nReqRangeTo jb);
              (n2, ft2) = (if n1 = 0 then scan_range ''bytes '' p ft1 else (n1, ft1))
          in if n2 < 1 then (False, jb\<lparr>jb_nReqRangeFrom := -2, jb_nReqRangeTo := -2\<rparr>)
             else (True, jb\<lparr>jb_nReqRangeFrom := fst ft2, jb_nReqRangeTo := snd ft2\<rparr>))"

section \<open>The response head\<close>

text \<open>The values of the server that responses show: time, version, and the footer of pages.\<close>

record srv =
  sv_now :: time_t
  sv_version :: string
  sv_footer :: string

definition put :: "string \<Rightarrow> job \<Rightarrow> job" where
  "put s jb = jb\<lparr>jb_sendbuf := jb_sendbuf jb @ s\<rparr>"

definition PrependHttpVariant :: "job \<Rightarrow> job" where
  "PrependHttpVariant jb = put (if jb_bIsHttp11 jb then ''HTTP/1.1 '' else ''HTTP/1.0 '') jb"

definition AppendMetaHeaders :: "srv \<Rightarrow> job \<Rightarrow> job" where
  "AppendMetaHeaders sv jb =
     put ((case jb_keepAlive jb of
             KEEP_ALIVE \<Rightarrow> ''Connection: Keep-Alive'' @ svRN
           | CLOSE \<Rightarrow> ''Connection: close'' @ svRN
           | UNSPECIFIED \<Rightarrow> []) @
          ''Date: '' @ date_view (tHttpDate_time (sv_now sv)) @ svRN @
          ''Server: Debian Apt-Cacher NG/'' @ sv_version sv @ svRN @ svRN) jb"

definition response_body :: "srv \<Rightarrow> string \<Rightarrow> string" where
  "response_body sv message =
     ''<!DOCTYPE html>'' @ [CHR 0x0A] @ ''<html lang=\"en\"><head><title>'' @ message @ ''</title>'' @ [CHR 0x0A] @
     ''</head>'' @ [CHR 0x0A] @ ''<body><h1>'' @ message @ ''</h1></body>'' @ sv_footer sv @ ''</html>''"

definition SetEarlySimpleResponse :: "srv \<Rightarrow> string \<Rightarrow> bool \<Rightarrow> job \<Rightarrow> job" where
  "SetEarlySimpleResponse sv message nobody jb =
     (let jb1 = jb\<lparr>jb_sendbuf := [], jb_activity := STATE_SEND_BUF_NOT_FITEM\<rparr>;
          body = response_body sv message
      in if nobody then AppendMetaHeaders sv (put (message @ svRN) (PrependHttpVariant jb1))
         else put body (AppendMetaHeaders sv (put (message @ svRN @ ''Content-Length: '' @ nat_str (length body) @ svRN @
                ''Content-Type: text/html'' @ svRN) (PrependHttpVariant jb1))))"

definition strcasestr :: "string \<Rightarrow> string \<Rightarrow> nat option" where
  "strcasestr hay needle = find_sub (map tolower needle) (map tolower (c_str hay))"

definition dummyTE :: string where "dummyTE = [CHR 0x0A] @ ''X-No-Trans-Encode:''"
definition badTE :: string where "badTE = [CHR 0x0A] @ ''Transfer-Encoding:''"

definition AddPtHeader :: "string \<Rightarrow> job \<Rightarrow> job" where
  "AddPtHeader remoteHead jb =
     (let jb1 = (case strcasestr remoteHead badTE of
                   None \<Rightarrow> put remoteHead jb
                 | Some p \<Rightarrow> put (take p remoteHead @ dummyTE @ drop (p + length badTE) remoteHead)
                              (jb\<lparr>jb_keepAlive := CLOSE\<rparr>))
      in if strcasestr remoteHead (''Connection: close'' @ svRN) \<noteq> None then jb1\<lparr>jb_keepAlive := CLOSE\<rparr> else jb1)"

text \<open>What \<open>CookResponseHeader\<close> reads of the item beside the record: a raw head of a passed-through response, and the MIME type.\<close>

record item_view =
  iv_fi :: fileitem
  iv_raw :: string
  iv_ctype :: string

definition date_line :: "fileitem \<Rightarrow> string" where
  "date_line fi =
     (if date_isSet (fi_responseModDate fi) \<and> date_view (fi_responseModDate fi) \<noteq> []
      then ''Last-Modified: '' @ date_view (fi_responseModDate fi) @ svRN else [])"

definition source_line :: "fileitem \<Rightarrow> string" where
  "source_line fi = (if fi_responseOrigin fi = [] then [] else ''X-Original-Source: '' @ fi_responseOrigin fi @ svRN)"

definition quickResponse :: "srv \<Rightarrow> string \<Rightarrow> bool \<Rightarrow> eActivity \<Rightarrow> job \<Rightarrow> job" where
  "quickResponse sv msg nobody nextActivity jb = (SetEarlySimpleResponse sv msg nobody jb)\<lparr>jb_activity := nextActivity\<rparr>"

definition go_chunked :: "fileitem \<Rightarrow> job \<Rightarrow> bool" where
  "go_chunked fi jb \<longleftrightarrow>
     fi_contentLength fi < 0 \<and> fi_status fi = FIST_DLRECEIVING \<and>
     \<not> (jb_nReqRangeTo jb > 0 \<and> fi_sizeChecked fi \<ge> jb_nReqRangeTo jb)"

text \<open>The end of \<open>CookResponseHeader\<close>: range not satisfiable, partial content, or the whole file.\<close>

definition cook_range :: "srv \<Rightarrow> item_view \<Rightarrow> job \<Rightarrow> job" where
  "cook_range sv iv jb =
     (let fi = iv_fi iv; contLen = fi_contentLength fi; ds = fi_sizeChecked fi;
          from = jb_nReqRangeFrom jb; to = jb_nReqRangeTo jb
      in if contLen \<ge> 0 \<and> (from \<ge> contLen \<or> to + 1 > contLen)
         then quickResponse sv ''416 Requested Range Not Satisfiable'' False STATE_SEND_BUF_NOT_FITEM jb
         else if from \<ge> 0 \<and> ds > from \<and> contLen > 0
         then
           let cl = (if to < 0 then contLen - from else to + 1 - from);
               last = (if to > 0 then to else contLen - 1)
           in AppendMetaHeaders sv (put (''206 Partial Content'' @ svRN @ ''Content-Type: '' @ iv_ctype iv @ svRN @
                date_line fi @ ''Content-Range: bytes '' @ int_str from @ ''-'' @ int_str last @ ''/'' @ int_str contLen @ svRN @
                ''Content-Length: '' @ int_str cl @ svRN @ source_line fi) (PrependHttpVariant (jb\<lparr>jb_nSendPos := from\<rparr>)))
         else AppendMetaHeaders sv (put (''200 OK'' @ svRN @ ''Content-Type: '' @ iv_ctype iv @ svRN @ date_line fi @
                ''Content-Length: '' @ int_str contLen @ svRN @ source_line fi)
                (PrependHttpVariant (jb\<lparr>jb_nReqRangeTo := -1, jb_nReqRangeFrom := 0\<rparr>))))"

definition CookResponseHeader :: "srv \<Rightarrow> (tm \<Rightarrow> time_t) \<Rightarrow> item_view option \<Rightarrow> job \<Rightarrow> job" where
  "CookResponseHeader sv mk item jb0 =
     (let jb1 = jb0\<lparr>jb_activity := STATE_SEND_DATA\<rparr> in
      case item of
        None \<Rightarrow> quickResponse sv ''500 Invalid cache object'' False STATE_DISCO_ASAP jb1
      | Some iv \<Rightarrow>
          let fi = iv_fi iv; jb = jb1\<lparr>jb_sendbuf := []\<rparr>; status = fi_responseStatus fi;
              statusLine = int_str (st_code status) @ '' '' @ st_msg status @ svRN
          in if iv_raw iv \<noteq> [] then AddPtHeader (iv_raw iv) jb1
             else if isRedirect status \<or> mustNotHaveBody status
             then AppendMetaHeaders sv ((put (statusLine @ (if isRedirect status then ''Location: '' @ fi_responseOrigin fi @ svRN else []))
                    (PrependHttpVariant jb))\<lparr>jb_activity := STATE_SEND_BUF_NOT_FITEM\<rparr>)
             else if st_code status \<noteq> 200
             then quickResponse sv (int_str (st_code status) @ '' '' @ st_msg status) False STATE_SEND_BUF_NOT_FITEM jb
             else if date_isSet (jb_ifMoSince jb) \<and> date_isSet (fi_responseModDate fi) \<and> date_ge mk (jb_ifMoSince jb) (fi_responseModDate fi)
             then quickResponse sv ''304 Not Modified'' True STATE_SEND_BUF_NOT_FITEM jb
             else if go_chunked fi jb
             then AppendMetaHeaders sv (put (statusLine @ ''Content-Type: '' @ iv_ctype iv @ svRN @ date_line fi @
                    ''Transfer-Encoding: chunked'' @ svRN @ source_line fi)
                    (PrependHttpVariant (jb\<lparr>jb_activity := STATE_SEND_CHUNK_HEADER, jb_nReqRangeTo := -1, jb_nReqRangeFrom := 0\<rparr>)))
             else cook_range sv iv jb)"

section \<open>Sending\<close>

datatype send_res = Sent nat | SendAgain | SendError

record send_env =
  sd_confd_ok :: bool
  sd_send :: send_res
  sd_obs :: "(FiStatus \<times> off_t) list"
  sd_view :: "item_view option"
  sd_fd_ok :: bool
  sd_data :: "nat option"
  sd_file :: string

definition return_discon :: "job \<Rightarrow> eJobResult \<times> job" where
  "return_discon jb = (R_DISCON, jb\<lparr>jb_activity := STATE_DISCO_ASAP\<rparr>)"

definition return_stream_ok :: "job \<Rightarrow> eJobResult \<times> job" where
  "return_stream_ok jb =
     (if jb_keepAlive jb = KEEP_ALIVE then (R_DONE, jb\<lparr>jb_activity := STATE_DONE\<rparr>)
      else if jb_keepAlive jb = CLOSE then return_discon jb
      else if jb_bIsHttp11 jb then (R_DONE, jb\<lparr>jb_activity := STATE_DONE\<rparr>)
      else return_discon jb)"

definition HandleSuddenError :: "srv \<Rightarrow> item_view option \<Rightarrow> job \<Rightarrow> eJobResult \<times> job" where
  "HandleSuddenError sv item jb =
     (if jb_nAllDataCount jb \<noteq> 0 then return_discon jb
      else
        let jb1 = jb\<lparr>jb_activity := STATE_SEND_BUF_NOT_FITEM\<rparr> in
        case item of
          None \<Rightarrow> (R_AGAIN, SetEarlySimpleResponse sv ''500 Error creating cache object'' False jb1)
        | Some iv \<Rightarrow>
            let st = fi_responseStatus (iv_fi iv) in
            (R_AGAIN, SetEarlySimpleResponse sv
               (if st_code st < 500 then ''500 Remote or cache error''
                else int_str (st_code st) @ '' '' @ (if st_msg st = [] then ''Unknown internal error'' else st_msg st)) False jb1))"

text \<open>
  Waiting until there is something to send: the state and the size of the item at the end, and
  whether sending can go on.
\<close>

fun AwaitSendableState :: "job \<Rightarrow> (FiStatus \<times> off_t) list \<Rightarrow> FiStatus \<times> off_t \<Rightarrow> bool \<times> FiStatus \<times> off_t" where
  "AwaitSendableState jb [] seen = (False, seen)"
| "AwaitSendableState jb ((fistate, sz) # obs) seen =
     (if fistate \<ge> FIST_COMPLETE \<or> sz > jb_nSendPos jb \<or> jb_bIsHeadOnly jb \<and> fistate \<ge> FIST_DLGOTHEAD
      then (fistate \<le> FIST_COMPLETE, fistate, sz)
      else AwaitSendableState jb obs (fistate, sz))"

definition await :: "send_env \<Rightarrow> job \<Rightarrow> bool \<times> FiStatus \<times> off_t" where
  "await e jb =
     (if sd_view e = None then (False, FIST_DLERROR, 0) else AwaitSendableState jb (sd_obs e) (FIST_DLERROR, 0))"

text \<open>The item's \<open>SendData\<close>: up to \<open>count\<close> bytes of the file from the position on go to the connection.\<close>

definition item_SendData :: "send_env \<Rightarrow> off_t \<Rightarrow> job \<Rightarrow> (nat \<times> job) option" where
  "item_SendData e count jb =
     (case sd_data e of
        None \<Rightarrow> None
      | Some n \<Rightarrow>
          let d = take (min n (nat count)) (drop (nat (jb_nSendPos jb)) (sd_file e)) in
          Some (length d, jb\<lparr>jb_nSendPos := jb_nSendPos jb + int (length d), jb_out := jb_out jb @ d\<rparr>))"

definition send_data_state :: "srv \<Rightarrow> send_env \<Rightarrow> job \<Rightarrow> eJobResult \<times> job" where
  "send_data_state sv e jb =
     (if jb_bIsHeadOnly jb then return_stream_ok jb
      else
        let (ok, fistate, nBodySizeSoFar) = await e jb;
            lim0 = nBodySizeSoFar - jb_nSendPos jb;
            lim = (if jb_nReqRangeTo jb \<ge> 0 then min (jb_nReqRangeTo jb + 1 - jb_nSendPos jb) lim0 else lim0);
            jb1 = (if jb_filefd jb then jb else jb\<lparr>jb_filefd := sd_fd_ok e\<rparr>)
        in if \<not> ok then HandleSuddenError sv (sd_view e) jb
           else if lim \<le> 0 then (R_DISCON, jb1)
           else case item_SendData e lim jb1 of
                  None \<Rightarrow> return_discon jb1
                | Some (n, jb2) \<Rightarrow>
                    let jb3 = jb2\<lparr>jb_nAllDataCount := jb_nAllDataCount jb2 + int n\<rparr> in
                    if fistate = FIST_COMPLETE \<and> jb_nSendPos jb3 = nBodySizeSoFar then return_stream_ok jb3
                    else if jb_nReqRangeTo jb3 \<ge> 0 \<and> jb_nSendPos jb3 \<ge> jb_nReqRangeTo jb3 + 1 then return_stream_ok jb3
                    else (R_AGAIN, jb3))"

definition chunk_header_state :: "srv \<Rightarrow> send_env \<Rightarrow> job \<Rightarrow> eJobResult \<times> job" where
  "chunk_header_state sv e jb =
     (let (ok, fistate, nBodySizeSoFar) = await e jb;
          jb1 = jb\<lparr>jb_filefd := sd_fd_ok e\<rparr>
      in if \<not> ok then HandleSuddenError sv (sd_view e) jb
         else if fistate = FIST_COMPLETE \<and> jb_nSendPos jb = nBodySizeSoFar
         then (R_AGAIN, (put (''0'' @ svRN @ svRN) jb)\<lparr>jb_activity := STATE_DONE\<rparr>)
         else if \<not> sd_fd_ok e then HandleSuddenError sv (sd_view e) jb1
         else (R_AGAIN, put (hex_str (nat (nBodySizeSoFar - jb_nSendPos jb)) @ svRN)
                (jb1\<lparr>jb_nChunkEnd := nBodySizeSoFar, jb_activity := STATE_SEND_CHUNK_DATA\<rparr>)))"

definition chunk_data_state :: "srv \<Rightarrow> send_env \<Rightarrow> job \<Rightarrow> eJobResult \<times> job" where
  "chunk_data_state sv e jb =
     (case item_SendData e (jb_nChunkEnd jb - jb_nSendPos jb) jb of
        None \<Rightarrow> HandleSuddenError sv (sd_view e) jb
      | Some (n, jb1) \<Rightarrow>
          let jb2 = jb1\<lparr>jb_nAllDataCount := jb_nAllDataCount jb1 + int n\<rparr> in
          if jb_nSendPos jb2 = jb_nChunkEnd jb2
          then (R_AGAIN, (put svRN jb2)\<lparr>jb_activity := STATE_SEND_CHUNK_HEADER\<rparr>)
          else (R_AGAIN, jb2))"

text \<open>Sending of the prepared bytes: \<open>None\<close> if the state machine can go on, else the result of the call.\<close>

definition flush_sendbuf :: "send_env \<Rightarrow> job \<Rightarrow> (eJobResult \<times> job) option \<times> job" where
  "flush_sendbuf e jb =
     (if jb_sendbuf jb = [] then (None, jb)
      else case sd_send e of
             SendAgain \<Rightarrow> (Some (R_AGAIN, jb), jb)
           | SendError \<Rightarrow> (Some (return_discon jb), jb)
           | Sent n \<Rightarrow>
               let k = min n (length (jb_sendbuf jb));
                   jb1 = jb\<lparr>jb_nAllDataCount := jb_nAllDataCount jb + int k, jb_out := jb_out jb @ take k (jb_sendbuf jb),
                            jb_sendbuf := drop k (jb_sendbuf jb)\<rparr>
               in (if jb_sendbuf jb1 \<noteq> [] then Some (R_AGAIN, jb1) else None, jb1))"

definition SendData :: "srv \<Rightarrow> (tm \<Rightarrow> time_t) \<Rightarrow> send_env \<Rightarrow> job \<Rightarrow> eJobResult \<times> job" where
  "SendData sv mk e jb0 =
     (if \<not> sd_confd_ok e then return_discon jb0
      else if jb_eMaintWorkType jb0 \<noteq> workNotSpecial then return_discon jb0
      else
        case flush_sendbuf e jb0 of
          (Some res, _) \<Rightarrow> res
        | (None, jb) \<Rightarrow>
            (case jb_activity jb of
               STATE_DONE \<Rightarrow> return_stream_ok jb
             | STATE_NOT_STARTED \<Rightarrow>
                 if fst (await e jb) then (R_AGAIN, CookResponseHeader sv mk (sd_view e) jb)
                 else HandleSuddenError sv (sd_view e) jb
             | STATE_SEND_BUF_NOT_FITEM \<Rightarrow> return_stream_ok jb
             | STATE_DISCO_ASAP \<Rightarrow> (R_DISCON, jb)
             | STATE_SEND_DATA \<Rightarrow> send_data_state sv e jb
             | STATE_SEND_CHUNK_HEADER \<Rightarrow> chunk_header_state sv e jb
             | STATE_SEND_CHUNK_DATA \<Rightarrow> chunk_data_state sv e jb))"

section \<open>What reaches the client\<close>

text \<open>A job is called again and again until it is done or the connection is to be closed.\<close>

fun run_send :: "srv \<Rightarrow> (tm \<Rightarrow> time_t) \<Rightarrow> send_env list \<Rightarrow> job \<Rightarrow> eJobResult \<times> job" where
  "run_send sv mk [] jb = (R_AGAIN, jb)"
| "run_send sv mk (e # es) jb =
     (case SendData sv mk e jb of (r, jb1) \<Rightarrow> if r = R_AGAIN then run_send sv mk es jb1 else (r, jb1))"

text \<open>
  The file under download holds a prefix of its final contents \<open>C\<close>, at least as many bytes as the
  item announces, and all of it when the item is complete.
\<close>

definition file_ok :: "string \<Rightarrow> send_env \<Rightarrow> bool" where
  "file_ok C e \<longleftrightarrow>
     (\<exists>t. C = sd_file e @ t) \<and>
     (\<forall>(st, sz) \<in> set (sd_obs e). sz \<le> int (length (sd_file e)) \<and> (st = FIST_COMPLETE \<longrightarrow> sz = int (length C)))"

definition slice :: "string \<Rightarrow> off_t \<Rightarrow> off_t \<Rightarrow> string" where
  "slice C a b = take (nat (b - a)) (drop (nat a) C)"

lemma slice_self [simp]: "slice C a a = []"
  by (simp add: slice_def)

lemma length_slice: "0 \<le> a \<Longrightarrow> a \<le> b \<Longrightarrow> b \<le> int (length C) \<Longrightarrow> int (length (slice C a b)) = b - a"
  by (simp add: slice_def)

lemma slice_append:
  assumes "0 \<le> a" "a \<le> b" "b \<le> c"
  shows "slice C a b @ slice C b c = slice C a c"
proof -
  have "nat (c - a) = nat (b - a) + nat (c - b)" "nat b = nat (b - a) + nat a" using assms by simp_all
  then show ?thesis by (simp add: slice_def take_add)
qed

lemma await_obs:
  assumes "await e jb = (ok, st, sz)" "ok" "\<not> jb_bIsHeadOnly jb"
  shows "(st, sz) \<in> set (sd_obs e) \<and> st \<le> FIST_COMPLETE \<and> (st = FIST_COMPLETE \<or> sz > jb_nSendPos jb)"
proof -
  have "AwaitSendableState jb obs seen = (True, st, sz) \<Longrightarrow>
    (st, sz) \<in> set obs \<and> st \<le> FIST_COMPLETE \<and> (st = FIST_COMPLETE \<or> sz > jb_nSendPos jb)" for obs seen
  proof (induction obs arbitrary: seen)
    case (Cons a obs)
    then show ?case using assms(3) by (cases a) (auto split: if_splits)
  qed simp
  then show ?thesis using assms(1,2) by (auto simp: await_def split: if_splits)
qed

lemma take_length_take: "take (length (take m xs)) xs = take m xs"
  by (cases "m \<le> length xs") simp_all

lemma item_SendData_slice:
  assumes "item_SendData e count jb = Some (n, jb')" "file_ok C e" "0 \<le> jb_nSendPos jb" "0 \<le> count"
    "jb_nSendPos jb \<le> int (length C)"
  shows "\<exists>p. jb' = jb\<lparr>jb_nSendPos := p, jb_out := jb_out jb @ slice C (jb_nSendPos jb) p\<rparr> \<and>
    jb_nSendPos jb \<le> p \<and> p \<le> jb_nSendPos jb + count \<and> p \<le> int (length C) \<and> int n = p - jb_nSendPos jb"
proof -
  obtain k where k: "sd_data e = Some k" using assms(1) by (auto simp: item_SendData_def split: option.splits)
  let ?a = "jb_nSendPos jb"
  let ?d = "take (min k (nat count)) (drop (nat ?a) (sd_file e))"
  obtain t where C: "C = sd_file e @ t" using assms(2) by (auto simp: file_ok_def)
  have r: "n = length ?d" "jb' = jb\<lparr>jb_nSendPos := ?a + int n, jb_out := jb_out jb @ ?d\<rparr>"
    using assms(1) k by (auto simp: item_SendData_def Let_def)
  have "?d = take n (drop (nat ?a) (sd_file e))" unfolding r(1) by (rule take_length_take [symmetric])
  also have "\<dots> = take n (drop (nat ?a) C)" using r(1) by (simp add: C)
  finally have d: "?d = slice C ?a (?a + int n)" by (simp add: slice_def)
  have "n \<le> nat count" "n \<le> length (sd_file e) - nat ?a" by (simp_all add: r(1))
  then have "int n \<le> count" "?a + int n \<le> int (length C)" using assms(3-5) by (auto simp: C)
  moreover have "jb' = jb\<lparr>jb_nSendPos := ?a + int n, jb_out := jb_out jb @ slice C ?a (?a + int n)\<rparr>"
    using r(2) by (simp only: d)
  ultimately show ?thesis by (intro exI [of _ "?a + int n"]) auto
qed

text \<open>The invariant of a transfer without chunks: head, then the file from \<open>start\<close> to the current position.\<close>

definition plain_inv :: "string \<Rightarrow> string \<Rightarrow> off_t \<Rightarrow> off_t \<Rightarrow> job \<Rightarrow> bool" where
  "plain_inv C pre start to jb \<longleftrightarrow>
     jb_activity jb = STATE_SEND_DATA \<and> \<not> jb_bIsHeadOnly jb \<and> jb_eMaintWorkType jb = workNotSpecial \<and>
     jb_nReqRangeTo jb = to \<and> 0 \<le> start \<and> start \<le> jb_nSendPos jb \<and> jb_nSendPos jb \<le> int (length C) \<and>
     (0 \<le> to \<longrightarrow> jb_nSendPos jb \<le> max start (to + 1)) \<and>
     jb_out jb @ jb_sendbuf jb = pre @ slice C start (jb_nSendPos jb) \<and>
     0 \<le> jb_nAllDataCount jb \<and> (jb_sendbuf jb = [] \<longrightarrow> 0 < jb_nAllDataCount jb)"

definition plain_end :: "string \<Rightarrow> string \<Rightarrow> off_t \<Rightarrow> off_t \<Rightarrow> job \<Rightarrow> bool" where
  "plain_end C pre start to jb \<longleftrightarrow>
     jb_out jb = pre @ slice C start (jb_nSendPos jb) \<and> start \<le> jb_nSendPos jb \<and>
     (0 \<le> to \<longrightarrow> jb_nSendPos jb \<le> max start (to + 1)) \<and>
     (jb_nSendPos jb = int (length C) \<or> 0 \<le> to \<and> jb_nSendPos jb = max start (to + 1))"

lemma return_stream_ok_simps:
  "fst (return_stream_ok jb) = R_DONE \<or> fst (return_stream_ok jb) = R_DISCON"
  "jb_out (snd (return_stream_ok jb)) = jb_out jb" "jb_nSendPos (snd (return_stream_ok jb)) = jb_nSendPos jb"
  by (auto simp: return_stream_ok_def return_discon_def)

lemma flush_sendbuf_props:
  assumes "flush_sendbuf e jb = (res, jb1)"
  shows "jb_out jb1 @ jb_sendbuf jb1 = jb_out jb @ jb_sendbuf jb \<or> (\<exists>jb2. res = Some (R_DISCON, jb2))"
    and "jb_nAllDataCount jb \<le> jb_nAllDataCount jb1"
    and "jb_activity jb1 = jb_activity jb" "jb_bIsHeadOnly jb1 = jb_bIsHeadOnly jb" "jb_eMaintWorkType jb1 = jb_eMaintWorkType jb"
    and "jb_nReqRangeTo jb1 = jb_nReqRangeTo jb" "jb_nSendPos jb1 = jb_nSendPos jb" "jb_nChunkEnd jb1 = jb_nChunkEnd jb"
    and "res = None \<Longrightarrow> jb_sendbuf jb1 = [] \<and> (jb_sendbuf jb \<noteq> [] \<longrightarrow> jb_nAllDataCount jb < jb_nAllDataCount jb1)"
    and "res = Some (r, jb2) \<Longrightarrow> r = R_AGAIN \<and> jb2 = jb1 \<and> jb_sendbuf jb1 \<noteq> [] \<or> r = R_DISCON"
  using assms
  by (cases "sd_send e"; auto simp: flush_sendbuf_def return_discon_def Let_def min_def split: if_splits)+

lemma send_data_state_plain:
  assumes inv: "plain_inv C pre start to jb" and e: "file_ok C e" and em: "jb_sendbuf jb = []"
    and r: "send_data_state sv e jb = (r, jb')"
  shows "(r = R_AGAIN \<longrightarrow> plain_inv C pre start to jb') \<and>
    (r = R_DONE \<longrightarrow> plain_end C pre start to jb')"
proof -
  obtain ok st sz where aw: "await e jb = (ok, st, sz)" by (metis prod_cases3)
  have nh: "\<not> jb_bIsHeadOnly jb" using inv by (simp add: plain_inv_def)
  let ?lim = "if jb_nReqRangeTo jb \<ge> 0 then min (jb_nReqRangeTo jb + 1 - jb_nSendPos jb) (sz - jb_nSendPos jb) else sz - jb_nSendPos jb"
  let ?jb1 = "if jb_filefd jb then jb else jb\<lparr>jb_filefd := sd_fd_ok e\<rparr>"
  have inv1: "plain_inv C pre start to ?jb1" using inv by (simp add: plain_inv_def)
  note R = r [unfolded send_data_state_def aw Let_def prod.case]
  show ?thesis
  proof (cases "ok \<and> \<not> ?lim \<le> 0")
    case False
    then show ?thesis using R nh inv em
      by (auto simp: HandleSuddenError_def return_discon_def plain_inv_def split: if_splits)
  next
    case True
    note ob = await_obs [OF aw _ nh]
    have szC: "st = FIST_COMPLETE \<longrightarrow> sz = int (length C)" using ob True e by (auto simp: file_ok_def)
    show ?thesis
    proof (cases "item_SendData e ?lim ?jb1")
      case None
      then show ?thesis using R nh True by (auto simp: return_discon_def split: if_splits)
    next
      case (Some x)
      obtain n jb2 where x: "x = (n, jb2)" by fastforce
      have I: "item_SendData e ?lim ?jb1 = Some (n, jb2)" using Some x by simp
      have p0: "0 \<le> jb_nSendPos ?jb1" "0 \<le> ?lim" "jb_nSendPos ?jb1 \<le> int (length C)"
        using inv1 True by (auto simp: plain_inv_def)
      obtain p where p: "jb2 = ?jb1\<lparr>jb_nSendPos := p, jb_out := jb_out ?jb1 @ slice C (jb_nSendPos ?jb1) p\<rparr>"
        "jb_nSendPos ?jb1 \<le> p" "p \<le> jb_nSendPos ?jb1 + ?lim" "p \<le> int (length C)" "int n = p - jb_nSendPos ?jb1"
        using item_SendData_slice [OF I e p0] by blast
      let ?jb3 = "jb2\<lparr>jb_nAllDataCount := jb_nAllDataCount jb2 + int n\<rparr>"
      have pj: "jb_nSendPos jb \<le> p" "p \<le> jb_nSendPos jb + ?lim" using p(2,3) by (simp_all split: if_splits)
      have sl: "slice C start (jb_nSendPos jb) @ slice C (jb_nSendPos jb) p = slice C start p"
        using inv pj(1) by (intro slice_append) (auto simp: plain_inv_def)
      have inv3: "plain_inv C pre start to ?jb3" "jb_nSendPos ?jb3 = p" "jb_sendbuf ?jb3 = []"
        using inv em pj p(1,4) sl by (auto simp: plain_inv_def)
      have R3: "(if st = FIST_COMPLETE \<and> jb_nSendPos ?jb3 = sz then return_stream_ok ?jb3
          else if jb_nReqRangeTo ?jb3 \<ge> 0 \<and> jb_nSendPos ?jb3 \<ge> jb_nReqRangeTo ?jb3 + 1 then return_stream_ok ?jb3
          else (R_AGAIN, ?jb3)) = (r, jb')"
        using R nh True I by simp
      note so = return_stream_ok_simps [of ?jb3]
      have fin: "jb_out ?jb3 = pre @ slice C start p \<and> start \<le> p \<and> (0 \<le> to \<longrightarrow> p \<le> max start (to + 1)) \<and> jb_nReqRangeTo ?jb3 = to"
        using inv3 by (auto simp: plain_inv_def)
      show ?thesis
      proof (cases "(st = FIST_COMPLETE \<and> p = sz) \<or> (to \<ge> 0 \<and> p \<ge> to + 1)")
        case True
        then have "return_stream_ok ?jb3 = (r, jb')" using R3 inv3(2) fin by (auto split: if_splits)
        then have "r \<noteq> R_AGAIN" "jb_out jb' = jb_out ?jb3" "jb_nSendPos jb' = p"
          using so inv3(2) by (metis fst_conv eJobResult.distinct(1) eJobResult.distinct(7), metis snd_conv, metis snd_conv)
        then show ?thesis using True szC fin by (auto simp: plain_end_def)
      next
        case False
        then have "(r, jb') = (R_AGAIN, ?jb3)" using R3 inv3(2) fin by (auto split: if_splits)
        then show ?thesis using inv3(1) by simp
      qed
    qed
  qed
qed

text \<open>The part of a call that all states share.\<close>

lemma SendData_cases:
  assumes "SendData sv mk e jb = (r, jb')" "jb_eMaintWorkType jb = workNotSpecial"
  obtains (disc) "r = R_DISCON"
  | (part) jb1 where "r = R_AGAIN" "jb' = jb1" "flush_sendbuf e jb = (Some (R_AGAIN, jb1), jb1)" "jb_sendbuf jb1 \<noteq> []"
  | (cont) jb1 where "flush_sendbuf e jb = (None, jb1)" "jb_sendbuf jb1 = []"
      "jb_activity jb = STATE_SEND_DATA \<Longrightarrow> send_data_state sv e jb1 = (r, jb')"
      "jb_activity jb = STATE_SEND_CHUNK_HEADER \<Longrightarrow> chunk_header_state sv e jb1 = (r, jb')"
      "jb_activity jb = STATE_SEND_CHUNK_DATA \<Longrightarrow> chunk_data_state sv e jb1 = (r, jb')"
      "jb_activity jb = STATE_DONE \<Longrightarrow> return_stream_ok jb1 = (r, jb')"
proof -
  obtain res jb1 where f: "flush_sendbuf e jb = (res, jb1)" by fastforce
  note p = flush_sendbuf_props [OF f]
  show ?thesis
  proof (cases "sd_confd_ok e")
    case False
    then show ?thesis using assms disc by (auto simp: SendData_def return_discon_def)
  next
    case True
    show ?thesis
    proof (cases res)
      case None
      then have f': "flush_sendbuf e jb = (None, jb1)" "jb_sendbuf jb1 = []" using f p(9) by auto
      then have A: "(case jb_activity jb of
               STATE_DONE \<Rightarrow> return_stream_ok jb1
             | STATE_NOT_STARTED \<Rightarrow>
                 if fst (await e jb1) then (R_AGAIN, CookResponseHeader sv mk (sd_view e) jb1)
                 else HandleSuddenError sv (sd_view e) jb1
             | STATE_SEND_BUF_NOT_FITEM \<Rightarrow> return_stream_ok jb1
             | STATE_DISCO_ASAP \<Rightarrow> (R_DISCON, jb1)
             | STATE_SEND_DATA \<Rightarrow> send_data_state sv e jb1
             | STATE_SEND_CHUNK_HEADER \<Rightarrow> chunk_header_state sv e jb1
             | STATE_SEND_CHUNK_DATA \<Rightarrow> chunk_data_state sv e jb1) = (r, jb')"
        using assms True p(3) by (simp add: SendData_def)
      show ?thesis by (rule cont [OF f']) (use A in simp_all)
    next
      case (Some x)
      then have x: "x = (r, jb')" using assms f True by (simp add: SendData_def)
      then have "r = R_AGAIN \<and> jb' = jb1 \<and> jb_sendbuf jb1 \<noteq> [] \<or> r = R_DISCON" using p(10) Some by blast
      then show ?thesis using disc part [of jb1] Some f x by auto
    qed
  qed
qed

lemma SendData_plain:
  assumes inv: "plain_inv C pre start to jb" and e: "file_ok C e" and r: "SendData sv mk e jb = (r, jb')"
  shows "(r = R_AGAIN \<longrightarrow> plain_inv C pre start to jb') \<and>
    (r = R_DONE \<longrightarrow> plain_end C pre start to jb')"
proof -
  have w: "jb_eMaintWorkType jb = workNotSpecial" "jb_activity jb = STATE_SEND_DATA" using inv by (simp_all add: plain_inv_def)
  from r w(1) show ?thesis
  proof (cases rule: SendData_cases)
    case disc
    then show ?thesis by simp
  next
    case (part jb1)
    then show ?thesis using inv flush_sendbuf_props [OF part(3)] by (auto simp: plain_inv_def)
  next
    case (cont jb1)
    note p = flush_sendbuf_props [OF cont(1)]
    have "jb_out jb1 @ jb_sendbuf jb1 = jb_out jb @ jb_sendbuf jb" using p(1) by auto
    then have "plain_inv C pre start to jb1" using inv p(2-9) by (auto simp: plain_inv_def)
    then show ?thesis using send_data_state_plain e cont(2,3) w(2) by blast
  qed
qed

lemma run_send_plain:
  assumes "plain_inv C pre start to jb" "\<forall>e \<in> set es. file_ok C e" "run_send sv mk es jb = (R_DONE, jb')"
  shows "plain_end C pre start to jb'"
  using assms
proof (induction es arbitrary: jb)
  case (Cons e es)
  obtain r jb1 where s: "SendData sv mk e jb = (r, jb1)" by fastforce
  note p = SendData_plain [OF Cons.prems(1) _ s]
  show ?case
  proof (cases "r = R_AGAIN")
    case True
    then have "plain_inv C pre start to jb1" "run_send sv mk es jb1 = (R_DONE, jb')" using p Cons.prems s by auto
    then show ?thesis using Cons.IH Cons.prems(2) by simp
  next
    case False
    then show ?thesis using p Cons.prems s by auto
  qed
qed simp

text \<open>The length announced by \<open>CookResponseHeader\<close> for a response that is not chunked.\<close>

definition announced :: "fileitem \<Rightarrow> job \<Rightarrow> off_t" where
  "announced fi jb =
     (if jb_nReqRangeFrom jb \<ge> 0 \<and> fi_sizeChecked fi > jb_nReqRangeFrom jb \<and> fi_contentLength fi > 0
      then (if jb_nReqRangeTo jb < 0 then fi_contentLength fi - jb_nReqRangeFrom jb
            else jb_nReqRangeTo jb + 1 - jb_nReqRangeFrom jb)
      else fi_contentLength fi)"

lemma put_simps [simp]:
  "jb_sendbuf (put s jb) = jb_sendbuf jb @ s" "jb_out (put s jb) = jb_out jb" "jb_activity (put s jb) = jb_activity jb"
  "jb_nSendPos (put s jb) = jb_nSendPos jb" "jb_nReqRangeTo (put s jb) = jb_nReqRangeTo jb" "jb_nReqRangeFrom (put s jb) = jb_nReqRangeFrom jb"
  "jb_nAllDataCount (put s jb) = jb_nAllDataCount jb" "jb_bIsHeadOnly (put s jb) = jb_bIsHeadOnly jb"
  "jb_eMaintWorkType (put s jb) = jb_eMaintWorkType jb" "jb_keepAlive (put s jb) = jb_keepAlive jb" "jb_bIsHttp11 (put s jb) = jb_bIsHttp11 jb"
  "jb_nChunkEnd (put s jb) = jb_nChunkEnd jb"
  by (simp_all add: put_def)

lemmas head_defs = AppendMetaHeaders_def PrependHttpVariant_def quickResponse_def SetEarlySimpleResponse_def

lemma cook_range_state:
  fixes fi jb sv ct
  defines "jb1 \<equiv> cook_range sv \<lparr>iv_fi = fi, iv_raw = [], iv_ctype = ct\<rparr> jb"
  assumes "fi_contentLength fi \<ge> 0" "jb_nReqRangeFrom jb < fi_contentLength fi" "jb_nReqRangeTo jb < fi_contentLength fi"
  shows "jb_activity jb1 = jb_activity jb" "jb_out jb1 = jb_out jb" "jb_nAllDataCount jb1 = jb_nAllDataCount jb"
    "jb_bIsHeadOnly jb1 = jb_bIsHeadOnly jb" "jb_eMaintWorkType jb1 = jb_eMaintWorkType jb"
    "if jb_nReqRangeFrom jb \<ge> 0 \<and> fi_sizeChecked fi > jb_nReqRangeFrom jb \<and> fi_contentLength fi > 0
     then jb_nSendPos jb1 = jb_nReqRangeFrom jb \<and> jb_nReqRangeTo jb1 = jb_nReqRangeTo jb
     else jb_nSendPos jb1 = jb_nSendPos jb \<and> jb_nReqRangeTo jb1 = -1"
    "\<exists>p q. jb_sendbuf jb1 = jb_sendbuf jb @ p @ ''Content-Length: '' @ int_str (announced fi jb) @ svRN @ q"
proof -
  show "jb_activity jb1 = jb_activity jb" "jb_out jb1 = jb_out jb" "jb_nAllDataCount jb1 = jb_nAllDataCount jb"
    "jb_bIsHeadOnly jb1 = jb_bIsHeadOnly jb" "jb_eMaintWorkType jb1 = jb_eMaintWorkType jb"
    "if jb_nReqRangeFrom jb \<ge> 0 \<and> fi_sizeChecked fi > jb_nReqRangeFrom jb \<and> fi_contentLength fi > 0
     then jb_nSendPos jb1 = jb_nReqRangeFrom jb \<and> jb_nReqRangeTo jb1 = jb_nReqRangeTo jb
     else jb_nSendPos jb1 = jb_nSendPos jb \<and> jb_nReqRangeTo jb1 = -1"
    using assms by (auto simp: cook_range_def head_defs Let_def)
  let ?part = "jb_nReqRangeFrom jb \<ge> 0 \<and> fi_sizeChecked fi > jb_nReqRangeFrom jb \<and> fi_contentLength fi > 0"
  let ?a = "''Content-Length: '' @ int_str (announced fi jb) @ svRN"
  let ?v = "if jb_bIsHttp11 jb then ''HTTP/1.1 '' else ''HTTP/1.0 ''"
  let ?m = "(case jb_keepAlive jb of KEEP_ALIVE \<Rightarrow> ''Connection: Keep-Alive'' @ svRN | CLOSE \<Rightarrow> ''Connection: close'' @ svRN | UNSPECIFIED \<Rightarrow> []) @
          ''Date: '' @ date_view (tHttpDate_time (sv_now sv)) @ svRN @ ''Server: Debian Apt-Cacher NG/'' @ sv_version sv @ svRN @ svRN"
  let ?h = "if ?part then ?v @ ''206 Partial Content'' @ svRN @ ''Content-Type: '' @ ct @ svRN @ date_line fi @
        ''Content-Range: bytes '' @ int_str (jb_nReqRangeFrom jb) @ ''-'' @
        int_str (if jb_nReqRangeTo jb > 0 then jb_nReqRangeTo jb else fi_contentLength fi - 1) @ ''/'' @ int_str (fi_contentLength fi) @ svRN
      else ?v @ ''200 OK'' @ svRN @ ''Content-Type: '' @ ct @ svRN @ date_line fi"
  have "jb_sendbuf jb1 = jb_sendbuf jb @ ?h @ ''Content-Length: '' @ int_str (announced fi jb) @ svRN @ source_line fi @ ?m"
    using assms(2-4) by (simp add: jb1_def cook_range_def head_defs Let_def announced_def)
  then show "\<exists>p q. jb_sendbuf jb1 = jb_sendbuf jb @ p @ ''Content-Length: '' @ int_str (announced fi jb) @ svRN @ q"
    by (intro exI [of _ ?h] exI [of _ "source_line fi @ ?m"])
qed


definition srv_demo :: srv where
  "srv_demo = \<lparr>sv_now = 0, sv_version = ''3'', sv_footer = []\<rparr>"

definition send_env_demo :: "string \<Rightarrow> send_env" where
  "send_env_demo file =
     \<lparr>sd_confd_ok = True, sd_send = Sent 1000, sd_obs = [(FIST_COMPLETE, int (length file))],
      sd_view = Some \<lparr>iv_fi = fileitem_new ''a'', iv_raw = [], iv_ctype = []\<rparr>, sd_fd_ok = True, sd_data = Some 2, sd_file = file\<rparr>"


section \<open>Chunked responses\<close>

definition enc1 :: "string \<Rightarrow> string" where
  "enc1 d = hex_str (length d) @ svRN @ d @ svRN"

lemma chunk_enc_concat: "chunk_enc ds = concat (map enc1 ds) @ ''0'' @ svRN @ svRN"
  by (induction ds) (simp_all add: enc1_def)

text \<open>The invariant of a chunked transfer: after the head the complete chunks, and the beginning of the current one.\<close>

definition chunk_inv :: "string \<Rightarrow> string \<Rightarrow> job \<Rightarrow> bool" where
  "chunk_inv C pre jb \<longleftrightarrow>
     \<not> jb_bIsHeadOnly jb \<and> jb_eMaintWorkType jb = workNotSpecial \<and> 0 \<le> jb_nSendPos jb \<and> jb_nSendPos jb \<le> int (length C) \<and>
     0 \<le> jb_nAllDataCount jb \<and> (jb_sendbuf jb = [] \<longrightarrow> 0 < jb_nAllDataCount jb) \<and>
     (\<exists>ds. (\<forall>d \<in> set ds. d \<noteq> []) \<and>
       (case jb_activity jb of
          STATE_SEND_CHUNK_HEADER \<Rightarrow>
            concat ds = slice C 0 (jb_nSendPos jb) \<and> jb_out jb @ jb_sendbuf jb = pre @ concat (map enc1 ds)
        | STATE_SEND_CHUNK_DATA \<Rightarrow>
            (\<exists>a. 0 \<le> a \<and> a \<le> jb_nSendPos jb \<and> a < jb_nChunkEnd jb \<and> jb_nSendPos jb \<le> jb_nChunkEnd jb \<and>
               jb_nChunkEnd jb \<le> int (length C) \<and> concat ds = slice C 0 a \<and>
               jb_out jb @ jb_sendbuf jb = pre @ concat (map enc1 ds) @ hex_str (nat (jb_nChunkEnd jb - a)) @ svRN @
                 slice C a (jb_nSendPos jb))
        | STATE_DONE \<Rightarrow> concat ds = C \<and> jb_out jb @ jb_sendbuf jb = pre @ chunk_enc ds
        | _ \<Rightarrow> False))"

lemma chunk_inv_dataI:
  assumes "jb_activity jb = STATE_SEND_CHUNK_DATA" "\<forall>d \<in> set ds. d \<noteq> []" "concat ds = slice C 0 a"
    and "0 \<le> a" "a \<le> jb_nSendPos jb" "a < jb_nChunkEnd jb" "jb_nSendPos jb \<le> jb_nChunkEnd jb" "jb_nChunkEnd jb \<le> int (length C)"
    and "jb_out jb @ jb_sendbuf jb = pre @ concat (map enc1 ds) @ hex_str (nat (jb_nChunkEnd jb - a)) @ svRN @ slice C a (jb_nSendPos jb)"
    and "\<not> jb_bIsHeadOnly jb" "jb_eMaintWorkType jb = workNotSpecial" "0 < jb_nAllDataCount jb"
  shows "chunk_inv C pre jb"
proof -
  have "\<exists>ds. (\<forall>d \<in> set ds. d \<noteq> []) \<and> (\<exists>a. 0 \<le> a \<and> a \<le> jb_nSendPos jb \<and> a < jb_nChunkEnd jb \<and> jb_nSendPos jb \<le> jb_nChunkEnd jb \<and>
               jb_nChunkEnd jb \<le> int (length C) \<and> concat ds = slice C 0 a \<and>
               jb_out jb @ jb_sendbuf jb = pre @ concat (map enc1 ds) @ hex_str (nat (jb_nChunkEnd jb - a)) @ svRN @
                 slice C a (jb_nSendPos jb))"
    using assms(2-9) by blast
  then show ?thesis using assms(1,4,5,7,8,10-12) by (simp add: chunk_inv_def)
qed

lemma chunk_inv_headI:
  assumes "jb_activity jb = STATE_SEND_CHUNK_HEADER" "\<forall>d \<in> set ds. d \<noteq> []" "concat ds = slice C 0 (jb_nSendPos jb)"
    and "0 \<le> jb_nSendPos jb" "jb_nSendPos jb \<le> int (length C)" "jb_out jb @ jb_sendbuf jb = pre @ concat (map enc1 ds)"
    and "\<not> jb_bIsHeadOnly jb" "jb_eMaintWorkType jb = workNotSpecial" "0 < jb_nAllDataCount jb"
  shows "chunk_inv C pre jb"
proof -
  have "\<exists>ds. (\<forall>d \<in> set ds. d \<noteq> []) \<and> concat ds = slice C 0 (jb_nSendPos jb) \<and> jb_out jb @ jb_sendbuf jb = pre @ concat (map enc1 ds)"
    using assms(2,3,6) by blast
  then show ?thesis using assms(1,4,5,7-9) by (simp add: chunk_inv_def)
qed

lemma chunk_inv_doneI:
  assumes "jb_activity jb = STATE_DONE" "\<forall>d \<in> set ds. d \<noteq> []" "concat ds = C"
    and "0 \<le> jb_nSendPos jb" "jb_nSendPos jb \<le> int (length C)" "jb_out jb @ jb_sendbuf jb = pre @ chunk_enc ds"
    and "\<not> jb_bIsHeadOnly jb" "jb_eMaintWorkType jb = workNotSpecial" "0 < jb_nAllDataCount jb"
  shows "chunk_inv C pre jb"
proof -
  have "\<exists>ds. (\<forall>d \<in> set ds. d \<noteq> []) \<and> concat ds = C \<and> jb_out jb @ jb_sendbuf jb = pre @ chunk_enc ds"
    using assms(2,3,6) by blast
  then show ?thesis using assms(1,4,5,7-9) by (simp add: chunk_inv_def)
qed

lemma chunk_inv_frame:
  assumes "chunk_inv C pre jb" and eqs: "jb_out jb1 @ jb_sendbuf jb1 = jb_out jb @ jb_sendbuf jb" "jb_activity jb1 = jb_activity jb"
    "jb_bIsHeadOnly jb1 = jb_bIsHeadOnly jb" "jb_eMaintWorkType jb1 = jb_eMaintWorkType jb" "jb_nSendPos jb1 = jb_nSendPos jb"
    "jb_nChunkEnd jb1 = jb_nChunkEnd jb"
    and "0 \<le> jb_nAllDataCount jb1" "jb_sendbuf jb1 = [] \<longrightarrow> 0 < jb_nAllDataCount jb1"
  shows "chunk_inv C pre jb1"
  unfolding chunk_inv_def eqs using assms(1,8,9) unfolding chunk_inv_def by blast

definition chunk_end :: "string \<Rightarrow> string \<Rightarrow> job \<Rightarrow> bool" where
  "chunk_end C pre jb \<longleftrightarrow> (\<exists>ds. (\<forall>d \<in> set ds. d \<noteq> []) \<and> concat ds = C \<and> jb_out jb = pre @ chunk_enc ds)"

lemma chunk_header_step:
  assumes inv: "chunk_inv C pre jb" and e: "file_ok C e" and em: "jb_sendbuf jb = []" and act: "jb_activity jb = STATE_SEND_CHUNK_HEADER"
    and r: "chunk_header_state sv e jb = (r, jb')"
  shows "r \<noteq> R_DONE \<and> (r = R_AGAIN \<longrightarrow> chunk_inv C pre jb')"
proof -
  obtain ok st sz where aw: "await e jb = (ok, st, sz)" by (metis prod_cases3)
  have nh: "\<not> jb_bIsHeadOnly jb" and cnt: "0 < jb_nAllDataCount jb" using inv em by (auto simp: chunk_inv_def)
  obtain ds where ds: "\<forall>d \<in> set ds. d \<noteq> []" "concat ds = slice C 0 (jb_nSendPos jb)" "jb_out jb = pre @ concat (map enc1 ds)"
    using inv act em by (auto simp: chunk_inv_def)
  show ?thesis
  proof (cases ok)
    case False
    then show ?thesis using r aw cnt by (auto simp: chunk_header_state_def HandleSuddenError_def return_discon_def Let_def)
  next
    case True
    note ob = await_obs [OF aw True nh]
    have sz: "sz \<le> int (length C)" "st = FIST_COMPLETE \<longrightarrow> sz = int (length C)"
      using ob e by (auto simp: file_ok_def)
    show ?thesis
    proof (cases "st = FIST_COMPLETE \<and> jb_nSendPos jb = sz")
      case fin: True
      then have "slice C 0 (jb_nSendPos jb) = C" using sz by (simp add: slice_def)
      then have "chunk_inv C pre ((put (''0'' @ svRN @ svRN) jb)\<lparr>jb_activity := STATE_DONE\<rparr>)"
        by (intro chunk_inv_doneI [of _ ds]) (use ds inv em cnt in \<open>auto simp: chunk_enc_concat chunk_inv_def\<close>)
      then show ?thesis using r aw True fin by (auto simp: chunk_header_state_def Let_def)
    next
      case go: False
      have lt: "jb_nSendPos jb < sz" using go ob sz inv by (auto simp: chunk_inv_def)
      let ?jb = "put (hex_str (nat (sz - jb_nSendPos jb)) @ svRN)
          (jb\<lparr>jb_filefd := True, jb_nChunkEnd := sz, jb_activity := STATE_SEND_CHUNK_DATA\<rparr>)"
      have "chunk_inv C pre ?jb"
      proof (rule chunk_inv_dataI)
        show "jb_out ?jb @ jb_sendbuf ?jb = pre @ concat (map enc1 ds) @ hex_str (nat (jb_nChunkEnd ?jb - jb_nSendPos jb)) @ svRN @
            slice C (jb_nSendPos jb) (jb_nSendPos ?jb)"
          using ds(3) em by simp
      qed (use inv ds lt sz(1) cnt in \<open>auto simp: chunk_inv_def\<close>)
      then show ?thesis using r aw True go cnt
        by (auto simp: chunk_header_state_def HandleSuddenError_def return_discon_def Let_def split: if_splits)
    qed
  qed
qed

lemma chunk_data_step:
  assumes inv: "chunk_inv C pre jb" and e: "file_ok C e" and em: "jb_sendbuf jb = []" and act: "jb_activity jb = STATE_SEND_CHUNK_DATA"
    and r: "chunk_data_state sv e jb = (r, jb')"
  shows "r \<noteq> R_DONE \<and> (r = R_AGAIN \<longrightarrow> chunk_inv C pre jb')"
proof (cases "item_SendData e (jb_nChunkEnd jb - jb_nSendPos jb) jb")
  case None
  then show ?thesis using r inv em by (auto simp: chunk_data_state_def HandleSuddenError_def return_discon_def chunk_inv_def)
next
  case (Some x)
  obtain n jb1 where x: "x = (n, jb1)" by fastforce
  obtain ds a where ds: "\<forall>d \<in> set ds. d \<noteq> []" "concat ds = slice C 0 a"
    and a: "0 \<le> a" "a \<le> jb_nSendPos jb" "a < jb_nChunkEnd jb" "jb_nSendPos jb \<le> jb_nChunkEnd jb" "jb_nChunkEnd jb \<le> int (length C)"
    and out: "jb_out jb = pre @ concat (map enc1 ds) @ hex_str (nat (jb_nChunkEnd jb - a)) @ svRN @ slice C a (jb_nSendPos jb)"
    using inv act em by (auto simp: chunk_inv_def)
  obtain p where p: "jb1 = jb\<lparr>jb_nSendPos := p, jb_out := jb_out jb @ slice C (jb_nSendPos jb) p\<rparr>"
    "jb_nSendPos jb \<le> p" "p \<le> jb_nSendPos jb + (jb_nChunkEnd jb - jb_nSendPos jb)" "int n = p - jb_nSendPos jb"
    using item_SendData_slice [OF Some [unfolded x] e] a by auto
  have sl: "slice C a (jb_nSendPos jb) @ slice C (jb_nSendPos jb) p = slice C a p" using a p(2) by (intro slice_append) auto
  let ?jb2 = "jb1\<lparr>jb_nAllDataCount := jb_nAllDataCount jb1 + int n\<rparr>"
  have base: "0 \<le> jb_nSendPos ?jb2" "jb_nSendPos ?jb2 \<le> int (length C)" "0 < jb_nAllDataCount ?jb2" "\<not> jb_bIsHeadOnly ?jb2"
    "jb_eMaintWorkType ?jb2 = workNotSpecial" "jb_sendbuf ?jb2 = []" "jb_activity ?jb2 = STATE_SEND_CHUNK_DATA" "jb_nChunkEnd ?jb2 = jb_nChunkEnd jb"
    "jb_out ?jb2 = pre @ concat (map enc1 ds) @ hex_str (nat (jb_nChunkEnd jb - a)) @ svRN @ slice C a p"
    using inv em act a p(1-4) out sl by (auto simp: chunk_inv_def)
  show ?thesis
  proof (cases "p = jb_nChunkEnd jb")
    case False
    have "chunk_inv C pre ?jb2"
      by (rule chunk_inv_dataI [of _ ds _ a]) (use base ds a p(1-3) in auto)
    then show ?thesis using r Some x False p(1) by (auto simp: chunk_data_state_def Let_def)
  next
    case True
    let ?d = "slice C a p" and ?jb3 = "(put svRN ?jb2)\<lparr>jb_activity := STATE_SEND_CHUNK_HEADER\<rparr>"
    have len: "length ?d = nat (jb_nChunkEnd jb - a)" using length_slice [of a p C] a True by simp
    then have ne: "?d \<noteq> []" using a by auto
    have "concat (ds @ [?d]) = slice C 0 p" using ds(2) slice_append [of 0 a p C] a p(2) by simp
    moreover have "jb_out ?jb3 @ jb_sendbuf ?jb3 = pre @ concat (map enc1 (ds @ [?d]))"
      using base len by (simp add: enc1_def)
    moreover have "jb_nSendPos ?jb3 = p" "jb_sendbuf ?jb3 \<noteq> []" using p(1) by (auto simp: svRN_def)
    ultimately have "chunk_inv C pre ?jb3"
      by (intro chunk_inv_headI [of _ "ds @ [?d]"]) (use base ds(1) ne in auto)
    then show ?thesis using r Some x True p(1) by (auto simp: chunk_data_state_def Let_def)
  qed
qed

lemma SendData_chunked:
  assumes inv: "chunk_inv C pre jb" and e: "file_ok C e" and r: "SendData sv mk e jb = (r, jb')"
  shows "(r = R_AGAIN \<longrightarrow> chunk_inv C pre jb') \<and> (r = R_DONE \<longrightarrow> chunk_end C pre jb')"
proof -
  have w: "jb_eMaintWorkType jb = workNotSpecial"
    "jb_activity jb \<in> {STATE_SEND_CHUNK_HEADER, STATE_SEND_CHUNK_DATA, STATE_DONE}"
    using inv by (simp add: chunk_inv_def, cases "jb_activity jb") (use inv in \<open>simp_all add: chunk_inv_def\<close>)
  have cnt: "0 \<le> jb_nAllDataCount jb" "jb_sendbuf jb = [] \<longrightarrow> 0 < jb_nAllDataCount jb"
    using inv unfolding chunk_inv_def by blast+
  from r w(1) show ?thesis
  proof (cases rule: SendData_cases)
    case disc
    then show ?thesis by simp
  next
    case (part jb1)
    then have "jb_out jb1 @ jb_sendbuf jb1 = jb_out jb @ jb_sendbuf jb" using flush_sendbuf_props(1) [OF part(3)] by auto
    note f = chunk_inv_frame [OF inv this flush_sendbuf_props(3,4,5,7,8) [OF part(3)]]
    have "0 \<le> jb_nAllDataCount jb1" using cnt flush_sendbuf_props(2) [OF part(3)] by simp
    then show ?thesis using part f by simp
  next
    case (cont jb1)
    note p = flush_sendbuf_props [OF cont(1)]
    have o: "jb_out jb1 @ jb_sendbuf jb1 = jb_out jb @ jb_sendbuf jb" using p(1) by auto
    have "0 < jb_nAllDataCount jb1" using cnt p(2) p(9) [OF refl] by (cases "jb_sendbuf jb = []") auto
    then have inv1: "chunk_inv C pre jb1" by (intro chunk_inv_frame [OF inv o p(3,4,5,7,8)]) auto
    show ?thesis
    proof (cases "jb_activity jb = STATE_DONE")
      case True
      have "chunk_end C pre jb1" using inv1 True p(3) cont(2) by (auto simp: chunk_inv_def chunk_end_def)
      then show ?thesis using cont(6) [OF True] return_stream_ok_simps [of jb1] by (auto simp: chunk_end_def)
    next
      case False
      then show ?thesis
        using w(2) chunk_header_step [OF inv1 e cont(2), of sv r jb'] chunk_data_step [OF inv1 e cont(2), of sv r jb'] cont(4,5) p(3) by auto
    qed
  qed
qed

lemma run_send_chunked:
  assumes "chunk_inv C pre jb" "\<forall>e \<in> set es. file_ok C e" "run_send sv mk es jb = (R_DONE, jb')"
  shows "chunk_end C pre jb'"
  using assms
proof (induction es arbitrary: jb)
  case (Cons e es)
  obtain r jb1 where s: "SendData sv mk e jb = (r, jb1)" by fastforce
  note p = SendData_chunked [OF Cons.prems(1) _ s]
  show ?case using Cons p s by (cases "r = R_AGAIN") auto
qed simp

definition fresh_job :: "job \<Rightarrow> bool" where
  "fresh_job jb \<longleftrightarrow>
     \<not> jb_bIsHeadOnly jb \<and> jb_eMaintWorkType jb = workNotSpecial \<and> jb_nSendPos jb = 0 \<and> jb_nAllDataCount jb = 0 \<and>
     jb_sendbuf jb = [] \<and> jb_out jb = []"

lemma activity_simps [simp]:
  "jb_activity (PrependHttpVariant jb) = jb_activity jb" "jb_activity (AppendMetaHeaders sv jb) = jb_activity jb"
  "jb_activity (quickResponse sv m nb a jb) = a" "jb_activity (AddPtHeader raw jb) = jb_activity jb"
  by (simp_all add: head_defs AddPtHeader_def Let_def split: option.split)

lemma AppendMetaHeaders_end: "\<exists>h. jb_sendbuf (AppendMetaHeaders sv jb) = h @ svRN @ svRN"
  unfolding AppendMetaHeaders_def put_simps
  by (rule exI [of _ "jb_sendbuf jb @ (case jb_keepAlive jb of
             KEEP_ALIVE \<Rightarrow> ''Connection: Keep-Alive'' @ svRN | CLOSE \<Rightarrow> ''Connection: close'' @ svRN | UNSPECIFIED \<Rightarrow> []) @
          ''Date: '' @ date_view (tHttpDate_time (sv_now sv)) @ svRN @ ''Server: Debian Apt-Cacher NG/'' @ sv_version sv"])
    (simp only: append.assoc)

lemma cook_range_activity: "jb_activity (cook_range sv iv jb) = jb_activity jb \<or> jb_activity (cook_range sv iv jb) = STATE_SEND_BUF_NOT_FITEM"
  by (simp add: cook_range_def Let_def)

lemma cook_chunked:
  assumes act: "jb_activity (CookResponseHeader sv mk item jb) = STATE_SEND_CHUNK_HEADER" (is "jb_activity ?jb = _")
    and fresh: "fresh_job jb"
  shows "chunk_inv C (jb_sendbuf ?jb) ?jb \<and> (\<exists>h. jb_sendbuf ?jb = h @ svRN @ svRN)"
proof -
  have ca: "jb_activity (cook_range sv iv (jb\<lparr>jb_activity := STATE_SEND_DATA, jb_sendbuf := []\<rparr>)) \<noteq> STATE_SEND_CHUNK_HEADER" for iv
    using cook_range_activity [of sv iv "jb\<lparr>jb_activity := STATE_SEND_DATA, jb_sendbuf := []\<rparr>"] by auto
  obtain iv where iv: "item = Some iv" using act by (cases item) (simp_all add: CookResponseHeader_def Let_def)
  let ?fi = "iv_fi iv"
  let ?start = "jb\<lparr>jb_activity := STATE_SEND_CHUNK_HEADER, jb_sendbuf := [], jb_nReqRangeTo := -1, jb_nReqRangeFrom := 0\<rparr>"
  let ?s = "int_str (st_code (fi_responseStatus ?fi)) @ '' '' @ st_msg (fi_responseStatus ?fi) @ svRN @ ''Content-Type: '' @ iv_ctype iv @ svRN @
    date_line ?fi @ ''Transfer-Encoding: chunked'' @ svRN @ source_line ?fi"
  have J: "CookResponseHeader sv mk item jb = AppendMetaHeaders sv (put ?s (PrependHttpVariant ?start))"
  proof -
    let ?j = "jb\<lparr>jb_activity := STATE_SEND_DATA, jb_sendbuf := []\<rparr>"
    have c: "\<not> iv_raw iv \<noteq> []" "\<not> (isRedirect (fi_responseStatus ?fi) \<or> mustNotHaveBody (fi_responseStatus ?fi))"
      "\<not> st_code (fi_responseStatus ?fi) \<noteq> 200" "go_chunked ?fi ?j"
      "\<not> (date_isSet (jb_ifMoSince ?j) \<and> date_isSet (fi_responseModDate ?fi) \<and> date_ge mk (jb_ifMoSince ?j) (fi_responseModDate ?fi))"
      using act ca by (auto simp: CookResponseHeader_def iv Let_def split: if_splits)
    have E: "?j\<lparr>jb_activity := STATE_SEND_CHUNK_HEADER, jb_nReqRangeTo := -1, jb_nReqRangeFrom := 0\<rparr> = ?start" by simp
    show ?thesis
      unfolding CookResponseHeader_def iv Let_def option.case if_not_P [OF c(1)] if_not_P [OF c(2)] if_not_P [OF c(3)] if_not_P [OF c(5)]
        if_P [OF c(4)] E append.assoc by (rule refl)
  qed
  have f: "jb_out ?jb = []" "jb_nSendPos ?jb = 0" "\<not> jb_bIsHeadOnly ?jb" "jb_eMaintWorkType ?jb = workNotSpecial"
    "jb_nAllDataCount ?jb = 0" using fresh unfolding J by (simp_all add: head_defs fresh_job_def)
  have "\<exists>h. jb_sendbuf ?jb = h @ svRN @ svRN" unfolding J by (rule AppendMetaHeaders_end)
  moreover from this have "jb_sendbuf ?jb \<noteq> []" by (auto simp: svRN_def)
  moreover have "\<exists>ds. (\<forall>d \<in> set ds. d \<noteq> []) \<and> concat ds = slice C 0 0 \<and> jb_sendbuf ?jb = jb_sendbuf ?jb @ concat (map enc1 ds)"
    by (rule exI [of _ "[]"]) simp
  ultimately show ?thesis unfolding chunk_inv_def using f act by simp
qed

text \<open>
  C13. A response whose length is not known is sent as a well-formed chunked body: when the job is
  done, the client has got a head that ends with an empty line, then chunks, none of them empty,
  whose concatenation is the file, and the final chunk, however the sends were cut.
\<close>

theorem chunked_response_is_well_formed:
  assumes "jb_activity (CookResponseHeader sv mk item jb) = STATE_SEND_CHUNK_HEADER" "fresh_job jb"
    and "run_send sv mk es (CookResponseHeader sv mk item jb) = (R_DONE, jb')" "\<forall>e \<in> set es. file_ok C e"
  shows "\<exists>head ds. jb_out jb' = head @ svRN @ svRN @ chunk_enc ds \<and> concat ds = C \<and> (\<forall>d \<in> set ds. d \<noteq> [])"
proof -
  note c = cook_chunked [OF assms(1,2), of C]
  from run_send_chunked [OF _ assms(4,3)] c have "chunk_end C (jb_sendbuf (CookResponseHeader sv mk item jb)) jb'" by blast
  then show ?thesis using c by (auto simp: chunk_end_def) blast
qed

definition chunked_item :: item_view where
  "chunked_item = \<lparr>iv_fi = (fileitem_new ''a'')\<lparr>fi_status := FIST_DLRECEIVING, fi_sizeChecked := 2,
     fi_responseStatus := \<lparr>st_code = 200, st_msg = ''OK''\<rparr>\<rparr>, iv_raw = [], iv_ctype = ''x''\<rparr>"

theorem chunked_response_is_well_formed_witness:
  "let e = send_env_demo ''abc'';
       (r, jb') = run_send srv_demo timegm_ref [e, e, e, e, e] (CookResponseHeader srv_demo timegm_ref (Some chunked_item) job_new)
   in r = R_DONE \<and> (\<exists>head ds. jb_out jb' = head @ svRN @ svRN @ chunk_enc ds \<and> concat ds = ''abc'')"
proof -
  define e where "e = send_env_demo ''abc''"
  let ?jb = "CookResponseHeader srv_demo timegm_ref (Some chunked_item) job_new"
  define run where "run = run_send srv_demo timegm_ref [e, e, e, e, e] ?jb"
  have a: "jb_activity ?jb = STATE_SEND_CHUNK_HEADER" by code_simp
  have f: "fresh_job job_new" by (simp add: fresh_job_def job_new_def)
  have "fst run = R_DONE" unfolding run_def e_def by code_simp
  then have run: "run = (R_DONE, snd run)" by (metis prod.collapse)
  have ok: "\<forall>e' \<in> set [e, e, e, e, e]. file_ok ''abc'' e'" by (simp add: e_def send_env_demo_def file_ok_def)
  from chunked_response_is_well_formed [OF a f run [unfolded run_def] ok]
  have "\<exists>head ds. jb_out (snd run) = head @ svRN @ svRN @ chunk_enc ds \<and> concat ds = ''abc''" unfolding run_def by blast
  with run show ?thesis unfolding Let_def e_def [symmetric] run_def [symmetric] by (cases run) simp
qed

text \<open>
  A range whose end lies before its start is not rejected: the answer is 206 with a length that
  is zero or negative.
\<close>

theorem reversed_range_is_accepted:
  assumes "0 \<le> jb_nReqRangeTo jb" "jb_nReqRangeTo jb < jb_nReqRangeFrom jb" "jb_nReqRangeFrom jb < fi_contentLength fi"
    and "jb_nReqRangeFrom jb < fi_sizeChecked fi"
  shows "announced fi jb \<le> 0 \<and> jb_activity (cook_range sv \<lparr>iv_fi = fi, iv_raw = [], iv_ctype = ct\<rparr> jb) = jb_activity jb \<and>
    (\<exists>p q. jb_sendbuf (cook_range sv \<lparr>iv_fi = fi, iv_raw = [], iv_ctype = ct\<rparr> jb) =
       jb_sendbuf jb @ p @ ''Content-Length: '' @ int_str (announced fi jb) @ svRN @ q)"
proof -
  have c: "fi_contentLength fi \<ge> 0" "jb_nReqRangeTo jb < fi_contentLength fi" using assms by simp_all
  note s = cook_range_state [OF c(1) assms(3) c(2), of sv ct]
  have "announced fi jb \<le> 0" using assms by (simp add: announced_def)
  then show ?thesis using s(1,7) by blast
qed

theorem reversed_range_is_accepted_witness:
  "let fi = (fileitem_new ''a'')\<lparr>fi_contentLength := 10, fi_sizeChecked := 10\<rparr>;
       jb = job_new\<lparr>jb_nReqRangeFrom := 5, jb_nReqRangeTo := 2\<rparr>
   in announced fi jb = -2 \<and>
      (\<exists>p q. jb_sendbuf (cook_range srv_demo \<lparr>iv_fi = fi, iv_raw = [], iv_ctype = []\<rparr> jb) = p @ ''Content-Length: -2'' @ svRN @ q)"
proof -
  let ?fi = "(fileitem_new ''a'')\<lparr>fi_contentLength := 10, fi_sizeChecked := 10\<rparr>"
  let ?jb = "job_new\<lparr>jb_nReqRangeFrom := 5, jb_nReqRangeTo := 2\<rparr>"
  have a: "announced ?fi ?jb = -2" by (simp add: announced_def)
  have i: "int_str (-2) = ''-2''" by code_simp
  from reversed_range_is_accepted [of ?jb ?fi srv_demo "[]"] show ?thesis
    unfolding Let_def a by (simp add: i job_new_def)
qed

section \<open>Requests for a range\<close>

lemma scan_ld_nat_str:
  assumes "n < 2 ^ 63" "rest = [] \<or> \<not> isdigit (hd rest)" "c_str rest = rest"
  shows "scan_ld (nat_str n @ rest) = Some (int n, rest)"
proof -
  have "nat_str n \<noteq> []" by (subst nat_str.simps) simp
  moreover have "strtol10 LLONG_MIN LLONG_MAX (nat_str n @ rest) = (int n, rest)"
    using assms by (intro strtol10_nat_str) (auto simp: LLONG_MAX_def LLONG_MIN_def)
  ultimately show ?thesis
    using assms(3) c_str_append [OF nat_str_no_nul, of n rest] by (simp add: scan_ld_def strtoll_def)
qed

text \<open>
  The two forms of a range that clients send are read as they are meant; an open range leaves the
  end unset.
\<close>

lemma ParseRange_standard:
  assumes "a < 2 ^ 63" "b < 2 ^ 63" "jb_nReqRangeTo jb = -1"
    and "hdr_h h RANGE = Some (''bytes='' @ nat_str a @ ''-'' @ (if open_end then [] else nat_str b))"
  shows "ParseRange h jb = (True, jb\<lparr>jb_nReqRangeFrom := int a, jb_nReqRangeTo := (if open_end then -1 else int b)\<rparr>)"
proof -
  let ?e = "if open_end then [] else nat_str b"
  have e0: "CHR 0x00 \<notin> set ?e" using nat_str_no_nul by simp
  then have z: "c_str (''bytes='' @ nat_str a @ ''-'' @ ?e) = ''bytes='' @ nat_str a @ ''-'' @ ?e" "c_str (''-'' @ ?e) = ''-'' @ ?e"
    using nat_str_no_nul [of a] by (auto intro!: c_str_id)
  have s1: "scan_ld (nat_str a @ ''-'' @ ?e) = Some (int a, ''-'' @ ?e)"
    using scan_ld_nat_str [OF assms(1), of "''-'' @ ?e"] z(2) by (simp add: isdigit_def)
  have s2: "scan_ld ?e = (if open_end then None else Some (int b, []))"
    using scan_ld_nat_str [OF assms(2), of "[]"] by (simp add: scan_ld_def strtoll_def c_str_def strtol10_def)
  have "scan_range ''bytes='' (''bytes='' @ nat_str a @ ''-'' @ ?e) (jb_nReqRangeFrom jb, jb_nReqRangeTo jb) =
      (if open_end then 1 else 2, int a, if open_end then -1 else int b)"
    using s1 s2 assms(3) by (auto simp: scan_range_def startsWith_def)
  then show ?thesis using assms(4) z(1) by (simp add: ParseRange_def Let_def)
qed

end
