(* ===== verification/LocalFiles.thy ===== *)
theory LocalFiles
  imports Job "HOL-Library.List_Lexorder" "HOL-Library.Char_ord" "HOL-Library.Product_Lexorder" "HOL-Library.Multiset"
begin

text \<open>
  \<open>src/job.cc\<close>: files and directory pages of a local directory (\<open>job::PrepareLocalDownload\<close>) and the
  items that hold a generated page, and the log entry of a finished job.

  The file system is a parameter: what \<open>stat\<close> and \<open>readdir\<close> return, the local time as text
  (\<open>strftime\<close>), and the MIME type of a name.
\<close>

section \<open>Generated items\<close>

record gen_item =
  gi_fi :: fileitem
  gi_data :: acbuf

definition gen_new :: "string \<Rightarrow> tRemoteStatus \<Rightarrow> string \<Rightarrow> gen_item" where
  "gen_new sFitemId status origUrl =
     \<lparr>gi_fi = (fileitem_new sFitemId)\<lparr>fi_status := FIST_DLRECEIVING, fi_responseOrigin := origUrl, fi_responseStatus := status\<rparr>,
      gi_data = ab_setsize 256 acbuf_new\<rparr>"

definition gen_put :: "string \<Rightarrow> gen_item \<Rightarrow> gen_item" where
  "gen_put s g = g\<lparr>gi_data := tss_add s (gi_data g)\<rparr>"

definition seal :: "gen_item \<Rightarrow> gen_item" where
  "seal g = g\<lparr>gi_fi := (gi_fi g)\<lparr>fi_sizeChecked := int (ab_size (gi_data g)),
                                  fi_contentLength := int (ab_size (gi_data g)), fi_status := FIST_COMPLETE\<rparr>\<rparr>"

text \<open>Result, bytes on the connection, new position, item; \<open>None\<close> while \<open>dumpall\<close> does not return.\<close>

definition gen_SendData :: "(bool + nat) list \<Rightarrow> bool \<Rightarrow> off_t \<Rightarrow> nat \<Rightarrow> gen_item \<Rightarrow> (int \<times> string \<times> off_t \<times> gen_item) option" where
  "gen_SendData ws fd_ok nSendPos nMax2SendNow g =
     (if fi_status (gi_fi g) > FIST_COMPLETE \<or> \<not> fd_ok then Some (-1, [], nSendPos, g)
      else if nMax2SendNow > ab_size (gi_data g) then Some (-1, [], nSendPos, g)
      else case ab_dumpall ws nMax2SendNow (gi_data g) of
             None \<Rightarrow> None
           | Some (ret, out, b) \<Rightarrow> Some (ret, out, if ret > 0 then nSendPos + ret else nSendPos, g\<lparr>gi_data := b\<rparr>))"

section \<open>Local files\<close>

datatype errno = EACCES | ELOOP | ENAMETOOLONG | ENOENT | ENOTDIR | EOTHER
datatype st_mode = S_ISDIR | S_ISREG | S_OTHER

record stat =
  st_mode :: st_mode
  st_size :: off_t
  st_mtime :: time_t

record local_env =
  le_stat :: "string \<Rightarrow> errno + stat"
  le_readdir :: "string \<Rightarrow> string list option"
  le_datestr :: "time_t \<Rightarrow> string"
  le_mime :: "string \<Rightarrow> string"

definition stat_error :: "errno \<Rightarrow> string" where
  "stat_error e =
     (case e of
        EACCES \<Rightarrow> ''403 Permission denied''
      | EOTHER \<Rightarrow> ''500 Internal server error''
      | ELOOP \<Rightarrow> ''500 Infinite link recursion''
      | ENAMETOOLONG \<Rightarrow> ''500 File name too long''
      | ENOENT \<Rightarrow> ''404, File or directory not found''
      | ENOTDIR \<Rightarrow> ''404, File or directory not found'')"

definition dirredirect :: "string \<Rightarrow> gen_item" where
  "dirredirect visPath =
     seal (gen_put (''<!DOCTYPE html>'' @ [CHR 0x0A] @
        ''<html lang=\"en\"><head><title>301 Moved Permanently</title></head><body><h1>Moved Permanently</h1>'' @
        ''<p>The document has moved <a href=\"'' @ visPath @ ''/\">here</a>.</p></body></html>'')
       (gen_new visPath \<lparr>st_code = 301, st_msg = ''Moved Permanently''\<rparr> (visPath @ ''/'')))"

definition listing_line :: "local_env \<Rightarrow> string \<Rightarrow> stat \<Rightarrow> string" where
  "listing_line env d_name st =
     (let bDir = (st_mode st = S_ISDIR) in
      (if bDir then ''[DIR]'' else if startsWith (le_mime env d_name) ''image/'' then ''[IMG]'' else ''[&nbsp;&nbsp;&nbsp;]'') @
      ''</td><td><a href=\"'' @ d_name @ (if bDir then ''/\">'' else ''\">'') @ d_name @ ''</a></td><td>'' @
      le_datestr env (st_mtime st) @ ''</td><td align=\"right\">'' @ (if bDir then ''-'' else offttosH (st_size st)))"

text \<open>The entries pushed into the heap: sort key and row. Entries that \<open>stat\<close> refuses are skipped.\<close>

fun sort_heap :: "local_env \<Rightarrow> string \<Rightarrow> string list \<Rightarrow> (string \<times> string) list" where
  "sort_heap env absPath [] = []"
| "sort_heap env absPath (d_name # ns) =
     (case le_stat env (absPath @ ''/'' @ d_name) of
        Inl _ \<Rightarrow> sort_heap env absPath ns
      | Inr st \<Rightarrow> ((if st_mode st = S_ISDIR then ''a'' else ''b'') @ d_name, listing_line env d_name st) # sort_heap env absPath ns)"

definition listing_rows :: "local_env \<Rightarrow> string \<Rightarrow> string list \<Rightarrow> string list" where
  "listing_rows env absPath ns = map snd (sort (sort_heap env absPath ns))"

definition listing :: "srv \<Rightarrow> local_env \<Rightarrow> string \<Rightarrow> string \<Rightarrow> gen_item" where
  "listing sv env visPath absPath =
     (let g0 = seal (gen_new visPath \<lparr>st_code = 200, st_msg = ''OK''\<rparr> []);
          g1 = gen_put (''<!DOCTYPE html>'' @ [CHR 0x0A] @ ''<html lang=\"en\"><head><title>Index of '' @ visPath @
            ''</title></head><body><h1>Index of '' @ visPath @ ''</h1>'' @
            ''<table><tr><th>&nbsp;</th><th>Name</th><th>Last modified</th><th>Size</th></tr>'' @
            ''<tr><th colspan=\"4\"><hr></th></tr>'') g0;
          g2 = (case le_readdir env absPath of
                  None \<Rightarrow> gen_put ''ERROR READING DIRECTORY'' g1
                | Some ns \<Rightarrow> fold (\<lambda>row g. gen_put (''<tr><td valign=\"top\">'' @ row @ ''</td></tr>'' @ svRN) g) (listing_rows env absPath ns) g1)
      in seal (gen_put (''<tr><td colspan=\"4\">'' @ sv_footer sv @ ''</td></tr></table></body></html>'') g2))"

definition tLocalGetFitem :: "string \<Rightarrow> stat \<Rightarrow> fileitem" where
  "tLocalGetFitem sLocalPath st =
     (fileitem_new sLocalPath)\<lparr>fi_status := FIST_COMPLETE, fi_sizeChecked := st_size st, fi_sizeCachedInitial := st_size st,
       fi_responseStatus := \<lparr>st_code = 200, st_msg = ''OK''\<rparr>, fi_contentLength := st_size st,
       fi_responseModDate := tHttpDate_time (st_mtime st)\<rparr>"

text \<open>The job, its item and the registry; the page of a generated item.\<close>

definition PrepareLocalDownload ::
  "srv \<Rightarrow> local_env \<Rightarrow> string \<Rightarrow> string \<Rightarrow> string \<Rightarrow> job \<Rightarrow> registry \<Rightarrow> job \<times> nat option \<times> registry \<times> gen_item option" where
  "PrepareLocalDownload sv env visPath fsBase fsSubpath jb r =
     (let absPath = fsBase @ ''/'' @ fsSubpath;
          reply = (\<lambda>msg. (SetEarlySimpleResponse sv msg False jb, None, r, None));
          install = (\<lambda>g. case Create_custom (gi_fi g) False r of (res, r1) \<Rightarrow> (jb, res, r1, Some g))
      in case le_stat env absPath of
           Inl e \<Rightarrow> reply (stat_error e)
         | Inr st \<Rightarrow>
             (case st_mode st of
                S_ISDIR \<Rightarrow> (if \<not> endsWith visPath ''/'' then install (dirredirect visPath)
                            else install (listing sv env visPath absPath))
              | S_OTHER \<Rightarrow> reply ''403 Unsupported data type''
              | S_ISREG \<Rightarrow> (case Create_custom (tLocalGetFitem absPath st) False r of (res, r1) \<Rightarrow> (jb, res, r1, None))))"

section \<open>End of a job\<close>

text \<open>\<open>job::~job\<close>: the entry for the log (name, forwarded-for, bytes in and out, error) and the item whose count is taken.\<close>

definition job_dtor :: "fileitem option \<Rightarrow> job \<Rightarrow> (string \<times> string \<times> 64 word \<times> off_t \<times> bool) \<times> fileitem option" where
  "job_dtor item jb =
     (let stcode = (case item of Some fi \<Rightarrow> st_code (fi_responseStatus fi) | None \<Rightarrow> 200);
          inCount = (case item of Some fi \<Rightarrow> fst (TakeTransferCount fi) | None \<Rightarrow> 0);
          bErr = (jb_sFileLoc jb = [] \<or> stcode \<ge> 400)
      in ((jb_sFileLoc jb @ (if bErr then '' [HTTP error, code: '' @ ltos stcode @ '']'' else []), jb_xff jb, inCount, jb_nAllDataCount jb, bErr),
          map_option (\<lambda>fi. snd (TakeTransferCount fi)) item))"


section \<open>Properties\<close>

definition is_ok :: "local_env \<Rightarrow> string \<Rightarrow> string \<Rightarrow> bool" where
  "is_ok env absPath n \<longleftrightarrow> \<not> isl (le_stat env (absPath @ ''/'' @ n))"

definition entry_stat :: "local_env \<Rightarrow> string \<Rightarrow> string \<Rightarrow> stat" where
  "entry_stat env absPath n = projr (le_stat env (absPath @ ''/'' @ n))"

definition is_dir :: "local_env \<Rightarrow> string \<Rightarrow> string \<Rightarrow> bool" where
  "is_dir env absPath n \<longleftrightarrow> st_mode (entry_stat env absPath n) = S_ISDIR"

definition entry :: "local_env \<Rightarrow> string \<Rightarrow> string \<Rightarrow> string \<times> string" where
  "entry env absPath n = ((if is_dir env absPath n then ''a'' else ''b'') @ n, listing_line env n (entry_stat env absPath n))"

lemma sort_heap_eq: "sort_heap env absPath ns = map (entry env absPath) (filter (is_ok env absPath) ns)"
  by (induction ns) (auto simp: entry_def is_ok_def is_dir_def entry_stat_def split: sum.splits)

text \<open>Directories come before files, and each group is in the order of the names.\<close>

definition entry_le :: "local_env \<Rightarrow> string \<Rightarrow> string \<Rightarrow> string \<Rightarrow> bool" where
  "entry_le env absPath m n \<longleftrightarrow>
     is_dir env absPath m \<and> \<not> is_dir env absPath n \<or> is_dir env absPath m = is_dir env absPath n \<and> m \<le> n"

lemma entry_le_iff: "entry env absPath m \<le> entry env absPath n \<Longrightarrow> entry_le env absPath m n"
  by (auto simp: entry_def entry_le_def less_eq_prod_def Cons_less_Cons less_char_def list_le_def split: if_splits)

lemma sorted_entries:
  obtains es where "mset es = mset (filter (is_ok env absPath) ns)" "sorted_wrt (entry_le env absPath) es"
    "sort (sort_heap env absPath ns) = map (entry env absPath) es"
proof -
  define es where "es = map (\<lambda>e. tl (fst e)) (sort (sort_heap env absPath ns))"
  have tl: "tl (fst (entry env absPath n)) = n" for n by (simp add: entry_def)
  have k: "entry env absPath (tl (fst e)) = e" if "e \<in> set (sort_heap env absPath ns)" for e
    using that tl by (auto simp: sort_heap_eq)
  then have m: "map (entry env absPath) es = sort (sort_heap env absPath ns)"
    unfolding es_def map_map by (intro map_idI) simp
  have "mset es = mset (map (\<lambda>e. tl (fst e)) (sort_heap env absPath ns))" by (simp add: es_def)
  also have "\<dots> = mset (map (\<lambda>e. tl (fst e)) (map (entry env absPath) (filter (is_ok env absPath) ns)))"
    by (simp add: sort_heap_eq)
  also have "\<dots> = mset (filter (is_ok env absPath) ns)" by (simp add: tl comp_def)
  finally have 1: "mset es = mset (filter (is_ok env absPath) ns)" .
  have "sorted (map (entry env absPath) es)" unfolding m by simp
  then have "sorted_wrt (\<lambda>m n. entry env absPath m \<le> entry env absPath n) es" by (simp add: sorted_map)
  then have 2: "sorted_wrt (entry_le env absPath) es" by (rule sorted_wrt_mono_rel [rotated]) (rule entry_le_iff)
  show ?thesis using that [OF 1 2 m [symmetric]] .
qed


lemma gen_new_view: "ab_inv (gi_data (gen_new s st u)) \<and> ab_view (gi_data (gen_new s st u)) = []"
  using ab_setsize_props [OF ab_inv_new, of 256] by (simp add: gen_new_def acbuf_new_def ab_view_def)

lemma gen_put_view:
  "ab_inv (gi_data g) \<Longrightarrow> ab_inv (gi_data (gen_put s g)) \<and> ab_view (gi_data (gen_put s g)) = ab_view (gi_data g) @ s"
  by (simp add: gen_put_def ab.inv_add ab.view_add)

lemma seal_simps [simp]:
  "gi_data (seal g) = gi_data g" "fi_status (gi_fi (seal g)) = FIST_COMPLETE"
  "fi_contentLength (gi_fi (seal g)) = int (ab_size (gi_data g))"
  by (simp_all add: seal_def)

lemma gen_put_fold:
  "ab_inv (gi_data g) \<Longrightarrow> ab_inv (gi_data (fold (\<lambda>row g. gen_put (f row) g) rows g)) \<and>
     ab_view (gi_data (fold (\<lambda>row g. gen_put (f row) g) rows g)) = ab_view (gi_data g) @ concat (map f rows)"
  by (induction rows arbitrary: g) (simp_all add: gen_put_view)

text \<open>
  The page for a local directory has one row for each entry that \<open>stat\<close> accepts, the
  directories before the files and each group in the order of the names, between a fixed head and
  foot; and the length announced for the page is its length.
\<close>

theorem directory_page_lists_entries:
  assumes "le_readdir env absPath = Some ns"
  shows "\<exists>es hd ft. mset es = mset (filter (is_ok env absPath) ns) \<and> sorted_wrt (entry_le env absPath) es \<and>
    ab_view (gi_data (listing sv env visPath absPath)) =
      hd @ concat (map (\<lambda>n. ''<tr><td valign=\"top\">'' @ listing_line env n (entry_stat env absPath n) @ ''</td></tr>'' @ svRN) es) @ ft \<and>
    fi_contentLength (gi_fi (listing sv env visPath absPath)) = int (length (ab_view (gi_data (listing sv env visPath absPath))))"
proof -
  obtain es where es: "mset es = mset (filter (is_ok env absPath) ns)" "sorted_wrt (entry_le env absPath) es"
    "sort (sort_heap env absPath ns) = map (entry env absPath) es" by (rule sorted_entries)
  let ?row = "\<lambda>row. ''<tr><td valign=\"top\">'' @ row @ ''</td></tr>'' @ svRN"
  have rows: "map ?row (listing_rows env absPath ns) = map (\<lambda>n. ?row (listing_line env n (entry_stat env absPath n))) es"
    by (simp add: listing_rows_def es(3) entry_def)
  obtain h ft where g: "listing sv env visPath absPath =
      seal (gen_put ft (fold (\<lambda>row g. gen_put (?row row) g) (listing_rows env absPath ns)
        (gen_put h (seal (gen_new visPath \<lparr>st_code = 200, st_msg = ''OK''\<rparr> [])))))"
    unfolding listing_def assms Let_def option.case by blast
  let ?g1 = "gen_put h (seal (gen_new visPath \<lparr>st_code = 200, st_msg = ''OK''\<rparr> []))"
  have 1: "ab_inv (gi_data ?g1) \<and> ab_view (gi_data ?g1) = h"
    using gen_put_view [of "seal (gen_new visPath \<lparr>st_code = 200, st_msg = ''OK''\<rparr> [])" h]
      gen_new_view [of visPath "\<lparr>st_code = 200, st_msg = ''OK''\<rparr>" "[]"] by simp
  note 2 = gen_put_fold [OF conjunct1 [OF 1], of ?row "listing_rows env absPath ns"]
  note 3 = gen_put_view [OF conjunct1 [OF 2], of ft]
  have v: "ab_view (gi_data (listing sv env visPath absPath)) =
      h @ concat (map (\<lambda>n. ?row (listing_line env n (entry_stat env absPath n))) es) @ ft"
    unfolding g seal_simps conjunct2 [OF 3] conjunct2 [OF 2] conjunct2 [OF 1] rows by simp
  have l: "fi_contentLength (gi_fi (listing sv env visPath absPath)) = int (length (ab_view (gi_data (listing sv env visPath absPath))))"
    unfolding g seal_simps using ab_view_length [OF conjunct1 [OF 3]] by simp
  show ?thesis using es(1,2) v l by blast
qed


definition local_env_demo :: local_env where
  "local_env_demo =
     \<lparr>le_stat = (\<lambda>p. if p = ''/d/b'' then Inr \<lparr>st_mode = S_ISREG, st_size = 5, st_mtime = 0\<rparr>
                    else if p = ''/d/z'' then Inr \<lparr>st_mode = S_ISDIR, st_size = 0, st_mtime = 0\<rparr> else Inl ENOENT),
      le_readdir = (\<lambda>p. if p = ''/d'' then Some [''b'', ''x'', ''z''] else None),
      le_datestr = (\<lambda>_. ''1''), le_mime = (\<lambda>_. [])\<rparr>"

theorem directory_page_lists_entries_witness:
  "map fst (sort (sort_heap local_env_demo ''/d'' [''b'', ''x'', ''z''])) = [''az'', ''bb''] \<and>
   fi_contentLength (gi_fi (listing srv_demo local_env_demo ''/'' ''/d'')) =
     int (length (ab_view (gi_data (listing srv_demo local_env_demo ''/'' ''/d''))))"
proof -
  have "le_readdir local_env_demo ''/d'' = Some [''b'', ''x'', ''z'']" by (simp add: local_env_demo_def)
  from directory_page_lists_entries [OF this, of srv_demo "''/''"]
  show ?thesis by (auto simp: local_env_demo_def less_eq_prod_def list_less_def)
qed


lemma gen_usercount [simp]:
  "fi_usercount (gi_fi (seal g)) = fi_usercount (gi_fi g)" "fi_usercount (gi_fi (gen_put s g)) = fi_usercount (gi_fi g)"
  "fi_usercount (gi_fi (gen_new i st u)) = 0"
  by (simp_all add: seal_def gen_put_def gen_new_def fileitem_new_def)

lemma gen_usercount_fold [simp]:
  "fi_usercount (gi_fi (fold (\<lambda>row g. gen_put (f row) g) rows g)) = fi_usercount (gi_fi g)"
  by (induction rows arbitrary: g) simp_all

lemma PrepareLocalDownload_inv:
  assumes "reg_inv [] r" "PrepareLocalDownload sv env vis base sub jb r = (jb', res, r', g)"
  shows "reg_inv [] r'"
proof -
  have u: "fi_usercount (tLocalGetFitem p st) = 0" for p st by (simp add: tLocalGetFitem_def fileitem_new_def)
  have d: "fi_usercount (gi_fi (dirredirect vis)) = 0" by (simp add: dirredirect_def)
  have l: "fi_usercount (gi_fi (listing sv env vis p)) = 0" for p by (simp add: listing_def Let_def split: option.splits)
  show ?thesis
    using assms
    by (auto simp: PrepareLocalDownload_def Let_def dest: Create_custom_inv [OF assms(1) _ u]
        Create_custom_inv [OF assms(1) _ d] Create_custom_inv [OF assms(1) _ l]
        split: sum.splits st_mode.splits if_splits prod.splits)
qed

end
