(* ===== verification/CfgReader.thy ===== *)
theory CfgReader
  imports Meta HttpUrl
begin

text \<open>
  Reading of text files (\<open>src/filereader.cc\<close>: \<open>filereader\<close> for files that are not compressed) and the
  parts of \<open>src/acfg.cc\<close> that the configuration and the repository database share: the iterator
  over the lines of a configuration file, option lines, file patterns.

  The file system is a function from paths to contents; \<open>ExpandFilePattern\<close> (wordexp) is a
  parameter.
\<close>

section \<open>Lines of a file\<close>

record filereader =
  fr_bError :: bool
  fr_bEof :: bool
  fr_buf :: string
  fr_pos :: nat
  fr_nEofLines :: int
  fr_nCurLine :: nat

text \<open>\<open>OpenFile\<close> after \<open>Close\<close>; a missing file leaves the reader in its closed state.\<close>

definition OpenFile :: "(string \<Rightarrow> string option) \<Rightarrow> string \<Rightarrow> int \<Rightarrow> filereader" where
  "OpenFile rd sFilename nFakeTrailingNewlines =
     (case rd sFilename of
        None \<Rightarrow> \<lparr>fr_bError = True, fr_bEof = True, fr_buf = [], fr_pos = 0, fr_nEofLines = nFakeTrailingNewlines, fr_nCurLine = 0\<rparr>
      | Some c \<Rightarrow> \<lparr>fr_bError = False, fr_bEof = False, fr_buf = c, fr_pos = 0, fr_nEofLines = nFakeTrailingNewlines, fr_nCurLine = 0\<rparr>)"

definition is_nl :: "char \<Rightarrow> bool" where
  "is_nl c \<longleftrightarrow> c = CHR 0x0D \<or> c = CHR 0x0A"

text \<open>Length of the first line and of what is dropped with it.\<close>

definition line_lens :: "string \<Rightarrow> nat \<times> nat" where
  "line_lens rest =
     (let n = length (takeWhile (\<lambda>c. \<not> is_nl c) rest) in
      if n = length rest then (n, n)
      else (n, if length rest > n + 1 \<and> is_nl (rest ! (n + 1)) \<and> rest ! n \<noteq> rest ! (n + 1) then n + 2 else n + 1))"

definition GetOneLine :: "filereader \<Rightarrow> string option \<times> filereader" where
  "GetOneLine r =
     (let r1 = (if fr_bEof r then r\<lparr>fr_nEofLines := fr_nEofLines r - 1\<rparr> else r) in
      if fr_bEof r \<and> fr_nEofLines r > 0 then (Some [], r1)
      else if fr_bError r \<or> fr_bEof r then (None, r1)
      else
        let eof = (fr_pos r \<ge> length (fr_buf r));
            rest = (if eof then [] else drop (fr_pos r) (fr_buf r));
            (nLineLen, nDropLen) = line_lens rest
        in (Some (take nLineLen rest), r1\<lparr>fr_bEof := eof, fr_pos := fr_pos r + nDropLen, fr_nCurLine := fr_nCurLine r + 1\<rparr>))"

lemma line_lens_le: "fst (line_lens s) \<le> snd (line_lens s) \<and> snd (line_lens s) \<le> length s \<and> (s \<noteq> [] \<longrightarrow> snd (line_lens s) > 0)"
proof -
  have "length (takeWhile (\<lambda>c. \<not> is_nl c) s) \<le> length s" by (rule length_takeWhile_le)
  then show ?thesis by (auto simp: line_lens_def Let_def)
qed

text \<open>All lines that calls of \<open>GetOneLine\<close> return.\<close>

definition fr_left :: "filereader \<Rightarrow> nat" where
  "fr_left r = length (fr_buf r) - fr_pos r + (if fr_bEof r then 0 else 1) + nat (fr_nEofLines r)"

lemma GetOneLine_less:
  assumes "GetOneLine r = (Some l, r')"
  shows "fr_left r' < fr_left r"
proof (cases "fr_bEof r")
  case True
  then show ?thesis using assms by (auto simp: GetOneLine_def fr_left_def Let_def split: if_splits)
next
  case False
  let ?s = "drop (fr_pos r) (fr_buf r)"
  show ?thesis
    using assms False line_lens_le [of ?s]
    by (cases "fr_pos r \<ge> length (fr_buf r)") (auto simp: GetOneLine_def fr_left_def Let_def split: if_splits prod.splits)
qed

function read_lines :: "filereader \<Rightarrow> string list" where
  "read_lines r = (case GetOneLine r of (None, _) \<Rightarrow> [] | (Some l, r') \<Rightarrow> l # read_lines r')"
  by pat_completeness auto
termination
  by (relation "measure fr_left") (auto dest: sym GetOneLine_less)

declare read_lines.simps [simp del]

text \<open>The reference: a text split at line ends, where \<open>\r\n\<close> and \<open>\n\r\<close> are one line end.\<close>

function text_lines :: "string \<Rightarrow> string list" where
  "text_lines s =
     (if s = [] then [] else take (fst (line_lens s)) s # text_lines (drop (snd (line_lens s)) s))"
  by pat_completeness auto
termination
  by (relation "measure length") (auto simp: line_lens_le)

declare text_lines.simps [simp del]

lemma read_lines_eof:
  assumes "fr_bEof r"
  shows "read_lines r = replicate (nat (fr_nEofLines r)) []"
  using assms
proof (induction "nat (fr_nEofLines r)" arbitrary: r)
  case 0
  then show ?case by (subst read_lines.simps) (simp add: GetOneLine_def)
next
  case (Suc n)
  let ?r = "r\<lparr>fr_nEofLines := fr_nEofLines r - 1\<rparr>"
  have "read_lines ?r = replicate n []" using Suc(1) [of ?r] Suc(2,3) by simp
  moreover have "fr_nEofLines r > 0" using Suc(2) by linarith
  ultimately show ?case using Suc(3) by (subst read_lines.simps) (simp add: GetOneLine_def Let_def Suc(2) [symmetric])
qed

lemma read_lines_buf:
  assumes "\<not> fr_bEof r" "\<not> fr_bError r"
  shows "read_lines r = text_lines (drop (fr_pos r) (fr_buf r)) @ replicate (Suc (nat (fr_nEofLines r))) []"
  using assms
proof (induction r rule: read_lines.induct)
  case (1 r)
  let ?s = "drop (fr_pos r) (fr_buf r)"
  obtain a b where ab: "line_lens ?s = (a, b)" by fastforce
  show ?case
  proof (cases "fr_pos r \<ge> length (fr_buf r)")
    case True
    then have G: "GetOneLine r = (Some [], r\<lparr>fr_bEof := True, fr_nCurLine := fr_nCurLine r + 1\<rparr>)"
      using 1(2,3) by (simp add: GetOneLine_def line_lens_def Let_def)
    show ?thesis using True by (subst read_lines.simps) (simp add: G read_lines_eof text_lines.simps)
  next
    case False
    let ?r = "r\<lparr>fr_bEof := False, fr_pos := fr_pos r + b, fr_nCurLine := fr_nCurLine r + 1\<rparr>"
    have G: "GetOneLine r = (Some (take a ?s), ?r)" using 1(2,3) False ab by (simp add: GetOneLine_def Let_def)
    have "read_lines ?r = text_lines (drop b ?s) @ replicate (Suc (nat (fr_nEofLines r))) []"
      using 1(1) [OF G [symmetric] refl] 1(3) by (simp add: add.commute)
    then show ?thesis using False ab by (subst read_lines.simps, subst text_lines.simps) (simp add: G)
  qed
qed


section \<open>Configuration lines\<close>

text \<open>\<open>tCfgIter::Next\<close>: the next line that is neither empty nor a comment.\<close>

function CfgNext :: "filereader \<Rightarrow> string option \<times> filereader" where
  "CfgNext r =
     (case GetOneLine r of
        (None, r') \<Rightarrow> (None, r')
      | (Some l, r') \<Rightarrow>
          let sLine = trimFront_str l SPACECHARS
          in if sLine = [] \<or> hd sLine = CHR ''#'' then CfgNext r' else (Some sLine, r'))"
  by pat_completeness auto
termination
  by (relation "measure fr_left") (auto dest: sym GetOneLine_less)

declare CfgNext.simps [simp del]

lemma CfgNext_less: "CfgNext r = (Some l, r') \<Longrightarrow> fr_left r' < fr_left r"
proof (induction r rule: CfgNext.induct)
  case (1 r)
  then show ?case
    by (subst (asm) (2) CfgNext.simps)
      (fastforce simp: Let_def split: prod.splits option.splits if_splits dest: GetOneLine_less)
qed

function cfg_lines :: "filereader \<Rightarrow> string list" where
  "cfg_lines r = (case CfgNext r of (None, _) \<Rightarrow> [] | (Some l, r') \<Rightarrow> l # cfg_lines r')"
  by pat_completeness auto
termination
  by (relation "measure fr_left") (auto dest: sym CfgNext_less)

declare cfg_lines.simps [simp del]

definition is_directive :: "string \<Rightarrow> bool" where
  "is_directive l \<longleftrightarrow> l \<noteq> [] \<and> hd l \<noteq> CHR ''#''"

lemma cfg_lines_eq: "cfg_lines r = filter is_directive (map (\<lambda>l. trimFront_str l SPACECHARS) (read_lines r))"
proof (induction r rule: read_lines.induct)
  case (1 r)
  obtain res r' where G: "GetOneLine r = (res, r')" by fastforce
  show ?case
  proof (cases res)
    case None
    then show ?thesis using G by (simp add: cfg_lines.simps [of r] CfgNext.simps [of r] read_lines.simps [of r])
  next
    case (Some l)
    note IH = 1 [OF G [unfolded Some, symmetric] refl]
    show ?thesis
    proof (cases "is_directive (trimFront_str l SPACECHARS)")
      case True
      then show ?thesis using G Some IH
        by (simp add: cfg_lines.simps [of r] CfgNext.simps [of r] read_lines.simps [of r] is_directive_def Let_def)
    next
      case False
      have "CfgNext r = CfgNext r'" using G Some False by (simp add: CfgNext.simps [of r] is_directive_def Let_def)
      then have "cfg_lines r = cfg_lines r'" by (simp add: cfg_lines.simps [of r] cfg_lines.simps [of r'])
      then show ?thesis using G Some IH False by (simp add: read_lines.simps [of r])
    qed
  qed
qed

text \<open>
  \<open>ParseOptionLine\<close>: \<open>None\<close> where the code returns false. \<open>trimBoth\<close> is the overload for \<open>std::string\<close>.
\<close>

definition trimBoth_str :: "string \<Rightarrow> string \<Rightarrow> string" where
  "trimBoth_str s junk = trimFront_str (trimBack_str s junk) junk"

definition ParseOptionLine :: "string \<Rightarrow> (string \<times> string) option" where
  "ParseOptionLine sLine =
     (let posCol = find_chr sLine (CHR '':''); posEq = find_chr sLine (CHR ''='');
          pos = (case (posEq, posCol) of
                   (Some e, Some c) \<Rightarrow> Some (min e c) | (Some e, None) \<Rightarrow> Some e | (None, Some c) \<Rightarrow> Some c | (None, None) \<Rightarrow> None)
      in case pos of
           None \<Rightarrow> None
         | Some p \<Rightarrow>
             let key = trimBoth_str (take p sLine) SPACECHARS; val = trimBoth_str (drop (p + 1) sLine) SPACECHARS
             in if key = [] then None else Some (key, val))"

definition FixPostPreSlashes :: "string \<Rightarrow> string" where
  "FixPostPreSlashes val =
     (let v1 = (if val = [] \<or> last val \<noteq> CHR ''/'' then val @ ''/'' else val)
      in if hd v1 \<noteq> CHR ''/'' then ''/'' @ v1 else v1)"

text \<open>Errors that end the program (\<open>BARF\<close>, \<open>exit\<close>), and undefined behaviour.\<close>

datatype cfg_err = Exit string | Fault

record cfg_env =
  ce_read :: "string \<Rightarrow> string option"
  ce_glob :: "string \<Rightarrow> string list"
  ce_confdir :: string
  ce_suppdir :: string

definition merge_supp :: "string list \<Rightarrow> string list \<Rightarrow> string list" where
  "merge_supp res suppres = res @ filter (\<lambda>s. GetBaseName s \<notin> set (map GetBaseName res)) suppres"

definition ExpandFileTokens :: "cfg_env \<Rightarrow> string \<Rightarrow> cfg_err + string list" where
  "ExpandFileTokens ce token =
     (let p = drop 5 token;
          bAbs = (p \<noteq> [] \<and> hd p = CHR ''/'');
          miss = (\<lambda>fs. length fs = 1 \<and> ce_read ce (hd fs) = None);
          res0 = ce_glob ce (StrSubst (ce_confdir ce @ ''/'' @ p) ''//'' ''/'' 0);
          res = (if miss res0 then [] else res0);
          suppres = ce_glob ce (StrSubst (ce_suppdir ce @ ''/'' @ p) ''//'' ''/'' 0)
      in if p = [] then Inl (Exit ''Bad file spec for repname, file:?'')
         else if ce_suppdir ce = [] \<or> bAbs then Inr (ce_glob ce (if bAbs then p else ce_confdir ce @ ''/'' @ p))
         else if miss suppres then Inr res
         else Inr (merge_supp res suppres))"


section \<open>Properties\<close>

lemma line_lens_app:
  assumes "list_all (\<lambda>c. \<not> is_nl c) l" "nl = [CHR 0x0A] \<or> nl = [CHR 0x0D, CHR 0x0A]" "rest = [] \<or> nl = [CHR 0x0D, CHR 0x0A] \<or> hd rest \<noteq> CHR 0x0D"
  shows "line_lens (l @ nl @ rest) = (length l, length l + length nl)"
proof -
  have t: "takeWhile (\<lambda>c. \<not> is_nl c) (l @ nl @ rest) = l"
  proof -
    have "takeWhile (\<lambda>c. \<not> is_nl c) (l @ nl @ rest) = l @ takeWhile (\<lambda>c. \<not> is_nl c) (nl @ rest)"
      using assms(1) by (intro takeWhile_append2) (simp add: list_all_iff)
    moreover have "takeWhile (\<lambda>c. \<not> is_nl c) (nl @ rest) = []" using assms(2) by (elim disjE) (simp_all add: is_nl_def)
    ultimately show ?thesis by simp
  qed
  have n: "(l @ xs) ! length l = xs ! 0" "(l @ xs) ! (length l + 1) = xs ! 1" for xs :: string by (simp_all add: nth_append)
  from assms(2) show ?thesis
  proof
    assume nl: "nl = [CHR 0x0A]"
    show ?thesis
      using assms(3) nl unfolding line_lens_def t Let_def n by (cases rest) (simp_all add: is_nl_def)
  next
    assume nl: "nl = [CHR 0x0D, CHR 0x0A]"
    show ?thesis unfolding line_lens_def t Let_def n unfolding nl by (simp add: is_nl_def)
  qed
qed

lemma text_lines_concat:
  assumes "\<forall>l \<in> set ls. list_all (\<lambda>c. \<not> is_nl c) l" "nl = [CHR 0x0A] \<or> nl = [CHR 0x0D, CHR 0x0A]"
  shows "text_lines (concat (map (\<lambda>l. l @ nl) ls)) = ls"
  using assms(1)
proof (induction ls)
  case Nil
  then show ?case by (simp add: text_lines.simps)
next
  case (Cons l ls)
  let ?rest = "concat (map (\<lambda>l. l @ nl) ls)"
  have r: "?rest = [] \<or> nl = [CHR 0x0D, CHR 0x0A] \<or> hd ?rest \<noteq> CHR 0x0D"
  proof (cases ls)
    case (Cons m ms)
    then show ?thesis using Cons.prems assms(2) by (cases m) (auto simp: is_nl_def)
  qed simp
  have "line_lens (l @ nl @ ?rest) = (length l, length l + length nl)"
    using Cons.prems assms(2) r by (intro line_lens_app) auto
  moreover have "nl \<noteq> []" using assms(2) by auto
  ultimately show ?case using Cons by (subst text_lines.simps) simp
qed

text \<open>
  Reading a text file returns its lines: for a text written as lines that end with LF, or that
  all end with CR LF, successive calls of \<open>GetOneLine\<close> return exactly these lines, then one empty
  line at the end of the file and as many more as the caller asked for, and then report the end.
\<close>

theorem lines_read_back:
  assumes "rd f = Some (concat (map (\<lambda>l. l @ nl) ls))" "\<forall>l \<in> set ls. list_all (\<lambda>c. \<not> is_nl c) l"
    "nl = [CHR 0x0A] \<or> nl = [CHR 0x0D, CHR 0x0A]" "n \<ge> 0"
  shows "read_lines (OpenFile rd f n) = ls @ replicate (Suc (nat n)) []"
  using read_lines_buf [of "OpenFile rd f n"] text_lines_concat [OF assms(2,3)] assms(1)
  by (simp add: OpenFile_def)

theorem lines_read_back_witness:
  "read_lines (OpenFile (\<lambda>f. if f = ''a.conf'' then Some (''Port: 1'' @ [CHR 0x0A] @ [CHR 0x0A] @ ''# x'' @ [CHR 0x0A]) else None) ''a.conf'' 1) =
     [''Port: 1'', [], ''# x'', [], []]"
  by (subst lines_read_back [where nl = "[CHR 0x0A]" and ls = "[''Port: 1'', [], ''# x'']"]) (simp_all add: is_nl_def numeral_eq_Suc)

end
