(* ===== verification/RemoteDb.thy ===== *)
theory RemoteDb
  imports CfgReader DlJob Registry
begin

text \<open>
  \<open>src/remotedb.cc\<close>: the database of repositories. A repository has a name, a list of backends,
  and URL prefixes that are mapped to it; the entries come from the directives \<open>Remap-...\<close> and
  from the files they name. A request is mapped to the repository with the longest prefix.

  Pointers into the map \<open>repoparms\<close> are names here. \<open>Inl\<close> is the end of the program.
\<close>

section \<open>Data\<close>

record repo_result =
  rr_psRepoName :: "string option"
  rr_sRestPath :: string
  rr_repodata :: "tRepoData option"

record tHookHandler =
  hk_cmdRel :: string
  hk_cmdCon :: string
  hk_downDuration :: time_t
  hk_downTimeNext :: time_t
  hk_nRefCnt :: int

record remotedb =
  db_repoparms :: "string \<Rightarrow> tRepoData option"
  db_mapUrl2pVname :: "string \<Rightarrow> (string \<times> string) list"
  db_hooks :: "string \<Rightarrow> tHookHandler option"

definition tRepoData_new :: tRepoData where
  "tRepoData_new = \<lparr>rd_backends = [], rd_keyfiles = [], rd_deltasrc = url_clear, rd_pProxy = None\<rparr>"

definition remotedb_new :: remotedb where
  "remotedb_new = \<lparr>db_repoparms = Map.empty, db_mapUrl2pVname = (\<lambda>_. []), db_hooks = Map.empty\<rparr>"

text \<open>\<open>repoparms[name]\<close>, which creates a missing entry, and an update of the entry.\<close>

definition repo_upd :: "string \<Rightarrow> (tRepoData \<Rightarrow> tRepoData) \<Rightarrow> remotedb \<Rightarrow> remotedb" where
  "repo_upd name f db =
     db\<lparr>db_repoparms := (db_repoparms db)(name := Some (f (case db_repoparms db name of Some d \<Rightarrow> d | None \<Rightarrow> tRepoData_new)))\<rparr>"

definition GetRepoEntryRef :: "string \<Rightarrow> remotedb \<Rightarrow> remotedb" where
  "GetRepoEntryRef sRepName db = repo_upd sRepName id db"

definition add_backend :: "string \<Rightarrow> tHttpUrl \<Rightarrow> remotedb \<Rightarrow> remotedb" where
  "add_backend name url db = repo_upd name (\<lambda>d. d\<lparr>rd_backends := rd_backends d @ [url]\<rparr>) db"

text \<open>\<open>mapUrl2pVname[key].emplace_back(path, GetRepoEntryRef(name))\<close>\<close>

definition add_mapping :: "tHttpUrl \<Rightarrow> string \<Rightarrow> remotedb \<Rightarrow> remotedb" where
  "add_mapping url name db =
     (let db1 = GetRepoEntryRef name db; key = GetHostPortKey url
      in db1\<lparr>db_mapUrl2pVname := (db_mapUrl2pVname db1)(key := db_mapUrl2pVname db1 key @ [(sPath url, name)])\<rparr>)"

section \<open>Reading the configuration\<close>

definition AddRemapFlag :: "string \<Rightarrow> string \<Rightarrow> remotedb \<Rightarrow> cfg_err + remotedb" where
  "AddRemapFlag token repname db =
     (case ParseOptionLine token of
        None \<Rightarrow> Inr db
      | Some (key, value) \<Rightarrow>
          let db1 = repo_upd repname id db in
          if key = ''keyfile'' then
            Inr (if value = [] then db1 else repo_upd repname (\<lambda>d. d\<lparr>rd_keyfiles := rd_keyfiles d @ [value]\<rparr>) db1)
          else if key = ''deltasrc'' then
            (if value = [] then Inr db1
             else case SetHttpUrl (if endsWith value ''/'' then value else value @ ''/'') True of
                    None \<Rightarrow> Inl Fault
                  | Some (_, u) \<Rightarrow> Inr (repo_upd repname (\<lambda>d. d\<lparr>rd_deltasrc := u\<rparr>) db1))
          else if key = ''proxy'' then
            (if value = [] then Inr (repo_upd repname (\<lambda>d. d\<lparr>rd_pProxy := Some url_clear\<rparr>) db1)
             else case SetHttpUrl value True of
                    None \<Rightarrow> Inl Fault
                  | Some (ok, u) \<Rightarrow> Inr (if ok then repo_upd repname (\<lambda>d. d\<lparr>rd_pProxy := Some u\<rparr>) db1 else db1))
          else Inr db1)"

definition keyEq :: "string \<Rightarrow> string \<Rightarrow> bool" where
  "keyEq a b \<longleftrightarrow> strcasecmp_c a b"

text \<open>The loop of \<open>ReadBackendsFile\<close>: the entry under construction, the number of entries added.\<close>

fun backends_loop :: "string \<Rightarrow> string list \<Rightarrow> tHttpUrl \<Rightarrow> nat \<Rightarrow> remotedb \<Rightarrow> cfg_err + nat \<times> remotedb" where
  "backends_loop sRepName [] entry n db = Inr (n, db)"
| "backends_loop sRepName (l # ls) entry n db =
     (let sLine = trimBack_str l SPACECHARS in
      case SetHttpUrl sLine True of
        None \<Rightarrow> Inl Fault
      | Some (ok, e) \<Rightarrow>
          if ok \<or> sLine = [] \<and> sHost e \<noteq> [] \<and> sPath e \<noteq> []
          then backends_loop sRepName ls url_clear (n + 1) (add_backend sRepName (e\<lparr>sPath := FixPostPreSlashes (sPath e)\<rparr>) db)
          else case ParseKeyValLine sLine of
                 Some (key, val) \<Rightarrow>
                   backends_loop sRepName ls
                     (if keyEq ''Site'' key then e\<lparr>sHost := val\<rparr>
                      else if keyEq ''Archive-http'' key \<or> keyEq ''X-Archive-http'' key then e\<lparr>sPath := val\<rparr> else e) n db
               | None \<Rightarrow> Inl (Exit ''Bad backend description''))"

definition ReadBackendsFile :: "cfg_env \<Rightarrow> string \<Rightarrow> string \<Rightarrow> remotedb \<Rightarrow> cfg_err + nat \<times> remotedb" where
  "ReadBackendsFile ce sFile sRepName db =
     (let reader = OpenFile (ce_read ce) sFile 1 in
      if fr_bError reader then Inr (0, db)
      else backends_loop sRepName (cfg_lines reader) url_clear 0 db)"

definition sPopularPath :: string where "sPopularPath = ''/debian/''"

definition add_sites :: "string \<Rightarrow> string list \<Rightarrow> string list \<Rightarrow> remotedb \<Rightarrow> remotedb" where
  "add_sites name hosts paths db =
     fold (\<lambda>host db. fold (\<lambda>path db. add_mapping (url_clear\<lparr>sHost := host, sPath := path\<rparr>) name db) paths db) hosts db"

fun rewrite_loop ::
  "string \<Rightarrow> string list \<Rightarrow> string list \<Rightarrow> string list \<Rightarrow> nat \<Rightarrow> remotedb \<Rightarrow> cfg_err + nat \<times> remotedb" where
  "rewrite_loop sRepName [] hosts paths n db = Inr (n, db)"
| "rewrite_loop sRepName (l # ls) hosts paths n db =
     (let sLine = trimFront_str l SPACECHARS in
      if startsWith sLine ''#'' then rewrite_loop sRepName ls hosts paths n db
      else case SetHttpUrl sLine True of
        None \<Rightarrow> Inl Fault
      | Some (ok, url) \<Rightarrow>
          if ok
          then rewrite_loop sRepName ls hosts paths (n + 1) (add_mapping (url\<lparr>sPath := FixPostPreSlashes (sPath url)\<rparr>) sRepName db)
          else if sLine = [] then
            (if hosts = [] \<and> paths = [] then rewrite_loop sRepName ls hosts paths n db
             else if hosts \<noteq> [] \<and> paths = [] then rewrite_loop sRepName ls hosts paths n db
             else if paths \<noteq> [] \<and> hosts = [] then Inl (Exit ''Parse error, missing Site: field'')
             else rewrite_loop sRepName ls [] [] (n + length hosts * length paths) (add_sites sRepName hosts paths db))
          else case ParseKeyValLine sLine of
            None \<Rightarrow> Inl (Exit ''Error parsing rewrite definitions'')
          | Some (key, val) \<Rightarrow>
              let hosts1 = (if keyEq ''Site'' key \<or> keyEq ''Alias'' key \<or> keyEq ''Aliases'' key
                            then fst (Tokenize val SPACECHARS hosts True 0) else hosts);
                  paths1 = (if keyEq ''Archive-http'' key \<or> keyEq ''X-Archive-http'' key
                            then paths @ [if sPopularPath = val then sPopularPath else FixPostPreSlashes val] else paths)
              in rewrite_loop sRepName ls hosts1 paths1 n db)"

definition ReadRewriteFile :: "cfg_env \<Rightarrow> string \<Rightarrow> string \<Rightarrow> remotedb \<Rightarrow> cfg_err + nat \<times> remotedb" where
  "ReadRewriteFile ce sFile sRepName db =
     (let reader = OpenFile (ce_read ce) sFile 1 in
      if fr_bError reader then Inl (Exit ''Error opening file'')
      else rewrite_loop sRepName (read_lines reader) [] [] 0 db)"

text \<open>A sequence of files; the count is the sum in the first attempt and the last file's in the second.\<close>

fun read_files ::
  "(string \<Rightarrow> remotedb \<Rightarrow> cfg_err + nat \<times> remotedb) \<Rightarrow> bool \<Rightarrow> string list \<Rightarrow> nat \<Rightarrow> remotedb \<Rightarrow> cfg_err + nat \<times> remotedb" where
  "read_files f add [] n db = Inr (n, db)"
| "read_files f add (s # ss) n db =
     (case f s db of Inl e \<Rightarrow> Inl e | Inr (k, db') \<Rightarrow> read_files f add ss (if add then n + k else k) db')"

definition AddRemapInfo :: "cfg_env \<Rightarrow> bool \<Rightarrow> string \<Rightarrow> string \<Rightarrow> remotedb \<Rightarrow> cfg_err + remotedb" where
  "AddRemapInfo ce bAsBackend token repname db =
     (if \<not> startsWith token ''file:'' then
        (case SetHttpUrl token True of
           None \<Rightarrow> Inl Fault
         | Some (ok, url) \<Rightarrow>
             if \<not> ok then Inl (Exit (token @ '' <-- bad URL detected''))
             else let u = url\<lparr>sPath := FixPostPreSlashes (sPath url)\<rparr>
                  in Inr (if bAsBackend then add_backend repname u db else add_mapping u repname db))
      else
        let func = (\<lambda>src. if bAsBackend then ReadBackendsFile ce src repname else ReadRewriteFile ce src repname) in
        case ExpandFileTokens ce token of
          Inl e \<Rightarrow> Inl e
        | Inr srcs \<Rightarrow>
            (case read_files func True srcs 0 db of
               Inl e \<Rightarrow> Inl e
             | Inr (count, db1) \<Rightarrow>
                 if count \<noteq> 0 then Inr db1
                 else case ExpandFileTokens ce (token @ ''.default'') of
                        Inl e \<Rightarrow> Inl e
                      | Inr srcs2 \<Rightarrow> (case read_files func False srcs2 0 db1 of Inl e \<Rightarrow> Inl e | Inr (_, db2) \<Rightarrow> Inr db2)))"


section \<open>Hooks\<close>

definition tHookHandler_new :: tHookHandler where
  "tHookHandler_new = \<lparr>hk_cmdRel = [], hk_cmdCon = [], hk_downDuration = 30, hk_downTimeNext = 0, hk_nRefCnt = 0\<rparr>"

text \<open>
  \<open>OnRelease\<close>: the handler and the time for which the timer thread is asked to wake up. \<open>OnAccess\<close>:
  the handler and the command that is run.
\<close>

definition OnRelease :: "time_t \<Rightarrow> tHookHandler \<Rightarrow> tHookHandler \<times> time_t option" where
  "OnRelease now hk =
     (let hk1 = hk\<lparr>hk_nRefCnt := hk_nRefCnt hk - 1\<rparr> in
      if 0 \<ge> hk_nRefCnt hk1
      then (hk1\<lparr>hk_downTimeNext := now + hk_downDuration hk\<rparr>, Some (now + hk_downDuration hk))
      else (hk1, None))"

definition OnAccess :: "tHookHandler \<Rightarrow> tHookHandler \<times> string option" where
  "OnAccess hk =
     (let hk1 = hk\<lparr>hk_nRefCnt := hk_nRefCnt hk + 1\<rparr> in
      if hk_nRefCnt hk = 0 then
        (if hk_downTimeNext hk \<noteq> 0 then (hk1\<lparr>hk_downTimeNext := 0\<rparr>, None)
         else (hk1, if hk_cmdCon hk \<noteq> [] then Some (hk_cmdCon hk) else None))
      else (hk1, None))"

text \<open>\<open>strtoul\<close> sets \<open>errno\<close> for a value out of range; the value is stored in an \<open>unsigned\<close>.\<close>

definition hook_line :: "string \<Rightarrow> tHookHandler \<Rightarrow> tHookHandler" where
  "hook_line sLine hs =
     (case ParseOptionLine sLine of
        None \<Rightarrow> hs
      | Some (key, val0) \<Rightarrow>
          let val = trimBoth_str val0 SPACECHARS in
          if strcasecmp_c ''PreUp'' key then hs\<lparr>hk_cmdCon := val\<rparr>
          else if strcasecmp_c ''Down'' key then hs\<lparr>hk_cmdRel := val\<rparr>
          else if strcasecmp_c ''DownTimeout'' key then
            (let v = fst (strtol10 (- (2 ^ 64)) (2 ^ 64) (c_str val)) in
             if abs v < 2 ^ 64 then hs\<lparr>hk_downDuration := v mod 2 ^ 32\<rparr> else hs)
          else hs)"

definition AddHooksFile :: "cfg_env \<Rightarrow> string \<Rightarrow> remotedb \<Rightarrow> remotedb" where
  "AddHooksFile ce vname db =
     (let reader = OpenFile (ce_read ce) (ce_confdir ce @ ''/'' @ vname @ ''.hooks'') 1 in
      if fr_bError reader then db
      else (repo_upd vname id db)\<lparr>db_hooks := (db_hooks db)(vname := Some (fold hook_line (cfg_lines reader) tHookHandler_new))\<rparr>)"

text \<open>One handler in \<open>BackgroundCleanup\<close>: earliest wake-up so far, handler, commands run.\<close>

definition cleanup_hook :: "time_t \<Rightarrow> time_t \<times> string list \<Rightarrow> tHookHandler \<Rightarrow> (time_t \<times> string list) \<times> tHookHandler" where
  "cleanup_hook now acc hk =
     (if hk_downTimeNext hk = 0 then (acc, hk)
      else if hk_downTimeNext hk \<le> now then
        (if hk_cmdRel hk \<noteq> [] then ((fst acc, snd acc @ [hk_cmdRel hk]), hk\<lparr>hk_downTimeNext := 0\<rparr>) else (acc, hk))
      else ((min (fst acc) (hk_downTimeNext hk), snd acc), hk))"

fun cleanup_hooks :: "time_t \<Rightarrow> string list \<Rightarrow> time_t \<times> string list \<Rightarrow> remotedb \<Rightarrow> (time_t \<times> string list) \<times> remotedb" where
  "cleanup_hooks now [] acc db = (acc, db)"
| "cleanup_hooks now (n # ns) acc db =
     (case db_hooks db n of
        None \<Rightarrow> cleanup_hooks now ns acc db
      | Some hk \<Rightarrow> (case cleanup_hook now acc hk of
                      (acc', hk') \<Rightarrow> cleanup_hooks now ns acc' (db\<lparr>db_hooks := (db_hooks db)(n := Some hk')\<rparr>)))"

text \<open>\<open>names\<close> are the keys of \<open>repoparms\<close> in their order.\<close>

definition db_BackgroundCleanup :: "time_t \<Rightarrow> string list \<Rightarrow> remotedb \<Rightarrow> (time_t \<times> string list) \<times> remotedb" where
  "db_BackgroundCleanup now names db = cleanup_hooks now names (END_OF_TIME, []) db"

section \<open>Mapping of requests\<close>

definition prefix_hit :: "string \<Rightarrow> string \<Rightarrow> bool" where
  "prefix_hit path p \<longleftrightarrow> length path > length p \<and> startsWith path p"

fun best_match :: "string \<Rightarrow> (string \<times> string) list \<Rightarrow> nat \<times> string option \<Rightarrow> nat \<times> string option" where
  "best_match path [] best = best"
| "best_match path ((p, name) # es) best =
     best_match path es (if length p > fst best \<and> prefix_hit path p then (length p, Some name) else best)"

definition GetRepNameAndPathResidual :: "remotedb \<Rightarrow> tHttpUrl \<Rightarrow> repo_result" where
  "GetRepNameAndPathResidual db url =
     (let none = \<lparr>rr_psRepoName = None, rr_sRestPath = [], rr_repodata = None\<rparr> in
      case best_match (sPath url) (db_mapUrl2pVname db (GetHostPortKey url)) (0, None) of
        (_, None) \<Rightarrow> none
      | (len, Some name) \<Rightarrow> \<lparr>rr_psRepoName = Some name, rr_sRestPath = drop len (sPath url), rr_repodata = db_repoparms db name\<rparr>)"

definition GetRepoData :: "remotedb \<Rightarrow> string \<Rightarrow> tRepoData option" where
  "GetRepoData db vname = db_repoparms db vname"

section \<open>Invariant\<close>

definition slashed :: "string \<Rightarrow> bool" where
  "slashed p \<longleftrightarrow> p \<noteq> [] \<and> hd p = CHR ''/'' \<and> last p = CHR ''/''"

text \<open>All paths of prefixes and backends are directories, and every mapped name is a repository.\<close>

definition db_inv :: "remotedb \<Rightarrow> bool" where
  "db_inv db \<longleftrightarrow>
     (\<forall>k p n. (p, n) \<in> set (db_mapUrl2pVname db k) \<longrightarrow> slashed p \<and> db_repoparms db n \<noteq> None) \<and>
     (\<forall>n d u. db_repoparms db n = Some d \<longrightarrow> u \<in> set (rd_backends d) \<longrightarrow> slashed (sPath u))"

lemma slashed_Fix: "slashed (FixPostPreSlashes s)"
  by (cases s) (auto simp: slashed_def FixPostPreSlashes_def Let_def)

lemma db_inv_new: "db_inv remotedb_new"
  by (simp add: db_inv_def remotedb_new_def)

lemma db_inv_upd:
  assumes "db_inv db" "\<And>d. rd_backends (f d) = rd_backends d"
  shows "db_inv (repo_upd n f db)"
  using assms by (auto simp: db_inv_def repo_upd_def tRepoData_new_def split: option.splits if_splits)

lemma db_inv_backend: "db_inv db \<Longrightarrow> slashed (sPath u) \<Longrightarrow> db_inv (add_backend n u db)"
  by (auto simp: db_inv_def add_backend_def repo_upd_def tRepoData_new_def split: option.splits if_splits)

lemma db_inv_mapping:
  assumes "db_inv db" "slashed (sPath u)"
  shows "db_inv (add_mapping u n db)"
proof -
  have "db_inv (GetRepoEntryRef n db)" unfolding GetRepoEntryRef_def by (rule db_inv_upd [OF assms(1)]) simp
  moreover have "db_repoparms (GetRepoEntryRef n db) n \<noteq> None" by (simp add: GetRepoEntryRef_def repo_upd_def)
  ultimately show ?thesis using assms(2) by (auto simp: db_inv_def add_mapping_def Let_def)
qed


definition ok_db :: "cfg_err + 'a \<times> remotedb \<Rightarrow> bool" where
  "ok_db res = (case res of Inl _ \<Rightarrow> True | Inr (_, db) \<Rightarrow> db_inv db)"

lemma ok_db_simps [simp]: "ok_db (Inl e)" "ok_db (Inr (x, db)) = db_inv db"
  by (simp_all add: ok_db_def)

lemma ok_dbD: "ok_db res \<Longrightarrow> res = Inr (x, db) \<Longrightarrow> db_inv db"
  by simp

lemma backends_loop_inv: "db_inv db \<Longrightarrow> ok_db (backends_loop name ls e n db)"
  by (induction ls arbitrary: e n db)
    (simp_all add: Let_def slashed_Fix db_inv_backend split: option.splits prod.splits)

lemma ReadBackendsFile_inv: "db_inv db \<Longrightarrow> ok_db (ReadBackendsFile ce f name db)"
  by (simp add: ReadBackendsFile_def Let_def backends_loop_inv)

lemma add_sites_inv:
  assumes "db_inv db" "\<forall>p \<in> set paths. slashed p"
  shows "db_inv (add_sites name hosts paths db)"
proof -
  have inner: "db_inv (fold (\<lambda>path db. add_mapping (url_clear\<lparr>sHost := h, sPath := path\<rparr>) name db) ps db)"
    if "\<forall>p \<in> set ps. slashed p" "db_inv db" for h ps db
    using that by (induction ps arbitrary: db) (simp_all add: db_inv_mapping)
  show ?thesis
    using assms unfolding add_sites_def
    by (induction hosts arbitrary: db) (simp_all add: inner)
qed

lemma rewrite_loop_inv: "db_inv db \<Longrightarrow> \<forall>p \<in> set paths. slashed p \<Longrightarrow> ok_db (rewrite_loop name ls hosts paths n db)"
proof (induction ls arbitrary: hosts paths n db)
  case (Cons l ls)
  have pop: "slashed sPopularPath" by (simp add: slashed_def sPopularPath_def)
  show ?case
    using Cons.prems pop
    by (simp add: Let_def Cons.IH slashed_Fix db_inv_mapping add_sites_inv split: option.splits prod.splits)
qed simp

lemma ReadRewriteFile_inv: "db_inv db \<Longrightarrow> ok_db (ReadRewriteFile ce f name db)"
  by (simp add: ReadRewriteFile_def Let_def rewrite_loop_inv)

lemma read_files_inv:
  assumes "\<And>s db. db_inv db \<Longrightarrow> ok_db (f s db)" "db_inv db"
  shows "ok_db (read_files f add ss n db)"
  using assms(2)
proof (induction ss arbitrary: n db)
  case (Cons s ss)
  show ?case using assms(1) [OF Cons(2), of s] Cons(1) by (auto split: sum.splits prod.splits)
qed simp

lemma AddRemapInfo_inv:
  assumes "db_inv db" "AddRemapInfo ce b token name db = Inr db'"
  shows "db_inv db'"
proof -
  define func where "func = (\<lambda>src. if b then ReadBackendsFile ce src name else ReadRewriteFile ce src name)"
  have f: "ok_db (read_files func add ss n d)" if "db_inv d" for add ss n d
    by (rule read_files_inv [OF _ that]) (simp add: func_def ReadBackendsFile_inv ReadRewriteFile_inv)
  have r: "db_inv d'" if "read_files func add ss n d = Inr (x, d')" "db_inv d" for add ss n d x d'
    using f [OF that(2), of add ss n] that(1) by simp
  show ?thesis
    using assms
    by (auto simp: AddRemapInfo_def Let_def func_def [symmetric] slashed_Fix
        intro: db_inv_backend db_inv_mapping dest: r split: if_splits option.splits prod.splits sum.splits)
qed


lemma AddRemapFlag_inv: "db_inv db \<Longrightarrow> AddRemapFlag token name db = Inr db' \<Longrightarrow> db_inv db'"
  by (auto simp: AddRemapFlag_def Let_def intro!: db_inv_upd split: option.splits prod.splits if_splits)

lemma AddHooksFile_inv: "db_inv db \<Longrightarrow> db_inv (AddHooksFile ce name db)"
proof -
  assume "db_inv db"
  then have "db_inv (repo_upd name id db)" by (rule db_inv_upd) simp
  then show ?thesis using \<open>db_inv db\<close> by (auto simp: AddHooksFile_def Let_def db_inv_def)
qed

text \<open>The database while the directives \<open>Remap-...\<close> are read.\<close>

inductive db_reach :: "remotedb \<Rightarrow> bool" where
  db_init: "db_reach remotedb_new"
| db_info: "db_reach db \<Longrightarrow> AddRemapInfo ce b token name db = Inr db' \<Longrightarrow> db_reach db'"
| db_flag: "db_reach db \<Longrightarrow> AddRemapFlag token name db = Inr db' \<Longrightarrow> db_reach db'"
| db_hook: "db_reach db \<Longrightarrow> db_reach (AddHooksFile ce name db)"
| db_clean: "db_reach db \<Longrightarrow> db_reach (snd (db_BackgroundCleanup now names db))"

lemma cleanup_hooks_frame:
  "cleanup_hooks now ns acc db = (acc', db') \<Longrightarrow> db_repoparms db' = db_repoparms db \<and> db_mapUrl2pVname db' = db_mapUrl2pVname db"
  by (induction ns arbitrary: acc db) (auto split: option.splits prod.splits)

lemma db_reach_inv: "db_reach db \<Longrightarrow> db_inv db"
proof (induction rule: db_reach.induct)
  case (db_clean db now names)
  then show ?case
    using cleanup_hooks_frame [OF surjective_pairing, of now names "(END_OF_TIME, [])" db]
    by (simp add: db_BackgroundCleanup_def db_inv_def)
qed (auto intro: db_inv_new AddRemapInfo_inv AddRemapFlag_inv AddHooksFile_inv)

lemma best_match_spec:
  assumes "best_match path es (b, m) = (l, n)" "b > 0 \<longrightarrow> m \<noteq> None" "b = 0 \<longrightarrow> m = None"
  shows "b \<le> l \<and> (\<forall>(p, k) \<in> set es. prefix_hit path p \<longrightarrow> length p \<le> l) \<and>
    (l = b \<and> n = m \<or> (\<exists>p k. (p, k) \<in> set es \<and> prefix_hit path p \<and> length p = l \<and> n = Some k))"
  using assms
proof (induction es arbitrary: b m)
  case (Cons e es)
  obtain p k where e: "e = (p, k)" by fastforce
  show ?case
  proof (cases "length p > b \<and> prefix_hit path p")
    case True
    then have "best_match path es (length p, Some k) = (l, n)" using Cons.prems(1) by (simp add: e)
    from Cons.IH [OF this] True show ?thesis by (fastforce simp: e)
  next
    case False
    then have "best_match path es (b, m) = (l, n)" using Cons.prems(1) by (auto simp: e split: if_splits)
    from Cons.IH [OF this Cons.prems(2,3)] False show ?thesis by (fastforce simp: e)
  qed
qed simp

text \<open>
  C17. A request is mapped to the repository with the longest matching prefix among those
  configured for its host and port: the prefix is a directory, the rest of the path is not empty
  and completes it, no configured prefix that matches is longer, and the descriptor exists. When no
  repository is found, none of the prefixes matches.
\<close>

theorem resolved_prefix_is_longest:
  assumes "db_reach db"
  shows "let r = GetRepNameAndPathResidual db url; es = db_mapUrl2pVname db (GetHostPortKey url) in
    (case rr_psRepoName r of
       None \<Rightarrow> \<forall>(q, m) \<in> set es. \<not> prefix_hit (sPath url) q
     | Some n \<Rightarrow> \<exists>p. (p, n) \<in> set es \<and> slashed p \<and> sPath url = p @ rr_sRestPath r \<and> rr_sRestPath r \<noteq> [] \<and>
         (\<forall>(q, m) \<in> set es. prefix_hit (sPath url) q \<longrightarrow> length q \<le> length p) \<and>
         rr_repodata r = db_repoparms db n \<and> rr_repodata r \<noteq> None)"
proof -
  let ?es = "db_mapUrl2pVname db (GetHostPortKey url)"
  note inv = db_reach_inv [OF assms]
  obtain l n where b: "best_match (sPath url) ?es (0, None) = (l, n)" by fastforce
  note s = best_match_spec [OF b, simplified]
  have ne: "length q > 0" if "(q, m) \<in> set ?es" for q m using inv that by (fastforce simp: db_inv_def slashed_def)
  show ?thesis
  proof (cases n)
    case None
    then have "l = 0" using s by auto
    then have "\<forall>(q, m) \<in> set ?es. \<not> prefix_hit (sPath url) q" using s ne by fastforce
    then show ?thesis using None b by (simp add: GetRepNameAndPathResidual_def)
  next
    case (Some k)
    then obtain p where p: "(p, k) \<in> set ?es" "prefix_hit (sPath url) p" "length p = l" using s by auto
    have path: "sPath url = p @ drop l (sPath url)"
      using p(2,3) append_take_drop_id [of l "sPath url"] by (auto simp: prefix_hit_def startsWith_def)
    have r: "GetRepNameAndPathResidual db url = \<lparr>rr_psRepoName = Some k, rr_sRestPath = drop l (sPath url), rr_repodata = db_repoparms db k\<rparr>"
      using b Some by (simp add: GetRepNameAndPathResidual_def)
    have "drop l (sPath url) \<noteq> []" using p(2,3) by (auto simp: prefix_hit_def)
    moreover have "slashed p" "db_repoparms db k \<noteq> None" using inv p(1) by (auto simp: db_inv_def)
    moreover have "\<forall>(q, m) \<in> set ?es. prefix_hit (sPath url) q \<longrightarrow> length q \<le> length p" using s p(3) by auto
    ultimately show ?thesis using p(1) path by (auto simp: r Let_def)
  qed
qed


definition cfg_env_demo :: cfg_env where
  "cfg_env_demo = \<lparr>ce_read = (\<lambda>f. if f = ''/etc/b'' then Some (''http://m.org/debian'' @ [CHR 0x0A] @ ''Site: x.org'' @ [CHR 0x0A] @
       ''Archive-http: /d'' @ [CHR 0x0A]) else None),
     ce_glob = (\<lambda>f. [f]), ce_confdir = ''/etc'', ce_suppdir = []\<rparr>"

theorem resolved_prefix_is_longest_witness:
  "case AddRemapInfo cfg_env_demo False ''http://d.org/debian'' ''deb'' remotedb_new of
     Inl _ \<Rightarrow> False
   | Inr db \<Rightarrow> \<exists>p. slashed p \<and> ''/debian/x'' = p @
         rr_sRestPath (GetRepNameAndPathResidual db (url_clear\<lparr>sHost := ''d.org'', sPath := ''/debian/x''\<rparr>))"
proof -
  let ?u = "url_clear\<lparr>sHost := ''d.org'', sPath := ''/debian/x''\<rparr>"
  obtain db where db: "AddRemapInfo cfg_env_demo False ''http://d.org/debian'' ''deb'' remotedb_new = Inr db"
    and n: "rr_psRepoName (GetRepNameAndPathResidual db ?u) = Some ''deb''"
  proof -
    have "case AddRemapInfo cfg_env_demo False ''http://d.org/debian'' ''deb'' remotedb_new of
        Inl _ \<Rightarrow> False | Inr db \<Rightarrow> rr_psRepoName (GetRepNameAndPathResidual db ?u) = Some ''deb''" by code_simp
    then show ?thesis using that by (auto split: sum.splits)
  qed
  have "db_reach db" by (rule db_info [OF db_init db])
  from resolved_prefix_is_longest [OF this, of ?u] show ?thesis by (auto simp: db n Let_def)
qed


text \<open>The URLs of a backend file, in order.\<close>

definition line_url :: "string \<Rightarrow> tHttpUrl option" where
  "line_url l =
     (case SetHttpUrl (trimBack_str l SPACECHARS) True of
        Some (True, u) \<Rightarrow> Some (u\<lparr>sPath := FixPostPreSlashes (sPath u)\<rparr>) | _ \<Rightarrow> None)"

definition repo_backends :: "remotedb \<Rightarrow> string \<Rightarrow> tHttpUrl list" where
  "repo_backends db n = (case db_repoparms db n of Some d \<Rightarrow> rd_backends d | None \<Rightarrow> [])"

lemma repo_backends_add: "repo_backends (add_backend n u db) n = repo_backends db n @ [u]"
  by (simp add: repo_backends_def add_backend_def repo_upd_def tRepoData_new_def split: option.splits)

lemma backends_loop_urls:
  assumes "backends_loop name ls e n db = Inr (n', db')" "\<forall>l \<in> set ls. trimBack_str l SPACECHARS \<noteq> []"
  shows "n' = n + length (List.map_filter line_url ls) \<and>
    repo_backends db' name = repo_backends db name @ List.map_filter line_url ls"
  using assms
proof (induction ls arbitrary: e n db)
  case (Cons l ls)
  obtain ok u where s: "SetHttpUrl (trimBack_str l SPACECHARS) True = Some (ok, u)"
    using Cons.prems(1) by (auto simp: Let_def split: option.splits)
  show ?case
  proof (cases ok)
    case True
    let ?u = "u\<lparr>sPath := FixPostPreSlashes (sPath u)\<rparr>"
    have "backends_loop name ls url_clear (n + 1) (add_backend name ?u db) = Inr (n', db')" using Cons.prems(1) s True by simp
    moreover have "line_url l = Some ?u" using s True by (simp add: line_url_def)
    ultimately show ?thesis
      using Cons.IH [of url_clear "n + 1" "add_backend name ?u db"] Cons.prems(2) by (simp add: List.map_filter_simps repo_backends_add)
  next
    case False
    obtain e' where "backends_loop name ls e' n db = Inr (n', db')"
      using Cons.prems s False by (auto simp: Let_def split: option.splits)
    moreover have "line_url l = None" using s False by (simp add: line_url_def)
    ultimately show ?thesis using Cons.IH Cons.prems(2) by (simp add: List.map_filter_simps)
  qed
qed (simp add: List.map_filter_simps)

lemma directive_not_blank:
  assumes "l \<in> set (cfg_lines r)"
  shows "trimBack_str l SPACECHARS \<noteq> []"
proof -
  obtain m where m: "l = dropWhile (\<lambda>c. c \<in> set SPACECHARS) m" "l \<noteq> []"
    using assms by (auto simp: cfg_lines_eq is_directive_def trimFront_str_eq trimFront_dropWhile)
  then have "hd l \<notin> set SPACECHARS" using hd_dropWhile by metis
  then have "dropWhile (\<lambda>c. c \<in> set SPACECHARS) (rev l) \<noteq> []" using m(2) hd_in_set by (auto simp: dropWhile_eq_Nil_conv)
  then show ?thesis using m(2) by (simp add: trimBack_str_eq trimBack_rev)
qed

text \<open>
  Reading a backend file adds one backend for each line that is a URL, in their order and with
  slashes at both ends of the path, and nothing else: entries in the form of the fields \<open>Site\<close> and
  \<open>Archive-http\<close>, which the reader also looks for, never become backends.
\<close>

theorem backend_file_adds_its_urls:
  assumes "ce_read ce f = Some c" "ReadBackendsFile ce f name db = Inr (n, db')"
  shows "let us = List.map_filter line_url (cfg_lines (OpenFile (ce_read ce) f 1)) in
    n = length us \<and> repo_backends db' name = repo_backends db name @ us"
  using assms backends_loop_urls [of name "cfg_lines (OpenFile (ce_read ce) f 1)" url_clear 0 db n db'] directive_not_blank
  by (auto simp: ReadBackendsFile_def OpenFile_def Let_def)

theorem backend_file_adds_its_urls_witness:
  "case ReadBackendsFile cfg_env_demo ''/etc/b'' ''deb'' remotedb_new of
     Inl _ \<Rightarrow> False | Inr (n, db) \<Rightarrow> n = 1 \<and> map sHost (repo_backends db ''deb'') = [''m.org'']"
proof -
  obtain n db where R: "ReadBackendsFile cfg_env_demo ''/etc/b'' ''deb'' remotedb_new = Inr (n, db)"
  proof -
    have "\<not> isl (ReadBackendsFile cfg_env_demo ''/etc/b'' ''deb'' remotedb_new)" by code_simp
    then show ?thesis using that by (cases "ReadBackendsFile cfg_env_demo ''/etc/b'' ''deb'' remotedb_new") auto
  qed
  have c: "\<exists>c. ce_read cfg_env_demo ''/etc/b'' = Some c" by (simp add: cfg_env_demo_def)
  have u: "map sHost (List.map_filter line_url (cfg_lines (OpenFile (ce_read cfg_env_demo) ''/etc/b'' 1))) = [''m.org'']"
    by code_simp
  have e: "repo_backends remotedb_new ''deb'' = []" by (simp add: repo_backends_def remotedb_new_def)
  from c backend_file_adds_its_urls [OF _ R] u e show ?thesis unfolding R by (auto simp: Let_def)
qed


text \<open>
  C26. While the directives and the files they name are read, the database stays well-formed: each
  prefix and the path of each backend begins and ends with a slash, and each prefix belongs to a
  repository that exists.
\<close>

theorem database_is_wellformed:
  assumes "db_reach db"
  shows "(\<forall>k. \<forall>(p, n) \<in> set (db_mapUrl2pVname db k). slashed p \<and> db_repoparms db n \<noteq> None) \<and>
    (\<forall>n. \<forall>u \<in> set (repo_backends db n). slashed (sPath u))"
proof -
  note inv = db_reach_inv [OF assms, unfolded db_inv_def]
  have "\<forall>k. \<forall>(p, n) \<in> set (db_mapUrl2pVname db k). slashed p \<and> db_repoparms db n \<noteq> None" using inv by blast
  moreover have "slashed (sPath u)" if "u \<in> set (repo_backends db n)" for n u
    using inv that by (cases "db_repoparms db n") (auto simp: repo_backends_def)
  ultimately show ?thesis by blast
qed

theorem database_is_wellformed_witness:
  "case AddRemapInfo cfg_env_demo True ''file:b'' ''deb'' remotedb_new of
     Inl _ \<Rightarrow> False
   | Inr db \<Rightarrow> repo_backends db ''deb'' \<noteq> [] \<and> (\<forall>u \<in> set (repo_backends db ''deb''). slashed (sPath u))"
proof -
  obtain db where db: "AddRemapInfo cfg_env_demo True ''file:b'' ''deb'' remotedb_new = Inr db" and n: "repo_backends db ''deb'' \<noteq> []"
  proof -
    have "case AddRemapInfo cfg_env_demo True ''file:b'' ''deb'' remotedb_new of
        Inl _ \<Rightarrow> False | Inr db \<Rightarrow> repo_backends db ''deb'' \<noteq> []" by code_simp
    then show ?thesis using that by (auto split: sum.splits)
  qed
  have "db_reach db" by (rule db_info [OF db_init db])
  from database_is_wellformed [OF this] n show ?thesis by (simp add: db)
qed

end
