(* ===== verification/Config.thy ===== *)
theory Config
  imports RemoteDb
begin

text \<open>
  \<open>src/acfg.cc\<close>: the configuration. Options are looked up in three tables (texts, numbers, options
  with code of their own); configuration files are sequences of option lines; values that depend on
  each other are settled after reading. Also here: the types of files as regular expressions
  decide them, the credentials of the administrator, and the state of an optional proxy.

  Variables of the program that options set are fields of \<open>config\<close>, the plain ones addressed by
  their names. The regular expression functions of the C library are parameters: \<open>regcomp\<close> says
  whether a pattern compiles and \<open>regexec\<close> whether it matches. Messages on the terminal are left out.
\<close>

section \<open>Options\<close>

definition RESERVED_DEFVAL :: int where "RESERVED_DEFVAL = -4223"
definition TCP_PORT_MAX :: nat where "TCP_PORT_MAX = 65536"

datatype conproto = PF_UNSPEC | PF_INET | PF_INET6

record config =
  cf_str :: "string \<Rightarrow> string"
  cf_int :: "string \<Rightarrow> int"
  cf_proxy_info :: tHttpUrl
  cf_localdirs :: "string \<Rightarrow> string option"
  cf_pUserPorts :: "(nat \<Rightarrow> bool) option"
  cf_conprotos :: "conproto list"
  cf_adminauth :: string
  cf_adminauthB64 :: string
  cf_exstarttradeoff :: int
  cf_ccNoCache :: bool
  cf_ccNoStore :: bool
  cf_db :: remotedb

datatype tProperty = P_Proxy | P_LocalDirs | P_Remap | P_AllowUserPorts | P_ConnectProto | P_AdminAuth
  | P_ExStartTradeOff | P_PermitCacheControl

definition n2sTbl :: "(string \<times> string) list" where
  "n2sTbl =
    [
     (''CacheDir'', ''cachedir''), (''LogDir'', ''logdir''), (''SupportDir'', ''suppdir''),
     (''SocketPath'', ''udspath''), (''PidFile'', ''pidfile''), (''ReportPage'', ''reportpage''),
     (''VfilePattern'', ''vfilepat''), (''PfilePattern'', ''pfilepat''), (''SPfilePattern'', ''spfilepat''),
     (''SVfilePattern'', ''svfilepat''), (''WfilePattern'', ''wfilepat''), (''VfilePatternEx'', ''vfilepatEx''),
     (''PfilePatternEx'', ''pfilepatEx''), (''WfilePatternEx'', ''wfilepatEx''),
     (''SPfilePatternEx'', ''spfilepatEx''), (''SVfilePatternEx'', ''svfilepatEx''), (''BindAddress'', ''bindaddr''),
     (''UserAgent'', ''agentname''), (''DontCache'', ''tmpDontcache''),
     (''DontCacheRequested'', ''tmpDontcacheReq''), (''DontCacheResolved'', ''tmpDontcacheTgt''),
     (''PrecacheFor'', ''mirrorsrcs''), (''RequestAppendix'', ''requestapx''),
     (''PassThroughPattern'', ''connectPermPattern''), (''CApath'', ''capath''), (''CAfile'', ''cafile''),
     (''BadRedirDetectMime'', ''badredmime''), (''OptProxyCheckCommand'', ''optProxyCheckCmd''),
     (''BusAction'', ''sigbuscmd''), (''EvDnsResolvConf'', ''dnsresconf'')]"

text \<open>Name, variable, whether a warning is printed, base of the number, hidden.\<close>

definition n2iTbl :: "(string \<times> string option \<times> bool \<times> nat \<times> bool) list" where
  "n2iTbl =
    [
     (''Port'', Some ''port'', False, 10, False), (''Debug'', Some ''debug'', False, 10, False),
     (''OfflineMode'', Some ''offlinemode'', False, 10, False),
     (''ForeGround'', Some ''foreground'', False, 10, False),
     (''ForceManaged'', Some ''forcemanaged'', False, 10, False),
     (''StupidFs'', Some ''stupidfs'', False, 10, False), (''VerboseLog'', Some ''verboselog'', False, 10, False),
     (''ExThreshold'', Some ''extreshhold'', False, 10, False),
     (''ExTreshold'', Some ''extreshhold'', False, 10, True),
     (''MaxStandbyConThreads'', Some ''tpstandbymax'', False, 10, False),
     (''MaxConThreads'', Some ''tpthreadmax'', False, 10, False),
     (''DlMaxRetries'', Some ''dlretriesmax'', False, 10, False),
     (''DnsCacheSeconds'', Some ''dnscachetime'', False, 10, False),
     (''UnbufferLogs'', Some ''debug'', False, 10, False),
     (''ExAbortOnProblems'', Some ''exfailabort'', False, 10, False),
     (''ExposeOrigin'', Some ''exporigin'', False, 10, False),
     (''LogSubmittedOrigin'', Some ''logxff'', False, 10, False),
     (''RecompBz2'', Some ''recompbz2'', False, 10, False),
     (''NetworkTimeout'', Some ''nettimeout'', False, 10, False),
     (''FastTimeout'', Some ''fasttimeout'', False, 10, False),
     (''DisconnectTimeout'', Some ''discotimeout'', False, 10, False),
     (''MinUpdateInterval'', Some ''updinterval'', False, 10, False),
     (''ForwardBtsSoap'', Some ''forwardsoap'', False, 10, False),
     (''KeepExtraVersions'', Some ''keepnver'', False, 10, False), (''UseWrap'', Some ''usewrap'', False, 10, False),
     (''FreshIndexMaxAge'', Some ''maxtempdelay'', False, 10, False),
     (''RedirMax'', Some ''redirmax'', False, 10, False),
     (''VfileUseRangeOps'', Some ''vrangeops'', False, 10, False),
     (''ResponseFreezeDetectTime'', Some ''stucksecs'', False, 10, False),
     (''ReuseConnections'', Some ''persistoutgoing'', False, 10, False),
     (''PipelineDepth'', Some ''pipelinelen'', False, 10, False),
     (''ExSuppressAdminNotification'', Some ''exsupcount'', False, 10, False),
     (''OptProxyTimeout'', Some ''optproxytimeout'', False, 10, False),
     (''MaxDlSpeed'', Some ''maxdlspeed'', False, 10, False),
     (''MaxInresponsiveDlSize'', Some ''maxredlsize'', False, 10, False),
     (''OptProxyCheckInterval'', Some ''optProxyCheckInt'', False, 10, False),
     (''TrackFileUse'', Some ''trackfileuse'', False, 10, False),
     (''FollowIndexFileRemoval'', Some ''follow404'', False, 10, False),
     (''ReserveSpace'', Some ''allocspace'', False, 10, False), (''EvDnsOpts'', Some ''dnsopts'', False, 10, False),
     (''DirPerms'', Some ''dirperms'', False, 8, False), (''FilePerms'', Some ''fileperms'', False, 8, False),
     (''Verbose'', None, True, 10, True), (''MaxSpareThreadSets'', Some ''tpstandbymax'', True, 10, True),
     (''OldIndexUpdater'', Some ''oldupdate'', True, 10, True), (''Patrace'', Some ''patrace'', True, 10, False),
     (''NoSSLchecks'', Some ''nsafriendly'', True, 10, False)]"

definition n2pTbl :: "(string \<times> tProperty) list" where
  "n2pTbl =
     [(''Proxy'', P_Proxy), (''LocalDirs'', P_LocalDirs), (''Remap-'', P_Remap), (''AllowUserPorts'', P_AllowUserPorts),
      (''ConnectProto'', P_ConnectProto), (''AdminAuth'', P_AdminAuth), (''ExStartTradeOff'', P_ExStartTradeOff),
      (''PermitCacheControl'', P_PermitCacheControl)]"

fun GetStringPtr :: "string \<Rightarrow> (string \<times> string) list \<Rightarrow> string option" where
  "GetStringPtr key [] = None"
| "GetStringPtr key ((name, ptr) # es) = (if strcasecmp_c key name then Some ptr else GetStringPtr key es)"

text \<open>The first entry with the name decides, even if its pointer is null.\<close>

fun GetIntPtr :: "string \<Rightarrow> (string \<times> string option \<times> bool \<times> nat \<times> bool) list \<Rightarrow> (string \<times> nat) option" where
  "GetIntPtr key [] = None"
| "GetIntPtr key ((name, ptr, warn, base, hidden) # es) =
     (if strcasecmp_c key name then map_option (\<lambda>p. (p, base)) ptr else GetIntPtr key es)"

fun GetPropPtr :: "string \<Rightarrow> (string \<times> tProperty) list \<Rightarrow> tProperty option" where
  "GetPropPtr key [] = None"
| "GetPropPtr key ((name, p) # es) =
     (if strcasecmp_c key name \<or>
         (case find_chr key (CHR ''-'') of None \<Rightarrow> False | Some sep \<Rightarrow> strncasecmp_eq key name sep \<and> length name = sep + 1)
      then Some p else GetPropPtr key es)"

text \<open>\<open>strtol\<close> with base 8 or 10: the value, whether it is out of range, the rest.\<close>

definition base_digit :: "nat \<Rightarrow> char \<Rightarrow> bool" where
  "base_digit base c \<longleftrightarrow> isdigit c \<and> digit_val c < int base"

definition strtol_base :: "nat \<Rightarrow> string \<Rightarrow> int \<times> bool \<times> string" where
  "strtol_base base s =
     (let s1 = dropWhile isspace s;
          neg = (s1 \<noteq> [] \<and> hd s1 = CHR ''-'');
          s2 = (if s1 \<noteq> [] \<and> (hd s1 = CHR ''-'' \<or> hd s1 = CHR ''+'') then tl s1 else s1);
          ds = takeWhile (base_digit base) s2;
          v = foldl (\<lambda>a c. int base * a + digit_val c) 0 ds;
          w = (if neg then - v else v)
      in if ds = [] then (0, False, s)
         else (max LLONG_MIN (min LLONG_MAX w), w < LLONG_MIN \<or> w > LLONG_MAX, drop (length ds) s2))"

section \<open>Options with code of their own\<close>

definition set_Proxy :: "string \<Rightarrow> config \<Rightarrow> cfg_err + bool \<times> config" where
  "set_Proxy value cf =
     (if value = [] then Inr (True, cf\<lparr>cf_proxy_info := url_clear\<rparr>)
      else case SetHttpUrl value True of
             None \<Rightarrow> Inl Fault
           | Some (ok, u) \<Rightarrow>
               if \<not> ok \<or> sHost u = [] then Inl (Exit ''Invalid proxy specification, aborting...'')
               else Inr (True, cf\<lparr>cf_proxy_info := u\<rparr>))"

definition local_dir :: "string \<Rightarrow> (string \<Rightarrow> string option) \<Rightarrow> string \<Rightarrow> string option" where
  "local_dir tok dirs =
     (let token = trimBoth_str tok SPACECHARS in
      case find_first_of token SPACECHARS of
        None \<Rightarrow> dirs
      | Some pos \<Rightarrow>
          let frm = trimBoth_str (take pos token) ''/'';
              what = trimBoth_str (drop pos token) (SPACECHARS @ [CHR 0x27, CHR 0x22])
          in if what = [] then dirs else dirs(frm := Some what))"

definition ParseLocalDirs :: "string \<Rightarrow> config \<Rightarrow> config" where
  "ParseLocalDirs value cf = cf\<lparr>cf_localdirs := fold local_dir (to_vector False False value '';'') (cf_localdirs cf)\<rparr>"

text \<open>The words of a \<open>Remap-\<close> line: prefixes, then backends, then flags, separated by words that begin with a semicolon.\<close>

fun remap_words :: "cfg_env \<Rightarrow> string \<Rightarrow> string list \<Rightarrow> int \<Rightarrow> remotedb \<Rightarrow> cfg_err + int \<times> remotedb" where
  "remap_words ce vname [] type db = Inr (type, db)"
| "remap_words ce vname (s # ss) type db =
     (if s = [] then remap_words ce vname ss type db
      else if hd s = CHR ''#'' then Inr (type, db)
      else
        let type1 = (if type < 0 then 0 else type) in
        if hd s = CHR '';'' then remap_words ce vname ss (type1 + 1) db
        else case (if type1 = 0 then AddRemapInfo ce False s vname db
                   else if type1 = 1 then AddRemapInfo ce True s vname db
                   else if type1 = 2 then AddRemapFlag s vname db else Inr db) of
               Inl e \<Rightarrow> Inl e
             | Inr db' \<Rightarrow> remap_words ce vname ss type1 db')"

definition set_Remap :: "cfg_env \<Rightarrow> bool \<Rightarrow> string \<Rightarrow> string \<Rightarrow> config \<Rightarrow> cfg_err + bool \<times> config" where
  "set_Remap ce g_bNoComplex key value cf =
     (let vname = drop 6 key in
      if g_bNoComplex then Inr (True, cf)
      else if vname = [] then Inr (False, cf)
      else case remap_words ce vname (to_vector False False value SPACECHARS) (-1) (cf_db cf) of
             Inl e \<Rightarrow> Inl e
           | Inr (type, db) \<Rightarrow>
               if type < 0 then Inr (False, cf\<lparr>cf_db := db\<rparr>)
               else Inr (True, cf\<lparr>cf_db := AddHooksFile ce vname db\<rparr>))"

fun user_ports :: "string list \<Rightarrow> (nat \<Rightarrow> bool) \<Rightarrow> cfg_err + (nat \<Rightarrow> bool)" where
  "user_ports [] ports = Inr ports"
| "user_ports (s # ss) ports =
     (case strtoull s of
        (n, p) \<Rightarrow>
          if unat n \<ge> TCP_PORT_MAX \<or> p \<noteq> [] \<or> p = c_str s then Inl (Exit ''Bad port in AllowUserPorts'')
          else if n = 0 then Inr (\<lambda>_. True)
          else user_ports ss (ports(unat n := True)))"

definition set_AllowUserPorts :: "string \<Rightarrow> config \<Rightarrow> cfg_err + bool \<times> config" where
  "set_AllowUserPorts value cf =
     (case user_ports (to_vector False False value SPACECHARS) (case cf_pUserPorts cf of Some b \<Rightarrow> b | None \<Rightarrow> (\<lambda>_. False)) of
        Inl e \<Rightarrow> Inl e
      | Inr b \<Rightarrow> Inr (True, cf\<lparr>cf_pUserPorts := Some b\<rparr>))"

fun con_protos :: "string list \<Rightarrow> nat \<Rightarrow> conproto list \<Rightarrow> cfg_err + conproto list" where
  "con_protos [] i ps = Inr ps"
| "con_protos (v # vs) i ps =
     (if v = [] then Inr ps
      else if i \<ge> 2 then Inl (Exit ''Too many protocols specified'')
      else if v = ''v6'' then con_protos vs (i + 1) (ps[i := PF_INET6])
      else if v = ''v4'' then con_protos vs (i + 1) (ps[i := PF_INET])
      else Inl (Exit ''IP protocol not supported''))"

definition set_ConnectProto :: "string \<Rightarrow> config \<Rightarrow> cfg_err + bool \<times> config" where
  "set_ConnectProto value cf =
     (case con_protos (to_vector False False value SPACECHARS) 0 (cf_conprotos cf) of
        Inl e \<Rightarrow> Inl e | Inr ps \<Rightarrow> Inr (True, cf\<lparr>cf_conprotos := ps\<rparr>))"

definition set_PermitCacheControl :: "string \<Rightarrow> config \<Rightarrow> config" where
  "set_PermitCacheControl value cf =
     (let ws = to_vector False False value ('','' @ SPACECHARS)
      in cf\<lparr>cf_ccNoCache := (''no-cache'' \<in> set ws), cf_ccNoStore := (''no-store'' \<in> set ws)\<rparr>)"

definition set_prop :: "cfg_env \<Rightarrow> bool \<Rightarrow> tProperty \<Rightarrow> string \<Rightarrow> string \<Rightarrow> config \<Rightarrow> cfg_err + bool \<times> config" where
  "set_prop ce g_bNoComplex p key value cf =
     (case p of
        P_Proxy \<Rightarrow> set_Proxy value cf
      | P_LocalDirs \<Rightarrow>
          (if g_bNoComplex then Inr (True, cf)
           else let cf1 = ParseLocalDirs value cf in Inr (cf_localdirs cf1 \<noteq> Map.empty, cf1))
      | P_Remap \<Rightarrow> set_Remap ce g_bNoComplex key value cf
      | P_AllowUserPorts \<Rightarrow> set_AllowUserPorts value cf
      | P_ConnectProto \<Rightarrow> set_ConnectProto value cf
      | P_AdminAuth \<Rightarrow> Inr (True, cf\<lparr>cf_adminauth := value, cf_adminauthB64 := EncodeBase64Auth value\<rparr>)
      | P_ExStartTradeOff \<Rightarrow> Inr (True, cf\<lparr>cf_exstarttradeoff := to_int32 (strsizeToOfft value)\<rparr>)
      | P_PermitCacheControl \<Rightarrow> Inr (True, set_PermitCacheControl value cf))"

section \<open>Option lines and files\<close>

definition SetOption :: "cfg_env \<Rightarrow> bool \<Rightarrow> string \<Rightarrow> config \<Rightarrow> cfg_err + bool \<times> config" where
  "SetOption ce g_bNoComplex sLine cf =
     (case ParseOptionLine sLine of
        None \<Rightarrow> Inr (False, cf)
      | Some (key, value) \<Rightarrow>
          (case GetStringPtr key n2sTbl of
             Some v \<Rightarrow> Inr (True, cf\<lparr>cf_str := (cf_str cf)(v := value)\<rparr>)
           | None \<Rightarrow>
               (case GetIntPtr key n2iTbl of
                  Some (v, base) \<Rightarrow>
                    if c_str value = [] then Inr (False, cf)
                    else (case strtol_base base (c_str value) of
                            (nVal, erange, pEnd) \<Rightarrow>
                              if nVal = RESERVED_DEFVAL then Inr (False, cf)
                              else Inr (\<not> erange \<and> pEnd = [], cf\<lparr>cf_int := (cf_int cf)(v := to_int32 nVal)\<rparr>))
                | None \<Rightarrow>
                    (case GetPropPtr key n2pTbl of
                       Some p \<Rightarrow> set_prop ce g_bNoComplex p key value cf
                     | None \<Rightarrow> Inr (False, cf)))))"

fun conf_lines :: "cfg_env \<Rightarrow> bool \<Rightarrow> string list \<Rightarrow> config \<Rightarrow> cfg_err + config" where
  "conf_lines ce nc [] cf = Inr cf"
| "conf_lines ce nc (l # ls) cf =
     (let sLine = (case find_chr l (CHR ''#'') of None \<Rightarrow> l | Some pos \<Rightarrow> take pos l) in
      case SetOption ce nc sLine cf of
        Inl e \<Rightarrow> Inl e
      | Inr (ok, cf1) \<Rightarrow> if ok then conf_lines ce nc ls cf1 else Inl (Exit ''Error reading main options, terminating.''))"

definition ReadOneConfFile :: "cfg_env \<Rightarrow> bool \<Rightarrow> string \<Rightarrow> bool \<Rightarrow> config \<Rightarrow> cfg_err + config" where
  "ReadOneConfFile ce nc szFilename bReadErrorIsFatal cf =
     (let reader = OpenFile (ce_read ce) szFilename 1 in
      if fr_bError reader \<and> bReadErrorIsFatal then Inl (Exit ''Error opening file'')
      else conf_lines ce nc (cfg_lines reader) cf)"

fun conf_files :: "cfg_env \<Rightarrow> bool \<Rightarrow> bool \<Rightarrow> string list \<Rightarrow> config \<Rightarrow> cfg_err + config" where
  "conf_files ce nc fatal [] cf = Inr cf"
| "conf_files ce nc fatal (f # fs) cf =
     (case ReadOneConfFile ce nc f fatal cf of Inl e \<Rightarrow> Inl e | Inr cf1 \<Rightarrow> conf_files ce nc fatal fs cf1)"

text \<open>\<open>realpath\<close> of the directory is a parameter, \<open>None\<close> if it fails.\<close>

definition ReadConfigDirectory :: "cfg_env \<Rightarrow> bool \<Rightarrow> string option \<Rightarrow> bool \<Rightarrow> config \<Rightarrow> cfg_err + cfg_env \<times> config" where
  "ReadConfigDirectory ce nc rpath bReadErrorIsFatal cf =
     (case rpath of
        None \<Rightarrow> Inl (Exit ''Failed to open config directory'')
      | Some buf \<Rightarrow>
          let ce1 = ce\<lparr>ce_confdir := buf\<rparr> in
          (case conf_files ce1 nc bReadErrorIsFatal (ce_glob ce (buf @ ''/*.conf'')) cf of
             Inl e \<Rightarrow> Inl e | Inr cf1 \<Rightarrow> Inr (ce1, cf1)))"


section \<open>Types of files\<close>

datatype eMatchType = FILE_INVALID | FILE_SOLID | FILE_VOLATILE | FILE_WHITELIST | NASTY_PATH | PASSTHROUGH
  | FILE_SPECIAL_SOLID | FILE_SPECIAL_VOLATILE

datatype NOCACHE_PATTYPE = NOCACHE_REQ | NOCACHE_TGT

text \<open>The compiled expressions, as their texts.\<close>

record rex_state =
  rx_pat :: "eMatchType \<Rightarrow> string option"
  rx_extra :: "eMatchType \<Rightarrow> string option"
  rx_vecReqPatters :: "string list"
  rx_vecTgtPatterns :: "string list"

definition rex_new :: rex_state where
  "rex_new = \<lparr>rx_pat = (\<lambda>_. None), rx_extra = (\<lambda>_. None), rx_vecReqPatters = [], rx_vecTgtPatterns = []\<rparr>"

definition BADSTUFF_PATTERN :: string where
  "BADSTUFF_PATTERN = [CHR 0x5C] @ ''.'' @ [CHR 0x5C] @ ''.($|%|/)''"

text \<open>The expressions in the order in which they are compiled; the first failure stops.\<close>

definition compat :: "(string \<Rightarrow> bool) \<Rightarrow> bool \<Rightarrow> eMatchType \<Rightarrow> string \<Rightarrow> rex_state \<Rightarrow> rex_state option" where
  "compat regcomp extra t ps rx =
     (if c_str ps = [] then Some rx
      else if \<not> regcomp (c_str ps) then None
      else Some (if extra then rx\<lparr>rx_extra := (rx_extra rx)(t := Some (c_str ps))\<rparr>
                 else rx\<lparr>rx_pat := (rx_pat rx)(t := Some (c_str ps))\<rparr>))"

fun compile_all :: "(string \<Rightarrow> bool) \<Rightarrow> (bool \<times> eMatchType \<times> string) list \<Rightarrow> rex_state \<Rightarrow> rex_state option" where
  "compile_all regcomp [] rx = Some rx"
| "compile_all regcomp ((x, t, ps) # es) rx =
     (case compat regcomp x t ps rx of None \<Rightarrow> None | Some rx1 \<Rightarrow> compile_all regcomp es rx1)"

definition CompileExpressions :: "(string \<Rightarrow> bool) \<Rightarrow> config \<Rightarrow> rex_state \<Rightarrow> rex_state option" where
  "CompileExpressions regcomp cf =
     compile_all regcomp
       ([(False, FILE_SOLID, cf_str cf ''pfilepat''), (False, FILE_VOLATILE, cf_str cf ''vfilepat''),
         (False, FILE_WHITELIST, cf_str cf ''wfilepat''), (True, FILE_SOLID, cf_str cf ''pfilepatEx''),
         (True, FILE_VOLATILE, cf_str cf ''vfilepatEx''), (True, FILE_WHITELIST, cf_str cf ''wfilepatEx''),
         (False, NASTY_PATH, BADSTUFF_PATTERN), (False, FILE_SPECIAL_SOLID, cf_str cf ''spfilepat''),
         (True, FILE_SPECIAL_SOLID, cf_str cf ''spfilepatEx''), (False, FILE_SPECIAL_VOLATILE, cf_str cf ''svfilepat''),
         (True, FILE_SPECIAL_VOLATILE, cf_str cf ''svfilepatEx'')] @
        (if cf_str cf ''connectPermPattern'' = ''~~~'' then [] else [(False, PASSTHROUGH, cf_str cf ''connectPermPattern'')]))"

definition MatchType :: "(string \<Rightarrow> string \<Rightarrow> bool) \<Rightarrow> rex_state \<Rightarrow> string \<Rightarrow> eMatchType \<Rightarrow> bool" where
  "MatchType regexec rx s type \<longleftrightarrow>
     (case rx_pat rx type of Some p \<Rightarrow> regexec p (c_str s) | None \<Rightarrow> False) \<or>
     (case rx_extra rx type of Some p \<Rightarrow> regexec p (c_str s) | None \<Rightarrow> False)"

definition Match :: "(string \<Rightarrow> string \<Rightarrow> bool) \<Rightarrow> rex_state \<Rightarrow> string \<Rightarrow> eMatchType \<Rightarrow> bool" where
  "Match regexec rx s type \<longleftrightarrow>
     MatchType regexec rx s type \<or>
     type = FILE_SOLID \<and> MatchType regexec rx s FILE_SPECIAL_SOLID \<or>
     type = FILE_VOLATILE \<and> MatchType regexec rx s FILE_SPECIAL_VOLATILE"

definition GetFiletype :: "(string \<Rightarrow> string \<Rightarrow> bool) \<Rightarrow> rex_state \<Rightarrow> string \<Rightarrow> eMatchType" where
  "GetFiletype regexec rx s =
     (if MatchType regexec rx s FILE_SPECIAL_VOLATILE then FILE_VOLATILE
      else if MatchType regexec rx s FILE_SPECIAL_SOLID then FILE_SOLID
      else if MatchType regexec rx s FILE_VOLATILE then FILE_VOLATILE
      else if MatchType regexec rx s FILE_SOLID then FILE_SOLID
      else FILE_INVALID)"

text \<open>A pattern that does not compile stays in the vector.\<close>

definition uncached_pattern :: "(string \<Rightarrow> bool) \<Rightarrow> NOCACHE_PATTYPE \<Rightarrow> string \<Rightarrow> rex_state \<Rightarrow> bool \<times> rex_state" where
  "uncached_pattern regcomp type token rx =
     (regcomp (c_str token),
      case type of NOCACHE_TGT \<Rightarrow> rx\<lparr>rx_vecTgtPatterns := rx_vecTgtPatterns rx @ [c_str token]\<rparr>
                 | NOCACHE_REQ \<Rightarrow> rx\<lparr>rx_vecReqPatters := rx_vecReqPatters rx @ [c_str token]\<rparr>)"

text \<open>The lines of a file of patterns, which may not name further files.\<close>

fun uncached_lines :: "(string \<Rightarrow> bool) \<Rightarrow> NOCACHE_PATTYPE \<Rightarrow> string list \<Rightarrow> rex_state \<Rightarrow> bool \<times> rex_state" where
  "uncached_lines regcomp type [] rx = (True, rx)"
| "uncached_lines regcomp type (l # ls) rx =
     (if startsWith l ''file:'' then (False, rx)
      else case uncached_pattern regcomp type l rx of
             (ok, rx1) \<Rightarrow> if ok then uncached_lines regcomp type ls rx1 else (False, rx1))"

fun uncached_files :: "(string \<Rightarrow> bool) \<Rightarrow> cfg_env \<Rightarrow> NOCACHE_PATTYPE \<Rightarrow> string list \<Rightarrow> rex_state \<Rightarrow> bool \<times> rex_state" where
  "uncached_files regcomp ce type [] rx = (True, rx)"
| "uncached_files regcomp ce type (f # fs) rx =
     (let reader = OpenFile (ce_read ce) f 1 in
      if fr_bError reader then (False, rx)
      else case uncached_lines regcomp type (cfg_lines reader) rx of
             (ok, rx1) \<Rightarrow> if ok then uncached_files regcomp ce type fs rx1 else (False, rx1))"

definition CompileUncachedRex ::
  "(string \<Rightarrow> bool) \<Rightarrow> cfg_env \<Rightarrow> string \<Rightarrow> NOCACHE_PATTYPE \<Rightarrow> rex_state \<Rightarrow> cfg_err + bool \<times> rex_state" where
  "CompileUncachedRex regcomp ce token type rx =
     (if \<not> startsWith token ''file:'' then Inr (uncached_pattern regcomp type token rx)
      else case ExpandFileTokens ce token of
             Inl e \<Rightarrow> Inl e | Inr srcs \<Rightarrow> Inr (uncached_files regcomp ce type srcs rx))"

fun unc_words :: "(string \<Rightarrow> bool) \<Rightarrow> cfg_env \<Rightarrow> NOCACHE_PATTYPE \<Rightarrow> string list \<Rightarrow> rex_state \<Rightarrow> cfg_err + bool \<times> rex_state" where
  "unc_words regcomp ce type [] rx = Inr (True, rx)"
| "unc_words regcomp ce type (w # ws) rx =
     (case CompileUncachedRex regcomp ce w type rx of
        Inl e \<Rightarrow> Inl e | Inr (ok, rx1) \<Rightarrow> if ok then unc_words regcomp ce type ws rx1 else Inr (False, rx1))"

definition CompileUncExpressions ::
  "(string \<Rightarrow> bool) \<Rightarrow> cfg_env \<Rightarrow> NOCACHE_PATTYPE \<Rightarrow> string \<Rightarrow> rex_state \<Rightarrow> cfg_err + bool \<times> rex_state" where
  "CompileUncExpressions regcomp ce type pat rx = unc_words regcomp ce type (to_vector False False pat SPACECHARS) rx"

definition MatchUncacheable :: "(string \<Rightarrow> string \<Rightarrow> bool) \<Rightarrow> rex_state \<Rightarrow> string \<Rightarrow> NOCACHE_PATTYPE \<Rightarrow> bool" where
  "MatchUncacheable regexec rx s type \<longleftrightarrow>
     list_ex (\<lambda>p. regexec p (c_str s)) (if type = NOCACHE_REQ then rx_vecReqPatters rx else rx_vecTgtPatterns rx)"


section \<open>After reading\<close>

text \<open>Removal of repeated slashes: erase one slash at each place where two meet, from the left.\<close>

fun kill_slashes :: "string \<Rightarrow> string" where
  "kill_slashes (a # b # s) =
     (if a = CHR ''/'' \<and> b = CHR ''/'' then kill_slashes (b # s) else a # kill_slashes (b # s))"
| "kill_slashes s = s"

record post_env =
  pc_cfg :: cfg_env
  pc_regcomp :: "string \<Rightarrow> bool"
  pc_umask :: int
  pc_numcores :: int

record settings =
  se_cf :: config
  se_rex :: rex_state
  se_degraded :: bool
  se_cacheDirSlash :: string
  se_agentheader :: string
  se_networkTimeout :: int
  se_initialConTimeout :: int
  se_furtherConTimeout :: int

definition set_int :: "string \<Rightarrow> int \<Rightarrow> config \<Rightarrow> config" where
  "set_int v n cf = cf\<lparr>cf_int := (cf_int cf)(v := n)\<rparr>"

definition set_str :: "string \<Rightarrow> string \<Rightarrow> config \<Rightarrow> config" where
  "set_str v s cf = cf\<lparr>cf_str := (cf_str cf)(v := s)\<rparr>"

definition on_cond :: "bool \<Rightarrow> (config \<Rightarrow> config) \<Rightarrow> config \<Rightarrow> config" where
  "on_cond b f cf = (if b then f cf else cf)"

definition qgrep :: "cfg_env \<Rightarrow> string \<Rightarrow> string \<Rightarrow> bool" where
  "qgrep ce needle file \<longleftrightarrow> list_ex (\<lambda>l. find_sub needle l \<noteq> None) (cfg_lines (OpenFile (ce_read ce) file 1))"

text \<open>The text that is added to each request: escapes resolved, ended by a line end, dropped if it has no colon.\<close>

definition fix_requestapx :: "string \<Rightarrow> string" where
  "fix_requestapx s =
     (let t = trimBoth_str s SPACECHARS;
          u = trimBoth_str (unEscape t) SPACECHARS;
          v = (if u = [] then u else u @ svRN)
      in if t = [] then t else if find_chr v (CHR '':'') = None then [] else v)"

text \<open>The values before the regular expressions are compiled, and the numbers after it.\<close>

definition post_paths :: "post_env \<Rightarrow> config \<Rightarrow> config" where
  "post_paths pe cf0 =
     (let cf1 = on_cond (cf_int cf0 ''port'' = 0) (set_int ''port'' 3142) cf0;
          cf2 = on_cond (cf_str cf1 ''connectPermPattern'' = ''~~~'') (set_str ''connectPermPattern''
                  (''^(bugs'' @ [CHR 0x5C] @ ''.debian'' @ [CHR 0x5C] @ ''.org|changelogs'' @ [CHR 0x5C] @ ''.ubuntu'' @ [CHR 0x5C] @ ''.com):443$'')) cf1;
          cf3 = set_int ''dirperms'' (and (cf_int cf2 ''dirperms'') (not (pc_umask pe))) cf2
      in set_int ''fileperms'' (and (cf_int cf3 ''fileperms'') (not (pc_umask pe))) cf3)"

definition post_texts :: "config \<Rightarrow> config" where
  "post_texts cf0 =
     (let cf1 = on_cond (cf_int cf0 ''tpthreadmax'' < 0) (set_int ''tpthreadmax'' (2 ^ 31 - 1)) cf0;
          cf2 = set_str ''cachedir'' (kill_slashes (cf_str cf1 ''cachedir'')) cf1;
          cf3 = set_str ''reportpage'' (dropWhile (\<lambda>c. c = CHR ''/'') (cf_str cf2 ''reportpage'')) cf2
      in set_str ''requestapx'' (fix_requestapx (cf_str cf3 ''requestapx'')) cf3)"

definition post_numbers :: "post_env \<Rightarrow> config \<Rightarrow> config" where
  "post_numbers pe cf0 =
     (let cf1 = on_cond (cf_int cf0 ''nettimeout'' < 5) (set_int ''nettimeout'' 5) cf0;
          cf2 = on_cond (cf_int cf1 ''fasttimeout'' < 2) (set_int ''fasttimeout'' 2) cf1;
          cf3 = on_cond (cf_int cf2 ''stucksecs'' = RESERVED_DEFVAL)
                  (set_int ''stucksecs'' (to_int32 (2 * (cf_int cf2 ''maxtempdelay'' + 3)))) cf2;
          cf4 = on_cond (cf_int cf3 ''forwardsoap'' = RESERVED_DEFVAL)
                  (set_int ''forwardsoap'' (if cf_int cf3 ''forcemanaged'' = 0 then 1 else 0)) cf3;
          cf5 = on_cond (cf_int cf4 ''exsupcount'' = RESERVED_DEFVAL)
                  (set_int ''exsupcount'' (if cf_int cf4 ''extreshhold'' \<ge> 5 then 1 else 0)) cf4
      in set_int ''numcores'' (pc_numcores pe) cf5)"

definition post_rest :: "post_env \<Rightarrow> config \<Rightarrow> config" where
  "post_rest pe cf0 =
     (let cf1 = set_str ''tmpDontcache'' [] (set_str ''tmpDontcacheTgt'' [] (set_str ''tmpDontcacheReq'' [] cf0));
          ce = pc_cfg pe;
          cf2 = on_cond (cf_int cf1 ''usewrap'' = RESERVED_DEFVAL)
                  (set_int ''usewrap'' (if qgrep ce ''apt-cacher-ng'' ''/etc/hosts.deny'' \<or> qgrep ce ''apt-cacher-ng'' ''/etc/hosts.allow'' then 1 else 0)) cf1;
          cf3 = on_cond (cf_int cf2 ''maxtempdelay'' < 0) (set_int ''maxtempdelay'' 27) cf2;
          cf4 = on_cond (cf_int cf3 ''redirmax'' = RESERVED_DEFVAL)
                  (set_int ''redirmax'' (if cf_int cf3 ''forcemanaged'' \<noteq> 0 then 0 else 5)) cf3;
          cf5 = on_cond (cf_int cf4 ''persistoutgoing'' = 0) (set_int ''pipelinelen'' 1) cf4
      in on_cond (cf_int cf5 ''pipelinelen'' = 0) (set_int ''pipelinelen'' 1) cf5)"

definition further_timeout :: "int \<Rightarrow> int \<Rightarrow> int" where
  "further_timeout disco fast =
     (let t1 = cdiv disco 8; t2 = (if t1 \<ge> fast - 1 then fast - 1 else t1) in if t2 < 2 then 2 else t2)"

definition settle :: "bool \<Rightarrow> config \<Rightarrow> rex_state \<Rightarrow> settings" where
  "settle degr cf rx =
     \<lparr>se_cf = cf, se_rex = rx, se_degraded = degr, se_cacheDirSlash = cf_str cf ''cachedir'' @ ''/'',
      se_agentheader = (if cf_str cf ''agentname'' = [] then [] else ''User-Agent: '' @ cf_str cf ''agentname'' @ svRN),
      se_networkTimeout = cf_int cf ''nettimeout'', se_initialConTimeout = cf_int cf ''fasttimeout'',
      se_furtherConTimeout = further_timeout (cf_int cf ''discotimeout'') (cf_int cf ''fasttimeout'')\<rparr>"

definition PostProcConfig :: "post_env \<Rightarrow> config \<Rightarrow> rex_state \<Rightarrow> cfg_err + settings" where
  "PostProcConfig pe cf0 rx0 =
     (let ce = pc_cfg pe;
          cf1 = post_paths pe cf0;
          degr = (cf_str cf1 ''cachedir'' = [] \<or> hd (cf_str cf1 ''cachedir'') \<noteq> CHR ''/'') in
      case CompileExpressions (pc_regcomp pe) cf1 rx0 of
        None \<Rightarrow> Inl (Exit ''An error occurred while compiling file type regular expression!'')
      | Some rx1 \<Rightarrow>
          let cf2 = post_texts cf1; pid = cf_str cf2 ''pidfile'' in
          if pid \<noteq> [] \<and> hd pid \<noteq> CHR ''/'' then Inl (Exit ''Pid file path must be absolute, terminating...'')
          else
            let cf3 = post_numbers pe cf2;
                dc = (\<lambda>v. if cf_str cf3 v = [] then cf_str cf3 ''tmpDontcache'' else cf_str cf3 v) in
            (case CompileUncExpressions (pc_regcomp pe) ce NOCACHE_REQ (dc ''tmpDontcacheReq'') rx1 of
               Inl e \<Rightarrow> Inl e
             | Inr (False, _) \<Rightarrow> Inl (Exit ''An error occurred while compiling regular expression for non-cached paths!'')
             | Inr (True, rx2) \<Rightarrow>
                 (case CompileUncExpressions (pc_regcomp pe) ce NOCACHE_TGT (dc ''tmpDontcacheTgt'') rx2 of
                    Inl e \<Rightarrow> Inl e
                  | Inr (False, _) \<Rightarrow> Inl (Exit ''An error occurred while compiling regular expression for non-cached paths!'')
                  | Inr (True, rx3) \<Rightarrow>
                      Inr (settle degr (post_rest pe cf3) rx3))))"

section \<open>Access of the administrator, optional proxy\<close>

definition CheckAdminAuth :: "config \<Rightarrow> string option \<Rightarrow> int" where
  "CheckAdminAuth cf auth =
     (if cf_adminauthB64 cf = [] then 0
      else case auth of
             None \<Rightarrow> 1
           | Some a \<Rightarrow>
               if c_str a = [] then 1
               else if take 5 (c_str a) \<noteq> ''Basic'' then -1
               else if cf_adminauthB64 cf = dropWhile isspace (drop 5 (c_str a)) then 0 else 1)"

record proxy_state =
  px_failstate :: bool
  px_last_check :: time_t

text \<open>\<open>cmd_fails\<close> is the result of the configured command, if it is run now.\<close>

definition GetProxyInfo :: "config \<Rightarrow> time_t \<Rightarrow> (string \<Rightarrow> bool) \<Rightarrow> proxy_state \<Rightarrow> tHttpUrl option \<times> proxy_state" where
  "GetProxyInfo cf now cmd_fails px =
     (if sHost (cf_proxy_info cf) = [] then (None, px)
      else
        let cmd = cf_str cf ''optProxyCheckCmd'';
            px1 = (if now - px_last_check px > cf_int cf ''optProxyCheckInt''
                   then \<lparr>px_failstate = (cmd \<noteq> [] \<and> cmd_fails cmd), px_last_check = now\<rparr> else px)
        in (if px_failstate px1 then None else Some (cf_proxy_info cf), px1))"

definition MarkProxyFailure :: "config \<Rightarrow> proxy_state \<Rightarrow> proxy_state" where
  "MarkProxyFailure cf px = (if cf_int cf ''optProxyCheckInt'' \<le> 0 then px else px\<lparr>px_failstate := True\<rparr>)"


section \<open>MIME types\<close>

text \<open>The lines of \<open>/etc/mime.types\<close>; suffixes are compared without regard to case.\<close>

fun mime_sufs :: "string \<Rightarrow> string list \<Rightarrow> (string \<Rightarrow> string option) \<Rightarrow> string \<Rightarrow> string option" where
  "mime_sufs mimetype [] m = m"
| "mime_sufs mimetype (suf # ss) m =
     (if startsWith suf ''#'' then m else mime_sufs mimetype ss (m(map tolower suf := Some mimetype)))"

definition mime_line :: "string \<Rightarrow> (string \<Rightarrow> string option) \<Rightarrow> string \<Rightarrow> string option" where
  "mime_line l m =
     (case to_vector False False l SPACECHARS of
        [] \<Rightarrow> m
      | mimetype # sufs \<Rightarrow> if startsWith mimetype ''#'' then m else mime_sufs mimetype sufs m)"

definition mimemap :: "cfg_env \<Rightarrow> string \<Rightarrow> string option" where
  "mimemap ce = fold mime_line (cfg_lines (OpenFile (ce_read ce) ''/etc/mime.types'' 1)) Map.empty"

definition GetMimeType :: "cfg_env \<Rightarrow> string \<Rightarrow> string" where
  "GetMimeType ce path =
     (let guess = (case ce_read ce path of
                     None \<Rightarrow> []
                   | Some c \<Rightarrow> if list_all (\<lambda>c. (of_char c :: nat) < 128) (take 255 c) then ''text/plain'' else ''application/octet-stream'')
      in case rfind_chr path (CHR ''.'') of
           None \<Rightarrow> guess
         | Some dpos \<Rightarrow> (case mimemap ce (map tolower (drop (dpos + 1) path)) of Some t \<Rightarrow> t | None \<Rightarrow> guess))"

section \<open>Printing of the configuration\<close>

definition get_prop :: "bool \<Rightarrow> tProperty \<Rightarrow> string list \<Rightarrow> config \<Rightarrow> string" where
  "get_prop superUser p dirs cf =
     (case p of
        P_Proxy \<Rightarrow> (if \<not> superUser \<and> sUserPass (cf_proxy_info cf) \<noteq> [] then ''#''
                    else if sHost (cf_proxy_info cf) = [] then [] else ToURI (cf_proxy_info cf) False False)
      | P_LocalDirs \<Rightarrow> concat (map (\<lambda>k. k @ '' '' @ the (cf_localdirs cf k) @ ''; '') dirs)
      | P_Remap \<Rightarrow> ''# mixed options''
      | P_AllowUserPorts \<Rightarrow> (if cf_pUserPorts cf = None then [] else join '', '' (map nat_str [0..<TCP_PORT_MAX]))
      | P_ConnectProto \<Rightarrow>
          (let f = (\<lambda>p. if p = PF_INET6 then ''v6'' else ''v4'') in
           f (cf_conprotos cf ! 0) @ (if cf_conprotos cf ! 0 \<noteq> cf_conprotos cf ! 1 then '' '' @ f (cf_conprotos cf ! 1) else []))
      | P_AdminAuth \<Rightarrow> ''#''
      | P_ExStartTradeOff \<Rightarrow> ltos (cf_exstarttradeoff cf)
      | P_PermitCacheControl \<Rightarrow> (if cf_ccNoCache cf then '' no-cache'' else []) @ (if cf_ccNoStore cf then '' no-store'' else []))"

text \<open>\<open>dump_config\<close> without the additional debugging output. \<open>dirs\<close> are the keys of \<open>localdirs\<close> in their order.\<close>

definition dump_config :: "bool \<Rightarrow> string list \<Rightarrow> config \<Rightarrow> string list" where
  "dump_config includeDelicate dirs cf =
     map (\<lambda>(name, v). name @ '' = '' @ cf_str cf v) n2sTbl @
     List.map_filter (\<lambda>(name, ptr, warn, base, hidden). case ptr of
        Some v \<Rightarrow> if hidden then None else Some (name @ '' = '' @ int_str (cf_int cf v)) | None \<Rightarrow> None) n2iTbl @
     List.map_filter (\<lambda>(name, p). let val = get_prop includeDelicate p dirs cf in
        if startsWith val ''#'' then None else Some (name @ '' = '' @ val)) n2pTbl"


section \<open>Properties\<close>

text \<open>The name of an option as the tables have them.\<close>

definition plain_name :: "string \<Rightarrow> bool" where
  "plain_name n \<longleftrightarrow> list_all (\<lambda>c. c \<notin> set (SPACECHARS @ '':='') \<and> c \<noteq> CHR 0x00) n \<and> length n > 1"

lemma plain_ends:
  assumes "plain_name n"
  shows "n \<noteq> []" "hd n \<notin> set SPACECHARS" "last n \<notin> set SPACECHARS"
proof -
  show "n \<noteq> []" using assms by (auto simp: plain_name_def)
  then have "hd n \<in> set n" "last n \<in> set n" by simp_all
  then show "hd n \<notin> set SPACECHARS" "last n \<notin> set SPACECHARS"
    using assms unfolding plain_name_def list_all_iff by (metis Un_iff set_append)+
qed

lemma plain_trim: "plain_name n \<Longrightarrow> trimFront_str n SPACECHARS = n" "plain_name n \<Longrightarrow> trimBoth_str n SPACECHARS = n"
  by (simp_all add: trimBoth_str_def trimBack_str_id trimFront_str_id plain_ends)

lemma trimBack_one_blank:
  assumes "last n \<notin> set SPACECHARS" "length n > 1"
  shows "trimBack_str (n @ '' '') SPACECHARS = n"
proof -
  obtain xs x where n: "n = xs @ [x]" "x \<notin> set SPACECHARS" "xs \<noteq> []"
    using assms by (cases n rule: rev_cases) auto
  have "CHR '' '' \<in> set SPACECHARS" by (simp add: SPACECHARS_def)
  then have "find_last_not_of (xs @ x # '' '') SPACECHARS = Some (length xs)"
    unfolding find_last_not_of_def using n(2) by (intro rfind_pos_split) auto
  then show ?thesis using n by (simp add: trimBack_str_def)
qed

lemma plain_trim_blank: "plain_name n \<Longrightarrow> trimBoth_str (n @ '' '') SPACECHARS = n"
  using trimBack_one_blank [of n] plain_ends [of n] by (simp add: trimBoth_str_def plain_trim plain_name_def)

lemma find_chr_plain:
  assumes "plain_name n" "c = CHR ''='' \<or> c = CHR '':''"
  shows "find_chr (n @ s) c = map_option (\<lambda>i. i + length n) (find_chr s c)"
proof -
  have "\<forall>x \<in> set n. x \<noteq> c" using assms by (auto simp: plain_name_def list_all_iff)
  then show ?thesis unfolding find_chr_def
    by (induction n) (auto simp: find_simps option.map_comp comp_def option.map_ident)
qed

lemma int_str_chars: "c \<in> set (int_str n) \<Longrightarrow> isdigit c \<or> c = CHR ''-''"
  using nat_str_digits by (auto simp: int_str_def split: if_splits)

lemma foldl_digits: "foldl (\<lambda>a c. int 10 * a + digit_val c) 0 ds = digits_val ds"
  by (simp add: digits_val_def)

lemma base10_digit: "base_digit 10 = isdigit"
  by (auto simp: fun_eq_iff base_digit_def digit_val_def isdigit_def)


lemma ParseOptionLine_eq:
  assumes "plain_name n" "CHR '':'' \<notin> set v"
  shows "ParseOptionLine (n @ ''='' @ v) = Some (n, trimBoth_str v SPACECHARS)"
    and "ParseOptionLine (n @ '' ='' @ v) = Some (n, trimBoth_str v SPACECHARS)"
proof -
  have c: "find_chr v (CHR '':'') = None" using assms(2) by (auto simp: find_chr_def find_pos_None)
  have e: "find_chr (CHR ''='' # s) (CHR ''='') = Some 0" "find_chr (CHR '' '' # CHR ''='' # s) (CHR ''='') = Some 1"
    "find_chr (CHR ''='' # s) (CHR '':'') = map_option Suc (find_chr s (CHR '':''))"
    "find_chr (CHR '' '' # CHR ''='' # s) (CHR '':'') = map_option (Suc \<circ> Suc) (find_chr s (CHR '':''))" for s
    by (simp_all add: find_chr_def find_simps option.map_comp)
  note p = find_chr_plain [OF assms(1)] plain_ends(1) [OF assms(1)] plain_trim(2) [OF assms(1)] plain_trim_blank [OF assms(1)]
  show "ParseOptionLine (n @ ''='' @ v) = Some (n, trimBoth_str v SPACECHARS)"
    by (simp add: ParseOptionLine_def p e c)
  show "ParseOptionLine (n @ '' ='' @ v) = Some (n, trimBoth_str v SPACECHARS)"
    by (simp add: ParseOptionLine_def p e c)
qed

lemma strtol_base_int_str:
  assumes "LLONG_MIN \<le> n" "n \<le> LLONG_MAX"
  shows "strtol_base 10 (int_str n) = (n, False, [])"
proof -
  define m where "m = nat (abs n)"
  have d: "\<forall>c \<in> set (nat_str m). isdigit c" by (rule nat_str_digits)
  then have tw: "takeWhile isdigit (nat_str m) = nat_str m" by (simp add: takeWhile_eq_all_conv)
  have h: "isdigit (hd (nat_str m))" using d by simp
  then have sp: "dropWhile isspace (nat_str m) = nat_str m" "hd (nat_str m) \<noteq> CHR ''-''" "hd (nat_str m) \<noteq> CHR ''+''"
    using digit_not_space digit_not_special(1,2) by (auto simp: dropWhile_eq_self_iff)
  have v: "int m = \<bar>n\<bar>" by (simp add: m_def)
  show ?thesis
  proof (cases "n < 0")
    case True
    then have i: "int_str n = CHR ''-'' # nat_str m" by (simp add: int_str_def m_def)
    have "dropWhile isspace (int_str n) = int_str n" unfolding i by (simp add: isspace_def)
    then show ?thesis using True assms
      by (simp add: strtol_base_def Let_def i base10_digit tw foldl_digits [simplified] v)
  next
    case False
    then have i: "int_str n = nat_str m" by (simp add: int_str_def m_def)
    show ?thesis using False assms
      by (simp add: strtol_base_def Let_def i sp base10_digit tw foldl_digits [simplified] v)
  qed
qed

lemma int_str_trim: "trimBoth_str ('' '' @ int_str n) SPACECHARS = int_str n" "c_str (int_str n) = int_str n" "int_str n \<noteq> []"
proof -
  have nn: "CHR 0x00 \<notin> set (int_str n)" using int_str_chars digit_not_special(3) by fastforce
  show ne: "int_str n \<noteq> []" by (simp add: int_str_def)
  have ns: "c \<notin> set SPACECHARS" if "c \<in> set (int_str n)" for c
    using int_str_chars [OF that] by (auto simp: SPACECHARS_def isdigit_def)
  have "last ('' '' @ int_str n) \<notin> set SPACECHARS" using ns ne by simp
  then have "trimBack_str ('' '' @ int_str n) SPACECHARS = '' '' @ int_str n" by (intro trimBack_str_id) simp_all
  moreover have "trimFront_str ('' '' @ int_str n) SPACECHARS = int_str n"
    using ns ne hd_in_set [OF ne] by (auto simp: str_simps SPACECHARS_def dropWhile_eq_self_iff)
  ultimately show "trimBoth_str ('' '' @ int_str n) SPACECHARS = int_str n" by (simp add: trimBoth_str_def)
  show "c_str (int_str n) = int_str n" by (rule c_str_id [OF nn])
qed

lemma to_int32_id: "- (2 ^ 31) \<le> n \<Longrightarrow> n < 2 ^ 31 \<Longrightarrow> to_int32 n = n"
  by (simp add: to_int32_def sint_sbintrunc' signed_take_bit_int_eq_self)

text \<open>
  A number that the program prints in its configuration dump is read back: the line
  \<open>Name = value\<close>, for an option that the tables map to a number variable with base 10 and a 32-bit
  value other than the reserved one, sets exactly this variable to this value.
\<close>

theorem dumped_number_reads_back:
  assumes "plain_name name" "GetStringPtr name n2sTbl = None" "GetIntPtr name n2iTbl = Some (v, 10)"
    "- (2 ^ 31) \<le> n" "n < 2 ^ 31" "n \<noteq> RESERVED_DEFVAL"
  shows "SetOption ce nc (name @ '' = '' @ int_str n) cf = Inr (True, cf\<lparr>cf_int := (cf_int cf)(v := n)\<rparr>)"
proof -
  have "CHR '':'' \<notin> set ('' '' @ int_str n)" using int_str_chars by (fastforce simp: isdigit_def)
  from ParseOptionLine_eq(2) [OF assms(1) this]
  have p: "ParseOptionLine (name @ '' = '' @ int_str n) = Some (name, int_str n)" by (simp add: int_str_trim(1) [simplified])
  have r: "LLONG_MIN \<le> n" "n \<le> LLONG_MAX" using assms(4,5) by (simp_all add: LLONG_MIN_def LLONG_MAX_def)
  show ?thesis
    unfolding SetOption_def p
    using assms(2,3,6) by (simp add: int_str_trim strtol_base_int_str [OF r] to_int32_id [OF assms(4,5)])
qed

definition config_new :: config where
  "config_new = \<lparr>cf_str = (\<lambda>_. []), cf_int = (\<lambda>_. 0), cf_proxy_info = url_clear, cf_localdirs = Map.empty, cf_pUserPorts = None,
     cf_conprotos = [PF_UNSPEC, PF_UNSPEC], cf_adminauth = [], cf_adminauthB64 = [], cf_exstarttradeoff = 500000000,
     cf_ccNoCache = True, cf_ccNoStore = True, cf_db = remotedb_new\<rparr>"


text \<open>
  A blank after a one-digit value makes an option line invalid when no blank stands between the
  separator and the digit (\<open>ForeGround=1 \<close>, for instance before a comment): the blank is not trimmed
  from a text of which only the first character is not a blank, \<open>strtol\<close> stops at it, and the line
  is rejected, which ends the program when it is in a configuration file.
\<close>

theorem blank_after_one_digit_is_rejected:
  assumes "plain_name name" "GetStringPtr name n2sTbl = None" "GetIntPtr name n2iTbl = Some (v, 10)" "isdigit d"
  shows "\<exists>cf'. SetOption ce nc (name @ ''='' @ [d] @ '' '') cf = Inr (False, cf')"
proof -
  have nc: "d \<noteq> CHR '':''" using assms(4) by (auto simp: isdigit_def)
  have ns: "d \<notin> set SPACECHARS" using assms(4) by (auto simp: SPACECHARS_def isdigit_def)
  have "CHR '' '' \<in> set SPACECHARS" by (simp add: SPACECHARS_def)
  then have "find_last_not_of (d # '' '') SPACECHARS = Some 0"
    using rfind_pos_split [of "\<lambda>c. c \<notin> set SPACECHARS" d "'' ''" "[]"] ns by (simp add: find_last_not_of_def)
  then have "trimBoth_str ([d] @ '' '') SPACECHARS = [d] @ '' ''"
    using ns by (simp add: trimBoth_str_def trimBack_str_def trimFront_str_id)
  moreover have "CHR '':'' \<notin> set ([d] @ '' '')" using nc by simp
  ultimately have p: "ParseOptionLine (name @ ''='' @ [d] @ '' '') = Some (name, [d] @ '' '')"
    using ParseOptionLine_eq(1) [OF assms(1), of "[d] @ '' ''"] by simp
  have c: "c_str ([d] @ '' '') = [d] @ '' ''" using digit_not_special(3) [OF assms(4)] by (intro c_str_id) simp
  have "dropWhile isspace ([d] @ '' '') = [d] @ '' ''" using digit_not_space [OF assms(4)] by simp
  then have "snd (snd (strtol_base 10 ([d] @ '' ''))) = '' ''"
    using assms(4) digit_not_special(1,2) [OF assms(4)]
    by (simp add: strtol_base_def Let_def base10_digit) (simp add: isdigit_def)
  then show ?thesis unfolding SetOption_def p using assms(2,3) c by (auto split: prod.splits)
qed

lemma set_simps [simp]:
  "cf_int (set_int v n cf) = (cf_int cf)(v := n)" "cf_str (set_int v n cf) = cf_str cf"
  "cf_str (set_str v s cf) = (cf_str cf)(v := s)" "cf_int (set_str v s cf) = cf_int cf"
  by (simp_all add: set_int_def set_str_def)

lemma cond_simps [simp]:
  "cf_int (on_cond b (set_int v n) cf) = (if b then (cf_int cf)(v := n) else cf_int cf)"
  "cf_str (on_cond b (set_str v s) cf) = (if b then (cf_str cf)(v := s) else cf_str cf)"
  "cf_str (on_cond b (set_int v n) cf) = cf_str cf" "cf_int (on_cond b (set_str v s) cf) = cf_int cf"
  by (simp_all add: on_cond_def)

lemma PostProc_settle:
  assumes "PostProcConfig pe cf rx = Inr se"
  obtains degr rx' where "se = settle degr (post_rest pe (post_numbers pe (post_texts (post_paths pe cf)))) rx'"
  using assms unfolding PostProcConfig_def Let_def
  by (simp split: option.splits if_split_asm sum.splits prod.splits bool.splits) blast+

lemma PostProc_stages:
  assumes "PostProcConfig pe cf rx = Inr se"
  shows "se_cf se = post_rest pe (post_numbers pe (post_texts (post_paths pe cf)))"
    and "se_furtherConTimeout se = further_timeout (cf_int (se_cf se) ''discotimeout'') (cf_int (se_cf se) ''fasttimeout'')"
  using assms by (auto elim!: PostProc_settle simp: settle_def)

lemma kill_slashes_hd: "s \<noteq> [] \<Longrightarrow> kill_slashes s \<noteq> [] \<and> hd (kill_slashes s) = hd s"
  by (induction s rule: kill_slashes.induct) simp_all

lemma no_double_slash: "find_sub ''//'' (kill_slashes s) = None"
proof (induction s rule: kill_slashes.induct)
  case (1 a b s)
  have "kill_slashes (b # s) \<noteq> []" "hd (kill_slashes (b # s)) = b" using kill_slashes_hd [of "b # s"] by simp_all
  then obtain t where t: "kill_slashes (b # s) = b # t" by (cases "kill_slashes (b # s)") auto
  show ?case
  proof (cases "a = CHR ''/'' \<and> b = CHR ''/''")
    case False
    then show ?thesis using 1(2) t by (auto simp: find_sub.simps)
  qed (use 1(1) in simp)
qed (simp_all add: find_sub.simps)

lemma post_numbers_ge: "cf_int (post_numbers pe cf) ''nettimeout'' \<ge> 5 \<and> cf_int (post_numbers pe cf) ''fasttimeout'' \<ge> 2"
  by (simp add: post_numbers_def Let_def)



definition post_env_demo :: post_env where
  "post_env_demo = \<lparr>pc_cfg = cfg_env_demo, pc_regcomp = (\<lambda>_. True), pc_umask = 18, pc_numcores = 4\<rparr>"


lemma al_alphabet: "n < 64 \<Longrightarrow> al n \<in> set b64_alphabet"
  unfolding al_def by (rule nth_mem) (simp add: b64_alphabet_def)

lemma b64_digits:
  "(of_char a div 4 :: nat) < 64" "(of_char a mod 4 * 16 + of_char b div 16 :: nat) < 64"
  "(of_char a mod 16 * 4 + of_char b div 64 :: nat) < 64" "(of_char a mod 4 * 16 :: nat) < 64" "(of_char a mod 16 * 4 :: nat) < 64"
proof -
  have 1: "of_char c < (256 :: nat)" for c :: char using of_char_lt by simp
  show "(of_char a div 4 :: nat) < 64" using 1 [of a] by linarith
  have "(of_char a mod 4 :: nat) < 4" "(of_char b div 16 :: nat) < 16" using 1 [of b] by linarith+
  then show "(of_char a mod 4 * 16 + of_char b div 16 :: nat) < 64" "(of_char a mod 4 * 16 :: nat) < 64" by linarith+
  have "(of_char a mod 16 :: nat) < 16" "(of_char b div 64 :: nat) < 4" using 1 [of b] by linarith+
  then show "(of_char a mod 16 * 4 + of_char b div 64 :: nat) < 64" "(of_char a mod 16 * 4 :: nat) < 64" by linarith+
qed

lemma b64_ref_chars: "set (b64_ref s) \<subseteq> set (b64_alphabet @ ''='')"
proof (induction s rule: b64_ref.induct)
  case (2 a)
  show ?case using b64_digits [of a] by (simp add: al_alphabet)
next
  case (3 a b)
  show ?case using b64_digits [of a] b64_digits [of b] by (simp add: al_alphabet)
next
  case (4 a b c r)
  show ?case using 4 b64_digits [of a] b64_digits [of b] b64_digits [of c] by (simp add: al_alphabet)
qed simp

lemma EncodeBase64_inj: "EncodeBase64 s = EncodeBase64 t \<longleftrightarrow> s = t"
  by (metis EncodeBase64_def EncodeBase64_ref append_Nil b64_decode_ref option.inject)

text \<open>
  C16. The pages of the administrator are open to a client that sends credentials only if these are
  the configured ones: with a password set, the header \<open>Basic\<close> followed by the base64 text of some
  bytes is accepted if and only if the bytes are the configured user and password.
\<close>

theorem admin_access_needs_credentials:
  assumes "UrlUnescape cred \<noteq> []"
    "set_prop ce nc P_AdminAuth key cred cf = Inr (ok, cf')"
  shows "CheckAdminAuth cf' (Some (''Basic '' @ EncodeBase64 t)) = 0 \<longleftrightarrow> t = UrlUnescape cred"
proof -
  have "cf_adminauthB64 cf' = EncodeBase64Auth cred" using assms(2) by (auto simp: set_prop_def)
  then have b: "cf_adminauthB64 cf' = EncodeBase64 (UrlUnescape cred)" by (simp add: EncodeBase64Auth_def)
  have e: "EncodeBase64 x = b64_ref x" for x using EncodeBase64_ref [of x "[]"] by (simp add: EncodeBase64_def)
  have ch: "set (EncodeBase64 x) \<subseteq> set (b64_alphabet @ ''='')" for x unfolding e by (rule b64_ref_chars)
  have sp: "\<not> isspace c" "c \<noteq> CHR 0x00" if "c \<in> set (b64_alphabet @ ''='')" for c
    using that by (auto simp: b64_alphabet_def isspace_def)
  have c: "c_str (''Basic '' @ EncodeBase64 t) = ''Basic '' @ EncodeBase64 t"
    using ch [of t] sp(2) by (intro c_str_id) auto
  have d: "dropWhile isspace ('' '' @ EncodeBase64 t) = EncodeBase64 t"
    using ch [of t] sp(1) hd_in_set [of "EncodeBase64 t"] by (cases "EncodeBase64 t") (auto simp: isspace_def)
  have ne: "EncodeBase64 (UrlUnescape cred) \<noteq> []" using assms(1) EncodeBase64_inj [of "UrlUnescape cred" "[]"] by (simp add: e)
  show ?thesis unfolding CheckAdminAuth_def b option.case c using d ne EncodeBase64_inj [of "UrlUnescape cred" t] by auto
qed


theorem admin_access_needs_credentials_witness:
  "let cf = config_new\<lparr>cf_adminauth := ''a:b'', cf_adminauthB64 := EncodeBase64Auth ''a:b''\<rparr>
   in CheckAdminAuth cf (Some (''Basic '' @ EncodeBase64 ''a:b'')) = 0 \<and> CheckAdminAuth cf (Some (''Basic '' @ EncodeBase64 ''a:c'')) \<noteq> 0"
proof -
  let ?cf = "config_new\<lparr>cf_adminauth := ''a:b'', cf_adminauthB64 := EncodeBase64Auth ''a:b''\<rparr>"
  have s: "set_prop cfg_env_demo False P_AdminAuth ''AdminAuth'' ''a:b'' config_new = Inr (True, ?cf)" by (simp add: set_prop_def)
  have u: "UrlUnescape ''a:b'' = ''a:b''" by code_simp
  show ?thesis
    unfolding Let_def using admin_access_needs_credentials [OF _ s, of "''a:b''"] admin_access_needs_credentials [OF _ s, of "''a:c''"]
    by (simp add: u)
qed

end
