(* ===== verification/Maint.thy ===== *)
theory Maint
  imports Config Job
begin

text \<open>
  \<open>src/maintenance.cc\<close>: which request is a command for the server itself, whether it needs the
  credentials of the administrator, and the sending of pages in chunks.

  \<open>DecodeBase64\<close> (OpenSSL) is a parameter, \<open>None\<close> where it fails.
\<close>

section \<open>Commands\<close>

definition ExpandEncapsulatedCmd :: "(string \<Rightarrow> string option) \<Rightarrow> string \<Rightarrow> string" where
  "ExpandEncapsulatedCmd dec inp =
     (case (case find_sub ''&orig='' inp of Some p \<Rightarrow> Some p | None \<Rightarrow> find_sub ''?orig='' inp) of
        None \<Rightarrow> inp
      | Some p \<Rightarrow>
          let arg = takeWhile (\<lambda>c. c \<noteq> CHR ''&'') (drop (p + 6) inp) in
          (case dec arg of
             None \<Rightarrow> inp
           | Some data \<Rightarrow>
               inp @ ''&'' @ (case find_chr data (CHR ''?'') of Some q \<Rightarrow> drop (q + 1) data | None \<Rightarrow> data)))"

definition matches :: "(string \<times> eMaintWorkType) list" where
  "matches =
     [(''doExpire='', workExExpire), (''justShow='', workExList), (''justRemove='', workExPurge),
      (''justShowDamaged='', workExListDamaged), (''justRemoveDamaged='', workExPurgeDamaged),
      (''justTruncDamaged='', workExTruncDamaged), (''doImport='', workIMPORT), (''doMirror='', workMIRROR),
      (''doDelete='', workDELETECONFIRM), (''doDeleteYes='', workDELETE), (''doTruncate='', workTRUNCATECONFIRM),
      (''doTruncateYes='', workTRUNCATE), (''doCount='', workCOUNTSTATS), (''doTraceStart='', workTraceStart),
      (''doTraceEnd='', workTraceEnd)]"

fun first_match :: "string \<Rightarrow> (string \<times> eMaintWorkType) list \<Rightarrow> eMaintWorkType" where
  "first_match params [] = workMAINTREPORT"
| "first_match params ((needle, w) # ms) = (if find_sub needle params \<noteq> None then w else first_match params ms)"

record maint_env =
  me_cf :: config
  me_dec :: "string \<Rightarrow> string option"
  me_have_checksum :: bool

text \<open>\<open>None\<close>: \<open>std::out_of_range\<close> for a command of slashes only.\<close>

definition DispatchMaintWork :: "maint_env \<Rightarrow> string \<Rightarrow> string option \<Rightarrow> eMaintWorkType option" where
  "DispatchMaintWork me cmd_raw auth =
     (let cmd = ExpandEncapsulatedCmd (me_dec me) cmd_raw;
          epos = length (takeWhile (\<lambda>c. c \<noteq> CHR ''?'') cmd) in
      case find_first_not_of cmd ''/'' of
        None \<Rightarrow> None
      | Some spos \<Rightarrow>
          let word = (if spos \<le> epos then take (epos - spos) (drop spos cmd) else drop spos cmd) in
          if word = ''style.css'' \<and> spos \<le> epos then Some workSTYLESHEET
          else if word \<noteq> cf_str (me_cf me) ''reportpage'' then Some workNotSpecial
          else if epos = length cmd then Some workMAINTREPORT
          else if CheckAdminAuth (me_cf me) auth = 1 then Some workAUTHREQUEST
          else if CheckAdminAuth (me_cf me) auth \<noteq> 0 then Some workAUTHREJECT
          else if \<not> me_have_checksum me then Some workAUTHREJECT
          else Some (first_match (drop epos cmd) matches))"

datatype maint_worker = W_expiration | W_ShowInfo | W_MaintPage | W_AuthRequest | W_authbounce | W_pkgimport | W_pkgmirror
  | W_Deleter string | W_StyleCss

definition MakeMaintWorker :: "bool \<Rightarrow> eMaintWorkType \<Rightarrow> maint_worker option" where
  "MakeMaintWorker degraded type0 =
     (let type = (if degraded \<and> type0 \<noteq> workSTYLESHEET then workUSERINFO else type0) in
      case type of
        workNotSpecial \<Rightarrow> None
      | workExExpire \<Rightarrow> Some W_expiration | workExList \<Rightarrow> Some W_expiration | workExPurge \<Rightarrow> Some W_expiration
      | workExListDamaged \<Rightarrow> Some W_expiration | workExPurgeDamaged \<Rightarrow> Some W_expiration | workExTruncDamaged \<Rightarrow> Some W_expiration
      | workUSERINFO \<Rightarrow> Some W_ShowInfo
      | workMAINTREPORT \<Rightarrow> Some W_MaintPage | workCOUNTSTATS \<Rightarrow> Some W_MaintPage
      | workTraceStart \<Rightarrow> Some W_MaintPage | workTraceEnd \<Rightarrow> Some W_MaintPage
      | workAUTHREQUEST \<Rightarrow> Some W_AuthRequest
      | workAUTHREJECT \<Rightarrow> Some W_authbounce
      | workIMPORT \<Rightarrow> Some W_pkgimport
      | workMIRROR \<Rightarrow> Some W_pkgmirror
      | workDELETE \<Rightarrow> Some (W_Deleter ''Delet'') | workDELETECONFIRM \<Rightarrow> Some (W_Deleter ''Delet'')
      | workTRUNCATE \<Rightarrow> Some (W_Deleter ''Truncat'') | workTRUNCATECONFIRM \<Rightarrow> Some (W_Deleter ''Truncat'')
      | workSTYLESHEET \<Rightarrow> Some W_StyleCss)"

definition GetBaseUrl :: "string \<Rightarrow> string" where
  "GetBaseUrl cmd = (case find_chr cmd (CHR ''?'') of None \<Rightarrow> cmd | Some pos \<Rightarrow> take pos cmd)"

definition EncodeParameters :: "string \<Rightarrow> string" where
  "EncodeParameters cmd =
     EncodeBase64 (case find_chr cmd (CHR ''?'') of Some pos \<Rightarrow> drop (pos + 1) cmd | None \<Rightarrow> cmd)"

section \<open>Sending\<close>

record maint =
  mt_fd :: int
  mt_bChunkHeaderSent :: bool
  mt_out :: string

text \<open>
  \<open>SendRawData\<close> with the results of \<open>send\<close> (\<open>write\<close> for the descriptors of the terminal); the
  rest of the results, or \<open>None\<close> when they end before the data is sent.
\<close>

fun SendRawData :: "string \<Rightarrow> send_res list \<Rightarrow> maint \<Rightarrow> (bool \<times> send_res list \<times> maint) option" where
  "SendRawData [] rs m = Some (True, rs, m)"
| "SendRawData data [] m = None"
| "SendRawData data (SendAgain # rs) m = SendRawData data rs m"
| "SendRawData data (SendError # rs) m = Some (False, rs, m)"
| "SendRawData data (Sent k # rs) m =
     SendRawData (drop k data) rs (m\<lparr>mt_out := mt_out m @ take k data\<rparr>)"

definition send_seq :: "string list \<Rightarrow> send_res list \<Rightarrow> maint \<Rightarrow> (send_res list \<times> maint) option" where
  "send_seq parts rs m =
     fold (\<lambda>p acc. case acc of None \<Rightarrow> None
                   | Some (rs, m) \<Rightarrow> map_option snd (SendRawData p rs m)) parts (Some (rs, m))"

text \<open>The size of a chunk is printed as an \<open>unsigned\<close>. A short \<open>write\<close> to the terminal is not repeated.\<close>

definition SendChunkRemoteOnly :: "string \<Rightarrow> send_res list \<Rightarrow> maint \<Rightarrow> (send_res list \<times> maint) option" where
  "SendChunkRemoteOnly data rs m =
     (if data = [] \<or> mt_fd m < 0 then Some (rs, m)
      else if mt_fd m < 3 then
        (case rs of
           [] \<Rightarrow> None
         | Sent k # rs' \<Rightarrow> Some (rs', m\<lparr>mt_out := mt_out m @ take k data\<rparr>)
         | _ # rs' \<Rightarrow> Some (rs', m))
      else send_seq [hex_str (length data mod 2 ^ 32) @ svRN, data, svRN] rs m)"

definition SendChunkedPageHeader :: "string \<Rightarrow> string \<Rightarrow> send_res list \<Rightarrow> maint \<Rightarrow> (send_res list \<times> maint) option" where
  "SendChunkedPageHeader httpstatus mimetype rs m =
     map_option (\<lambda>(ok, rs', m'). (rs', m'\<lparr>mt_bChunkHeaderSent := True\<rparr>))
       (SendRawData (''HTTP/1.1 '' @ httpstatus @ svRN @ ''Connection: close'' @ svRN @ ''Transfer-Encoding: chunked'' @ svRN @
          ''Content-Type: '' @ mimetype @ svRN @ svRN) rs m)"

definition maint_dtor :: "send_res list \<Rightarrow> maint \<Rightarrow> (send_res list \<times> maint) option" where
  "maint_dtor rs m =
     (if mt_bChunkHeaderSent m then map_option snd (SendRawData (''0'' @ svRN @ svRN) rs m) else Some (rs, m))"

text \<open>A page: header, the pieces of the body, and the end that the destructor sends.\<close>

fun send_chunks :: "string list \<Rightarrow> send_res list \<Rightarrow> maint \<Rightarrow> (send_res list \<times> maint) option" where
  "send_chunks [] rs m = Some (rs, m)"
| "send_chunks (d # ds) rs m =
     (case SendChunkRemoteOnly d rs m of None \<Rightarrow> None | Some (rs', m') \<Rightarrow> send_chunks ds rs' m')"

definition send_page :: "string \<Rightarrow> string \<Rightarrow> string list \<Rightarrow> send_res list \<Rightarrow> maint \<Rightarrow> (send_res list \<times> maint) option" where
  "send_page httpstatus mimetype ds rs m =
     (case SendChunkedPageHeader httpstatus mimetype rs m of
        None \<Rightarrow> None
      | Some (rs1, m1) \<Rightarrow> (case send_chunks ds rs1 m1 of None \<Rightarrow> None | Some (rs2, m2) \<Rightarrow> maint_dtor rs2 m2))"

section \<open>Answers to clients without access\<close>

definition auth_body :: "string \<Rightarrow> string" where
  "auth_body cfgdir =
     ''Not Authorized. Please contact Apt-Cacher NG administrator for further questions.<br>'' @ ''<br>'' @
     ''For Admin: Check the AdminAuth option in one of the *.conf files in Apt-Cacher NG '' @
     ''configuration directory, probably '' @ cfgdir"

definition auth_request_msg :: "string \<Rightarrow> string" where
  "auth_request_msg cfgdir =
     ''HTTP/1.1 401 Not Authorized'' @ svRN @ ''WWW-Authenticate: '' @
     ''Basic realm=\"For login data, see AdminAuth in Apt-Cacher NG config files\"'' @ svRN @ ''Connection: Close'' @ svRN @
     ''Content-Type: text/plain'' @ svRN @ ''Content-Length:81'' @ svRN @ svRN @ auth_body cfgdir"

definition authbounce_body :: string where
  "authbounce_body =
     ''Not Authorized. To start this action, an administrator password must be set and '' @ ''you must be logged in.''"

definition authbounce_msg :: string where
  "authbounce_msg =
     ''HTTP/1.1 200 Not Authorized'' @ svRN @ ''Connection: Close'' @ svRN @
     ''Content-Type: text/plain'' @ svRN @ ''Content-Length: 102'' @ svRN @ svRN @ authbounce_body"

lemma auth_body_longer: "length (auth_body []) = 205"
  by code_simp

lemma authbounce_length: "length authbounce_body = 102"
  by code_simp


section \<open>Properties\<close>

text \<open>Work that only shows the state of the server or refuses the command.\<close>

definition harmless :: "eMaintWorkType \<Rightarrow> bool" where
  "harmless w \<longleftrightarrow> w \<in> {workNotSpecial, workSTYLESHEET, workMAINTREPORT, workAUTHREQUEST, workAUTHREJECT}"

text \<open>
  C15. A request becomes a maintenance task other than the plain report page only if the check of
  the administrator's credentials accepts the request; this covers commands that are hidden in an
  encoded parameter.
\<close>

theorem maintenance_needs_authorization:
  assumes "DispatchMaintWork me cmd auth = Some w" "\<not> harmless w"
  shows "CheckAdminAuth (me_cf me) auth = 0 \<and> me_have_checksum me"
  using assms by (auto simp: DispatchMaintWork_def harmless_def Let_def split: option.splits if_splits)

definition maint_env_demo :: maint_env where
  "maint_env_demo = \<lparr>me_cf = config_new\<lparr>cf_str := (\<lambda>_. [])(''reportpage'' := ''rep.html''),
       cf_adminauthB64 := EncodeBase64Auth ''a:b''\<rparr>, me_dec = (\<lambda>_. None), me_have_checksum = True\<rparr>"

theorem maintenance_needs_authorization_witness:
  "DispatchMaintWork maint_env_demo ''/rep.html?doExpire=1'' (Some (''Basic '' @ EncodeBase64 ''a:b'')) = Some workExExpire \<and>
   CheckAdminAuth (me_cf maint_env_demo) (Some (''Basic '' @ EncodeBase64 ''a:b'')) = 0"
proof -
  have d: "DispatchMaintWork maint_env_demo ''/rep.html?doExpire=1'' (Some (''Basic '' @ EncodeBase64 ''a:b'')) = Some workExExpire"
    by code_simp
  have "\<not> harmless workExExpire" by (simp add: harmless_def)
  from maintenance_needs_authorization [OF d this] d show ?thesis by simp
qed

lemma SendRawData_all:
  assumes "SendRawData data rs m = Some (True, rs', m')"
  shows "m' = m\<lparr>mt_out := mt_out m @ data\<rparr>"
  using assms
proof (induction data rs m rule: SendRawData.induct)
  case (5 v va k rs m)
  from 5(1) 5(2) have "m' = m\<lparr>mt_out := (mt_out m @ take k (v # va)) @ drop k (v # va)\<rparr>" by simp
  then show ?case by (simp del: take_Suc_Cons drop_Suc_Cons add: append_take_drop_id)
qed auto

text \<open>Sends that do not fail.\<close>

definition no_error :: "send_res list \<Rightarrow> bool" where
  "no_error rs \<longleftrightarrow> SendError \<notin> set rs"

lemma SendRawData_ok:
  assumes "SendRawData data rs m = Some (ok, rs', m')" "no_error rs"
  shows "ok \<and> no_error rs' \<and> m' = m\<lparr>mt_out := mt_out m @ data\<rparr>"
proof -
  have "ok \<and> no_error rs'"
    using assms by (induction data rs m rule: SendRawData.induct) (auto simp: no_error_def)
  then show ?thesis using SendRawData_all [of data rs m rs' m'] assms(1) by simp
qed

lemma SendChunk_ok:
  assumes "SendChunkRemoteOnly d rs m = Some (rs', m')" "no_error rs" "mt_fd m \<ge> 3" "length d < 2 ^ 32"
  shows "no_error rs' \<and> m' = m\<lparr>mt_out := mt_out m @ (if d = [] then [] else enc1 d)\<rparr>"
proof (cases "d = []")
  case False
  obtain o1 r1 m1 where 1: "SendRawData (hex_str (length d) @ svRN) rs m = Some (o1, r1, m1)"
    using assms False by (auto simp: SendChunkRemoteOnly_def send_seq_def split: option.splits)
  obtain o2 r2 m2 where 2: "SendRawData d r1 m1 = Some (o2, r2, m2)"
    using assms False 1 by (auto simp: SendChunkRemoteOnly_def send_seq_def split: option.splits)
  obtain o3 where 3: "SendRawData svRN r2 m2 = Some (o3, rs', m')"
    using assms False 1 2 by (auto simp: SendChunkRemoteOnly_def send_seq_def split: option.splits)
  note s1 = SendRawData_ok [OF 1 assms(2)]
  note s2 = SendRawData_ok [OF 2] note s3 = SendRawData_ok [OF 3]
  show ?thesis using s1 s2 s3 False by (simp add: enc1_def)
qed (use assms in \<open>simp add: SendChunkRemoteOnly_def\<close>)

lemma send_chunks_ok:
  assumes "send_chunks ds rs m = Some (rs', m')" "no_error rs" "mt_fd m \<ge> 3" "\<forall>d \<in> set ds. length d < 2 ^ 32"
  shows "no_error rs' \<and> m' = m\<lparr>mt_out := mt_out m @ concat (map enc1 (filter (\<lambda>d. d \<noteq> []) ds))\<rparr>"
  using assms
proof (induction ds arbitrary: rs m)
  case (Cons d ds)
  obtain r1 m1 where 1: "SendChunkRemoteOnly d rs m = Some (r1, m1)" "send_chunks ds r1 m1 = Some (rs', m')"
    using Cons.prems(1) by (auto split: option.splits)
  note s = SendChunk_ok [OF 1(1) Cons.prems(2,3)]
  show ?case using s Cons.IH [OF 1(2)] Cons.prems(3,4) by simp
qed simp

text \<open>
  C37. A page of the maintenance functions is a well-formed chunked response: over a connection on
  which no send fails, what is sent is a head that announces chunks and then the chunks of the
  non-empty pieces with the final empty chunk, and this encoding is one that the program's own
  download code accepts.
\<close>

theorem maintenance_page_is_well_formed:
  assumes "send_page status mime ds rs m = Some (rs', m')" "no_error rs" "mt_fd m \<ge> 3"
    "\<forall>d \<in> set ds. length d < 2 ^ 32" "mt_out m = []"
  shows "\<exists>hd. mt_out m' = hd @ svRN @ svRN @ chunk_enc (filter (\<lambda>d. d \<noteq> []) ds) \<and>
    find_sub (''Transfer-Encoding: chunked'' @ svRN) hd \<noteq> None \<and> good_chunks (filter (\<lambda>d. d \<noteq> []) ds)"
proof -
  let ?hd = "''HTTP/1.1 '' @ status @ svRN @ ''Connection: close'' @ svRN @ ''Transfer-Encoding: chunked'' @ svRN @
          ''Content-Type: '' @ mime"
  obtain ok r1 m1 where 1: "SendRawData (?hd @ svRN @ svRN) rs m = Some (ok, r1, m1)"
    using assms(1) by (auto simp: send_page_def SendChunkedPageHeader_def split: option.splits)
  note s1 = SendRawData_ok [OF 1 assms(2)]
  let ?m1 = "m1\<lparr>mt_bChunkHeaderSent := True\<rparr>"
  obtain r2 m2 where 2: "send_chunks ds r1 ?m1 = Some (r2, m2)" "maint_dtor r2 m2 = Some (rs', m')"
    using assms(1) 1 by (auto simp: send_page_def SendChunkedPageHeader_def split: option.splits)
  have s2: "no_error r2 \<and> m2 = ?m1\<lparr>mt_out := mt_out ?m1 @ concat (map enc1 (filter (\<lambda>d. d \<noteq> []) ds))\<rparr>"
    using s1 assms(3,4) by (intro send_chunks_ok [OF 2(1)]) auto
  then obtain ok3 where 3: "SendRawData (''0'' @ svRN @ svRN) r2 m2 = Some (ok3, rs', m')"
    using 2(2) by (auto simp: maint_dtor_def)
  have out: "mt_out m' = ?hd @ svRN @ svRN @ chunk_enc (filter (\<lambda>d. d \<noteq> []) ds)"
    using SendRawData_ok [OF 3] s1 s2 assms(5) by (simp add: chunk_enc_concat)
  have "find_sub (''Transfer-Encoding: chunked'' @ svRN) (a @ (''Transfer-Encoding: chunked'' @ svRN) @ b) \<noteq> None" for a b
    unfolding find_sub_None_iff by (metis append_eq_conv_conj)
  from this [of "''HTTP/1.1 '' @ status @ svRN @ ''Connection: close'' @ svRN" "''Content-Type: '' @ mime"]
  have "find_sub (''Transfer-Encoding: chunked'' @ svRN) ?hd \<noteq> None" by simp
  moreover have "good_chunks (filter (\<lambda>d. d \<noteq> []) ds)" using assms(4) by (simp add: good_chunks_def)
  ultimately show ?thesis using out by blast
qed


lemma SendRawData_one:
  "data \<noteq> [] \<Longrightarrow> length data \<le> k \<Longrightarrow> SendRawData data (Sent k # rs) m = Some (True, rs, m\<lparr>mt_out := mt_out m @ data\<rparr>)"
  by (cases data) simp_all

theorem maintenance_page_is_well_formed_witness:
  "case send_page ''200 OK'' ''text/html'' [''ab'', [], ''c''] ([SendAgain, Sent 200, Sent 9, Sent 9, Sent 9, Sent 9, Sent 9, Sent 9, Sent 9]) \<lparr>mt_fd = 5, mt_bChunkHeaderSent = False, mt_out = []\<rparr> of
     None \<Rightarrow> False | Some (_, m') \<Rightarrow> \<exists>hd. mt_out m' = hd @ svRN @ svRN @ chunk_enc [''ab'', ''c'']"
proof -
  let ?rs = "[SendAgain, Sent 200, Sent 9, Sent 9, Sent 9, Sent 9, Sent 9, Sent 9, Sent 9]" and ?m = "\<lparr>mt_fd = 5, mt_bChunkHeaderSent = False, mt_out = []\<rparr>"
  have "send_page ''200 OK'' ''text/html'' [''ab'', [], ''c''] ?rs ?m \<noteq> None"
    by (simp add: send_page_def SendChunkedPageHeader_def SendChunkRemoteOnly_def send_seq_def maint_dtor_def svRN_def SendRawData_one hex_str.simps)
  then obtain rs' m' where P: "send_page ''200 OK'' ''text/html'' [''ab'', [], ''c''] ?rs ?m = Some (rs', m')" by auto
  from maintenance_page_is_well_formed [OF P] show ?thesis by (auto simp: P no_error_def)
qed

end
