(* ===== verification/Request.thy ===== *)
theory Request
  imports LocalFiles Maint
begin

text \<open>
  \<open>src/job.cc\<close>: \<open>job::Prepare\<close>, the handling of a request head, and the file items that do not store
  their data: responses that are passed through, and generated pages.

  Not modelled are the set of paths collected for the administrator (\<open>traceData\<close>) and the time stamp
  of a head file (\<open>UpdateHeadTimestamp\<close>). The settled configuration with the repository database, the
  functions of libraries, and the results of the calls that start a download are fields of the
  environment \<open>prep_env\<close>.
\<close>

section \<open>Pass-through items\<close>

definition PT_BUF_MAX :: nat where "PT_BUF_MAX = 64000"

record pt_item =
  pt_fi :: fileitem
  pt_q :: string
  pt_sHeader :: string

definition pt_new :: "string \<Rightarrow> pt_item" where
  "pt_new s = \<lparr>pt_fi = (fileitem_new s)\<lparr>fi_sizeChecked := -1, fi_sizeCachedInitial := -1\<rparr>, pt_q = [], pt_sHeader = []\<rparr>"

definition pt_Setup :: "pt_item \<Rightarrow> pt_item" where
  "pt_Setup p = p\<lparr>pt_fi := (pt_fi p)\<lparr>fi_status := FIST_INITED\<rparr>\<rparr>"

definition pt_DlFinish :: "pt_item \<Rightarrow> pt_item" where
  "pt_DlFinish p = p\<lparr>pt_fi := (pt_fi p)\<lparr>fi_status := FIST_COMPLETE\<rparr>\<rparr>"

definition pt_DlStarted :: "string \<Rightarrow> string \<Rightarrow> tRemoteStatus \<Rightarrow> off_t \<Rightarrow> off_t \<Rightarrow> pt_item \<Rightarrow> bool \<times> pt_item" where
  "pt_DlStarted rawHeader origin status seekPos bytesAnnounced p =
     (let fi = pt_fi p;
          fi1 = (if fi_status fi < FIST_DLGOTHEAD then fi\<lparr>fi_status := FIST_DLGOTHEAD\<rparr> else fi)
      in if fi_status fi > FIST_COMPLETE then (False, p)
         else if \<not> fi_status fi < FIST_DLGOTHEAD \<and>
                 (fi_sizeChecked fi > 0 \<and> fi_sizeChecked fi \<noteq> seekPos \<or> fi_sizeChecked fi \<le> 0 \<and> seekPos > 0)
         then (False, p)
         else (True, p\<lparr>pt_sHeader := rawHeader,
                pt_fi := fi1\<lparr>fi_responseOrigin := origin, fi_responseStatus := status, fi_contentLength := bytesAnnounced\<rparr>\<rparr>))"

text \<open>
  What happens while \<open>DlAddData\<close> waits for space in the queue: the client's thread takes bytes, or
  the item is put into an error state, or the server shuts down. When the list of events ends, the
  call does not return.
\<close>

datatype pt_wake = Taken nat | Abandoned | Shutdown

function pt_fill :: "pt_wake list \<Rightarrow> bool \<Rightarrow> string \<Rightarrow> pt_item \<Rightarrow> (bool \<times> pt_item) option" where
  "pt_fill ws in_shutdown chunk p =
     (if chunk = [] then Some (True, p)
      else if fi_status (pt_fi p) \<ge> FIST_DLERROR \<or> in_shutdown then Some (False, p)
      else
        let nToAppend = min (PT_BUF_MAX - length (pt_q p)) (length chunk) in
        if nToAppend = 0 then
          (case ws of
             [] \<Rightarrow> None
           | Taken n # ws1 \<Rightarrow> pt_fill ws1 in_shutdown chunk (p\<lparr>pt_q := drop n (pt_q p)\<rparr>)
           | Abandoned # ws1 \<Rightarrow> pt_fill ws1 in_shutdown chunk (p\<lparr>pt_fi := (pt_fi p)\<lparr>fi_status := FIST_DLERROR\<rparr>\<rparr>)
           | Shutdown # ws1 \<Rightarrow> pt_fill ws1 True chunk p)
        else pt_fill ws in_shutdown (drop nToAppend chunk) (p\<lparr>pt_q := pt_q p @ take nToAppend chunk\<rparr>))"
  by pat_completeness auto
termination
  by (relation "measure (\<lambda>(ws, sh, chunk, p). length ws + length chunk)") auto

declare pt_fill.simps [simp del]

definition pt_DlAddData :: "pt_wake list \<Rightarrow> bool \<Rightarrow> string \<Rightarrow> pt_item \<Rightarrow> (bool \<times> pt_item) option" where
  "pt_DlAddData ws in_shutdown chunk p =
     (let fi = pt_fi p;
          fi1 = (if fi_status fi < FIST_DLRECEIVING then fi\<lparr>fi_status := FIST_DLRECEIVING, fi_sizeChecked := 0\<rparr> else fi);
          fi2 = fi1\<lparr>fi_nIncommingCount := fi_nIncommingCount fi1 + of_nat (length chunk),
                     fi_sizeChecked := fi_sizeChecked fi1 + int (length chunk)\<rparr>
      in if fi_status fi2 > FIST_COMPLETE \<or> fi_status fi2 < FIST_DLGOTHEAD then Some (False, p\<lparr>pt_fi := fi2\<rparr>)
         else pt_fill ws in_shutdown chunk (p\<lparr>pt_fi := fi2\<lparr>fi_status := FIST_DLRECEIVING\<rparr>\<rparr>))"

text \<open>
  \<open>evbuffer_dumpall\<close> for a queue that fits into the segments peeked at; \<open>r\<close> is the result of
  \<open>writev\<close>. Result, bytes on the connection, new position, rest of the queue.
\<close>

definition evbuffer_dumpall :: "int \<Rightarrow> off_t \<Rightarrow> nat \<Rightarrow> string \<Rightarrow> int \<times> string \<times> off_t \<times> string" where
  "evbuffer_dumpall r nSendPos nMax2SendNow q =
     (let got = min nMax2SendNow (length q) in
      if r > 0 then (r, take (nat r) (take got q), nSendPos + r, drop got q) else (r, [], nSendPos, q))"

definition pt_SendData :: "bool \<Rightarrow> int \<Rightarrow> off_t \<Rightarrow> nat \<Rightarrow> pt_item \<Rightarrow> int \<times> string \<times> off_t \<times> pt_item" where
  "pt_SendData in_shutdown r nSendPos nMax2SendNow p =
     (if fi_status (pt_fi p) > FIST_COMPLETE \<or> in_shutdown then (-1, [], nSendPos, p)
      else case evbuffer_dumpall r nSendPos nMax2SendNow (pt_q p) of (n, out, pos, q) \<Rightarrow> (n, out, pos, p\<lparr>pt_q := q\<rparr>))"

lemma pt_fill_queue:
  assumes "pt_fill ws sh chunk p = Some (ok, p')" "length (pt_q p) \<le> PT_BUF_MAX"
  shows "length (pt_q p') \<le> PT_BUF_MAX \<and> (ok \<longrightarrow> (\<exists>k \<le> length (pt_q p @ chunk). pt_q p' = drop k (pt_q p @ chunk)))"
  using assms
proof (induction ws sh chunk p rule: pt_fill.induct)
  case (1 ws sh chunk p)
  let ?n = "min (PT_BUF_MAX - length (pt_q p)) (length chunk)"
  show ?case
  proof (cases "chunk = [] \<or> fi_status (pt_fi p) \<ge> FIST_DLERROR \<or> sh")
    case True
    then show ?thesis using 1(5,6) by (subst (asm) pt_fill.simps) (auto intro!: exI [of _ 0] split: if_splits)
  next
    case F: False
    show ?thesis
    proof (cases "?n = 0")
      case False
      let ?p = "p\<lparr>pt_q := pt_q p @ take ?n chunk\<rparr>"
      have F': "chunk \<noteq> []" "\<not> (fi_status (pt_fi p) \<ge> FIST_DLERROR \<or> sh)" using F by auto
      have run: "pt_fill ws sh (drop ?n chunk) ?p = Some (ok, p')"
        using 1(5) unfolding pt_fill.simps [of ws sh chunk p] Let_def if_not_P [OF F'(1)] if_not_P [OF F'(2)] if_not_P [OF False] .
      have "length (pt_q ?p) \<le> PT_BUF_MAX" using 1(6) by simp
      from 1(4) [OF _ _ refl False run this] F show ?thesis by simp
    next
      case T: True
      have n: "length (pt_q p) = PT_BUF_MAX" using T F 1(6) by (auto simp: min_def split: if_splits)
      have E: "pt_fill ws sh chunk p = (case ws of
             [] \<Rightarrow> None
           | Taken n # ws1 \<Rightarrow> pt_fill ws1 sh chunk (p\<lparr>pt_q := drop n (pt_q p)\<rparr>)
           | Abandoned # ws1 \<Rightarrow> pt_fill ws1 sh chunk (p\<lparr>pt_fi := (pt_fi p)\<lparr>fi_status := FIST_DLERROR\<rparr>\<rparr>)
           | Shutdown # ws1 \<Rightarrow> pt_fill ws1 True chunk p)"
        using T F by (subst pt_fill.simps) (simp add: Let_def)
      obtain w ws1 where ws: "ws = w # ws1" using E 1(5) by (cases ws) auto
      show ?thesis
      proof (cases w)
        case (Taken k)
        have run: "pt_fill ws1 sh chunk (p\<lparr>pt_q := drop k (pt_q p)\<rparr>) = Some (ok, p')" using E 1(5) ws Taken by simp
        have l: "length (pt_q (p\<lparr>pt_q := drop k (pt_q p)\<rparr>)) \<le> PT_BUF_MAX" using 1(6) by simp
        have d: "drop k (pt_q p) @ chunk = drop (min k (length (pt_q p))) (pt_q p @ chunk)" by (simp add: min_def)
        have IH: "length (pt_q p') \<le> PT_BUF_MAX \<and>
            (ok \<longrightarrow> (\<exists>i \<le> length (drop k (pt_q p) @ chunk). pt_q p' = drop i (drop k (pt_q p) @ chunk)))"
          using 1(1) [OF _ _ refl T ws Taken run l] F by simp
        have "\<exists>i \<le> length (pt_q p @ chunk). pt_q p' = drop i (pt_q p @ chunk)" if ok
        proof -
          from IH [THEN conjunct2, THEN mp, OF that]
          obtain i where i: "i \<le> length (drop k (pt_q p) @ chunk)" "pt_q p' = drop i (drop k (pt_q p) @ chunk)" by (elim exE conjE)
          let ?m = "min k (length (pt_q p))"
          have e: "pt_q p' = drop (i + ?m) (pt_q p @ chunk)" unfolding i(2) d drop_drop ..
          have "i + ?m \<le> length (pt_q p @ chunk)" using i(1) unfolding length_append length_drop by arith
          then show ?thesis using e by blast
        qed
        then show ?thesis using IH by blast
      next
        case Abandoned
        then show ?thesis using 1(2) [OF _ _ refl T ws Abandoned] E 1(5,6) F ws by simp
      next
        case Shutdown
        then show ?thesis using 1(3) [OF _ _ refl T ws Shutdown] E 1(5,6) F ws by simp
      qed
    qed
  qed
qed



text \<open>
  When the connection takes less than what was offered, the queue still drops all of it: the
  bytes after the accepted ones are neither sent nor kept, and the client gets a damaged file.
\<close>

theorem pt_short_write_drops_data:
  assumes "fi_status (pt_fi p) \<le> FIST_COMPLETE" "\<not> sh" "0 < r" "nat r < min m (length (pt_q p))"
  shows "pt_SendData sh r pos m p = (r, take (nat r) (pt_q p), pos + r, p\<lparr>pt_q := drop m (pt_q p)\<rparr>)"
proof -
  have "take (nat r) (take (min m (length (pt_q p))) (pt_q p)) = take (nat r) (pt_q p)" using assms(4) by (simp add: min_def)
  moreover have "drop (min m (length (pt_q p))) (pt_q p) = drop m (pt_q p)" by (cases "m \<le> length (pt_q p)") simp_all
  ultimately show ?thesis using assms(1-3) by (simp add: pt_SendData_def evbuffer_dumpall_def Let_def)
qed

theorem pt_short_write_drops_data_witness:
  "let p = (pt_new ''x'')\<lparr>pt_q := ''abcdef''\<rparr>
   in pt_SendData False 2 0 4 p = (2, ''ab'', 2, p\<lparr>pt_q := ''ef''\<rparr>)"
proof -
  let ?p = "(pt_new ''x'')\<lparr>pt_q := ''abcdef''\<rparr>"
  have "fi_status (pt_fi ?p) \<le> FIST_COMPLETE" by (simp add: pt_new_def fileitem_new_def fi_ord)
  from pt_short_write_drops_data [OF this, of False 2 4 0] show ?thesis by simp
qed

section \<open>Preparation of a request\<close>

record prep_env =
  pe_srv :: srv
  pe_reg :: reg_cfg
  pe_now :: time_t
  pe_link :: link_env
  pe_in_shutdown :: bool
  pe_set :: settings
  pe_regexec :: "string \<Rightarrow> string \<Rightarrow> bool"
  pe_dec :: "string \<Rightarrow> string option"
  pe_have_checksum :: bool
  pe_local :: local_env
  pe_downloader :: bool
  pe_addjob :: bool

abbreviation pe_cf :: "prep_env \<Rightarrow> config" where "pe_cf pe \<equiv> se_cf (pe_set pe)"
abbreviation pe_flag :: "prep_env \<Rightarrow> string \<Rightarrow> bool" where "pe_flag pe v \<equiv> cf_int (pe_cf pe) v \<noteq> 0"

text \<open>A job handed to the downloader.\<close>

record dl_request =
  dq_item :: nat
  dq_source :: "tHttpUrl + repo_result"
  dq_isPT :: bool
  dq_extraHeaders :: string

text \<open>
  The result of \<open>Prepare\<close>: the job, its item, the registry and a request for the downloader;
  \<open>PrepLocal\<close> for a local directory, with the page if one is generated; \<open>PrepFault\<close> where the
  behaviour is undefined.
\<close>

datatype prep_out = PrepRet job "nat option" registry "dl_request option" | PrepLocal job "nat option" registry "gen_item option" | PrepFault

definition early :: "prep_env \<Rightarrow> string \<Rightarrow> job \<Rightarrow> nat option \<Rightarrow> registry \<Rightarrow> prep_out" where
  "early pe msg jb item r = PrepRet (SetEarlySimpleResponse (pe_srv pe) msg False jb) item r None"

definition report_invport :: string where
  "report_invport = ''403 Configuration error (confusing proxy mode) or prohibited port (see AllowUserPorts)''"
definition report_overload :: string where "report_overload = ''503 Server overload, try later''"
definition report_badcache :: string where "report_badcache = ''503 Error with cache data, please consult apt-cacher.err''"
definition report_invpath :: string where "report_invpath = ''403 Invalid path specification''"
definition report_notallowed :: string where "report_notallowed = ''403 Forbidden file type or location''"

definition keep_alive_mode :: "header \<Rightarrow> job \<Rightarrow> job" where
  "keep_alive_mode h jb =
     (case hdr_h h CONNECTION of
        None \<Rightarrow> jb
      | Some c \<Rightarrow>
          let jb1 = (if strncasecmp_eq c ''close'' 5 then jb\<lparr>jb_keepAlive := CLOSE\<rparr> else jb)
          in if strncasecmp_eq c ''Keep-Alive'' 10 then jb1\<lparr>jb_keepAlive := KEEP_ALIVE\<rparr> else jb1)"

definition forbidden_path :: "prep_env \<Rightarrow> string \<Rightarrow> bool" where
  "forbidden_path pe sReqPath \<longleftrightarrow>
     Match (pe_regexec pe) (se_rex (pe_set pe)) sReqPath NASTY_PATH \<or> find_sub ''/_actmp'' sReqPath \<noteq> None \<or> startsWith sReqPath ''/_''"

definition fix_https :: "string \<Rightarrow> string" where
  "fix_https p =
     (let p1 = (if startsWith p ''/HTTPS///'' then ''https://'' @ drop 6 p else p)
      in if strncasecmp_eq p1 ''http://https///'' 15 then ''https://'' @ drop 13 p1 else p1)"

text \<open>The loop over the occurrences of \<open>no\<close> in the value of \<open>Cache-Control\<close>.\<close>

fun cache_control :: "string \<Rightarrow> eMatchType \<times> bool \<Rightarrow> eMatchType \<times> bool" where
  "cache_control (n # o' # s) (dt, pt) =
     (if n = CHR ''n'' \<and> o' = CHR ''o''
      then cache_control s (if strcasecmp_c s ''-cache'' then (FILE_VOLATILE, pt)
                            else if strcasecmp_c s ''-store'' then (dt, True) else (dt, pt))
      else cache_control (o' # s) (dt, pt))"
| "cache_control s st = st"

definition SwitchToPtItem :: "prep_env \<Rightarrow> string \<Rightarrow> nat \<Rightarrow> registry \<Rightarrow> nat option \<times> registry" where
  "SwitchToPtItem pe sFileLoc old r =
     (case Create_custom (pt_fi (pt_new sFileLoc)) False r of
        (res, r1) \<Rightarrow>
          let r2 = release_client (pe_reg pe) (pe_in_shutdown pe) (pe_now pe) old r1
          in (res, (case res of Some i \<Rightarrow> rg_upd i (\<lambda>fi. fi\<lparr>fi_status := FIST_INITED\<rparr>) r2 | None \<Rightarrow> r2)))"

text \<open>Headers for the remote server.\<close>

definition extra_headers :: "prep_env \<Rightarrow> string \<Rightarrow> string \<Rightarrow> string \<Rightarrow> bool \<Rightarrow> string option" where
  "extra_headers pe xff callerHostname headBuf bPtMode =
     (let fwd = (if pe_flag pe ''exporigin'' \<and> callerHostname \<noteq> []
                 then ''X-Forwarded-For: '' @ (if xff = [] then [] else xff @ '', '') @ callerHostname @ svRN else [])
      in if bPtMode \<and> headBuf \<noteq> [] then map_option (\<lambda>c. fwd @ c) (ExtractCustomHeaders headBuf [] bPtMode) else Some fwd)"

text \<open>The item is known and not complete: hand it to the downloader.\<close>

definition start_download ::
  "prep_env \<Rightarrow> string \<Rightarrow> string \<Rightarrow> tHttpUrl \<Rightarrow> repo_result \<Rightarrow> bool \<Rightarrow> job \<Rightarrow> nat \<Rightarrow> registry \<Rightarrow> prep_out" where
  "start_download pe headBuf callerHostname theUrl repoSrc bPtMode jb i r =
     (let bHaveBackends = (case rr_repodata repoSrc of Some d \<Rightarrow> rd_backends d \<noteq> [] | None \<Rightarrow> False);
          testUri = (if bHaveBackends then ToURI (hd (rd_backends (the (rr_repodata repoSrc)))) False False @ rr_sRestPath repoSrc
                     else ToURI theUrl False False);
          (res, r1) = (if \<not> bPtMode \<and> MatchUncacheable (pe_regexec pe) (se_rex (pe_set pe)) testUri NOCACHE_TGT then SwitchToPtItem pe (jb_sFileLoc jb) i r else (Some i, r))
      in if \<not> pe_downloader pe then early pe report_overload jb (Some i) r
         else if pe_flag pe ''forcemanaged'' \<and> \<not> bHaveBackends then early pe report_notallowed jb (Some i) r
         else case extra_headers pe (jb_xff jb) callerHostname headBuf bPtMode of
                None \<Rightarrow> PrepFault
              | Some extra \<Rightarrow>
                  (case res of
                     None \<Rightarrow> PrepFault
                   | Some j \<Rightarrow>
                       if \<not> pe_addjob pe then early pe report_overload jb res r1
                       else PrepRet jb res r1 (Some \<lparr>dq_item = j, dq_source = (if bHaveBackends then Inr repoSrc else Inl theUrl),
                              dq_isPT = bPtMode, dq_extraHeaders = extra\<rparr>)))"

text \<open>
  The virtual \<open>Setup\<close>: items made for a HEAD request beside an existing item are of the base class,
  they are those with \<open>bNoStore\<close> set, and their \<open>Setup\<close> only returns \<open>FIST_DLERROR\<close>.
\<close>

definition item_Setup :: "string \<Rightarrow> fsys \<Rightarrow> fileitem \<Rightarrow> FiStatus \<times> fileitem" where
  "item_Setup base fs fi =
     (if spa_bNoStore (fi_spattr fi) then (FIST_DLERROR, fi)
      else let fi1 = Setup base fs fi in (fi_status fi1, fi1))"

definition get_item ::
  "prep_env \<Rightarrow> header \<Rightarrow> string \<Rightarrow> string \<Rightarrow> tHttpUrl \<Rightarrow> eMatchType \<Rightarrow> bool \<Rightarrow> job \<Rightarrow> registry \<Rightarrow> prep_out" where
  "get_item pe h headBuf callerHostname theUrl data_type bPtMode jb0 r =
     (let repoSrc = GetRepNameAndPathResidual (cf_db (pe_cf pe)) theUrl;
          loc = (case rr_psRepoName repoSrc of
                   Some n \<Rightarrow> (if n \<noteq> [] then n @ ''/'' @ rr_sRestPath repoSrc else sHost theUrl @ sPath theUrl)
                 | None \<Rightarrow> sHost theUrl @ sPath theUrl);
          attr = \<lparr>spa_bVolatile = (\<not> pe_flag pe ''offlinemode'' \<and> data_type = FILE_VOLATILE), spa_bHeadOnly = jb_bIsHeadOnly jb0,
                  spa_bNoStore = False, spa_nRangeLimit = jb_nReqRangeTo jb0, spa_credentials = []\<rparr>;
          jb1 = jb0\<lparr>jb_sFileLoc := loc, jb_ifMoSince := tHttpDate_cstr (hdr_h h IF_MODIFIED_SINCE) False\<rparr>;
          jb = snd (ParseRange h jb1)
      in case Create (pe_reg pe) (pe_now pe) (pe_link pe) loc
                (if spa_bVolatile attr then AUTO_MOVE_OUT_OF_THE_WAY else ALWAYS_TRY_SHARING) attr r of
           (None, r1) \<Rightarrow> early pe report_badcache jb None r1
         | (Some i, r1) \<Rightarrow>
             if se_degraded (pe_set pe) then early pe ''403 Cache server in degraded mode'' jb (Some i) r1
             else
               let st0 = fst (item_Setup (rc_base (pe_reg pe)) (rg_fs r1) (rg_item r1 i));
                   r2 = rg_upd i (\<lambda>fi. snd (item_Setup (rc_base (pe_reg pe)) (rg_fs r1) fi)) r1;
                   ptNow = (bPtMode \<and> st0 \<noteq> FIST_COMPLETE);
                   (res, r3) = (if ptNow then SwitchToPtItem pe loc i r2 else (Some i, r2));
                   fistate = (if ptNow then FIST_INITED else st0)
               in (case res of
                     None \<Rightarrow> PrepFault
                   | Some j \<Rightarrow>
                       if fistate = FIST_COMPLETE then PrepRet jb (Some j) r3 None
                       else if pe_flag pe ''offlinemode'' then early pe ''503 Unable to download in offline mode'' jb (Some j) r3
                       else if fistate < FIST_DLGOTHEAD
                       then start_download pe headBuf callerHostname theUrl repoSrc bPtMode jb j r3
                       else PrepRet jb (Some j) r3 None))"

text \<open>The type of the file, for a URL that is neither a special page nor a local file.\<close>

definition classify ::
  "prep_env \<Rightarrow> header \<Rightarrow> string \<Rightarrow> string \<Rightarrow> tHttpUrl \<Rightarrow> bool \<Rightarrow> job \<Rightarrow> registry \<Rightarrow> prep_out" where
  "classify pe h headBuf callerHostname theUrl bPtMode0 jb r =
     (let (dt1, pt1) = (case hdr_h h CACHE_CONTROL of None \<Rightarrow> (FILE_INVALID, bPtMode0)
                        | Some c \<Rightarrow> cache_control (c_str c) (FILE_INVALID, bPtMode0));
          isDir = endsWith (sPath theUrl) ''/'';
          (dt2, pt2) = (if isDir \<and> hdr_h h XORIG = None then (FILE_VOLATILE, True) else (dt1, pt1));
          dt3 = (if dt2 = FILE_INVALID \<and> pt2 then FILE_SOLID else dt2);
          dt4 = (if dt3 = FILE_INVALID then GetFiletype (pe_regexec pe) (se_rex (pe_set pe)) (sPath theUrl) else dt3)
      in if isDir \<and> dt2 = FILE_INVALID then PrepRet (jb\<lparr>jb_eMaintWorkType := workUSERINFO\<rparr>) None r None
         else if dt4 = FILE_INVALID \<and> \<not> pe_flag pe ''patrace''
         then early pe report_notallowed (jb\<lparr>jb_sFileLoc := sPath theUrl\<rparr>) None r
         else get_item pe h headBuf callerHostname theUrl (if dt4 = FILE_INVALID then FILE_VOLATILE else dt4) pt2 jb r)"

definition maint_of :: "prep_env \<Rightarrow> maint_env" where
  "maint_of pe = \<lparr>me_cf = pe_cf pe, me_dec = pe_dec pe, me_have_checksum = pe_have_checksum pe\<rparr>"

definition Prepare :: "prep_env \<Rightarrow> header \<Rightarrow> string \<Rightarrow> string \<Rightarrow> job \<Rightarrow> registry \<Rightarrow> prep_out" where
  "Prepare pe h headBuf callerHostname jb0 r =
     (let jb1 = (case hdr_h h XFORWARDEDFOR of Some x \<Rightarrow> jb0\<lparr>jb_xff := c_str x\<rparr> | None \<Rightarrow> jb0);
          jb2 = (if hdr_type h \<noteq> GET then jb1\<lparr>jb_bIsHeadOnly := (hdr_type h = HEAD)\<rparr> else jb1);
          sReqPath0 = UrlUnescape (st_msg (hdr_status h));
          jb = keep_alive_mode h (jb2\<lparr>jb_bIsHttp11 := (hdr_proto h = CHR ''1'')\<rparr>);
          sReqPath = fix_https sReqPath0
      in if hdr_type h \<noteq> GET \<and> hdr_type h \<noteq> HEAD then early pe report_invpath jb2 None r
         else if forbidden_path pe sReqPath0 then early pe report_notallowed jb None r
         else case SetHttpUrl sReqPath False of
                None \<Rightarrow> PrepFault
              | Some (ok, url0) \<Rightarrow>
                  if \<not> ok then PrepRet (jb\<lparr>jb_eMaintWorkType := workUSERINFO\<rparr>) None r None
                  else
                    let nPort = GetPort url0; theUrl = url0\<lparr>sPath := kill_slashes (sPath url0)\<rparr> in
                    if (case cf_pUserPorts (pe_cf pe) of Some t \<Rightarrow> \<not> t (unat nPort) | None \<Rightarrow> nPort \<noteq> 80)
                    then early pe report_invport jb None r
                    else
                      case (if cf_str (pe_cf pe) ''reportpage'' \<noteq> [] \<or> sHost theUrl = ''style.css''
                            then DispatchMaintWork (maint_of pe) sReqPath (hdr_h h AUTHORIZATION) else Some workNotSpecial) of
                        None \<Rightarrow> early pe report_invpath jb None r
                      | Some work \<Rightarrow>
                         if work \<noteq> workNotSpecial
                         then PrepRet (jb\<lparr>jb_eMaintWorkType := work, jb_sFileLoc := sReqPath\<rparr>) None r None
                         else case cf_localdirs (pe_cf pe) (sHost theUrl) of
                                Some dir \<Rightarrow>
                                  (case PrepareLocalDownload (pe_srv pe) (pe_local pe) sReqPath dir (sPath theUrl) jb r of
                                     (jb3, item, r3, page) \<Rightarrow> PrepLocal (snd (ParseRange h jb3)) item r3 page)
                              | None \<Rightarrow> classify pe h headBuf callerHostname theUrl (MatchUncacheable (pe_regexec pe) (se_rex (pe_set pe)) (ToURI theUrl False False) NOCACHE_REQ) jb r)"


section \<open>Properties of the preparation\<close>

definition port_allowed :: "prep_env \<Rightarrow> 16 word \<Rightarrow> bool" where
  "port_allowed pe p = (case cf_pUserPorts (pe_cf pe) of Some t \<Rightarrow> t (unat p) | None \<Rightarrow> p = 80)"

definition managed :: "dl_request \<Rightarrow> bool" where
  "managed dq \<longleftrightarrow> (\<exists>s d. dq_source dq = Inr s \<and> rr_repodata s = Some d \<and> rd_backends d \<noteq> [])"

lemma start_download_request:
  assumes "start_download pe hb ch u rs pt jb i r = PrepRet jb' res r' (Some dq)"
  shows "res = Some (dq_item dq) \<and> (pe_flag pe ''forcemanaged'' \<longrightarrow> managed dq)"
  using assms
  by (auto simp: start_download_def early_def managed_def Let_def split: if_splits option.splits prod.splits)

lemma get_item_request:
  assumes "get_item pe h hb ch u dt pt jb r = PrepRet jb' res r' (Some dq)"
  shows "res = Some (dq_item dq) \<and> (pe_flag pe ''forcemanaged'' \<longrightarrow> managed dq) \<and> \<not> pe_flag pe ''offlinemode'' \<and> \<not> se_degraded (pe_set pe)"
  using assms
  by (auto simp: get_item_def early_def Let_def dest: start_download_request split: if_splits option.splits prod.splits)

lemma classify_request:
  assumes "classify pe h hb ch u pt jb r = PrepRet jb' res r' (Some dq)"
  shows "res = Some (dq_item dq) \<and> (pe_flag pe ''forcemanaged'' \<longrightarrow> managed dq) \<and> \<not> pe_flag pe ''offlinemode'' \<and> \<not> se_degraded (pe_set pe)"
  using assms
  by (auto simp: classify_def early_def Let_def dest: get_item_request split: if_splits option.splits prod.splits)

text \<open>
  C14. A request leads to a download only if it is a GET or a HEAD, its path is none of the
  forbidden ones (it does not match the pattern of paths that leave the cache, does not start with
  an underscore and has no part \<open>/_actmp\<close>), the URL has a port that the configuration allows and a host that is not served
  from a local directory, the server is neither offline nor degraded, and, when only managed
  repositories may be used, the source is a repository with a backend. The item of the download is
  the item of the job.
\<close>

theorem download_only_after_all_guards:
  assumes "Prepare pe h headBuf caller jb0 r = PrepRet jb res r' (Some dq)"
  shows "(hdr_type h = GET \<or> hdr_type h = HEAD) \<and>
    (let path = UrlUnescape (st_msg (hdr_status h)) in
       find_sub ''/_actmp'' path = None \<and> \<not> startsWith path ''/_'' \<and> \<not> Match (pe_regexec pe) (se_rex (pe_set pe)) path NASTY_PATH) \<and>
    (\<exists>url. SetHttpUrl (fix_https (UrlUnescape (st_msg (hdr_status h)))) False = Some (True, url) \<and>
       port_allowed pe (GetPort url) \<and> cf_localdirs (pe_cf pe) (sHost url) = None) \<and>
    \<not> pe_flag pe ''offlinemode'' \<and> \<not> se_degraded (pe_set pe) \<and> (pe_flag pe ''forcemanaged'' \<longrightarrow> managed dq) \<and> res = Some (dq_item dq)"
  using assms
  by (auto simp: Prepare_def forbidden_path_def early_def Let_def port_allowed_def dest!: classify_request split: if_splits option.splits prod.splits)


definition config_demo :: config where
  "config_demo = config_new\<lparr>cf_str := (\<lambda>v. if v = ''pfilepat'' then ''.deb'' else if v = ''vfilepat'' then ''Release'' else [])\<rparr>"

definition rex_demo :: rex_state where
  "rex_demo = rex_new\<lparr>rx_pat := [FILE_SOLID \<mapsto> ''.deb'', FILE_VOLATILE \<mapsto> ''Release'', NASTY_PATH \<mapsto> ''/../'']\<rparr>"

definition prep_env_demo :: prep_env where
  "prep_env_demo = \<lparr>pe_srv = srv_demo, pe_reg = reg_cfg_demo, pe_now = 1000, pe_link = LinkOk, pe_in_shutdown = False,
     pe_set = settle False config_demo rex_demo, pe_regexec = (\<lambda>p s. find_sub p s \<noteq> None), pe_dec = (\<lambda>_. None),
     pe_have_checksum = True, pe_local = local_env_demo, pe_downloader = True, pe_addjob = True\<rparr>"

definition get_head :: "string \<Rightarrow> header" where
  "get_head url = header_new\<lparr>hdr_type := GET, hdr_proto := CHR ''1'', hdr_status := \<lparr>st_code = -1, st_msg = url\<rparr>\<rparr>"

theorem download_only_after_all_guards_witness:
  "case Prepare prep_env_demo (get_head ''http://d.org/x.deb'') [] [] job_new (registry_new Map.empty) of
     PrepRet jb res r' (Some dq) \<Rightarrow> res = Some (dq_item dq) \<and> \<not> se_degraded (pe_set prep_env_demo)
   | _ \<Rightarrow> False"
proof -
  let ?P = "Prepare prep_env_demo (get_head ''http://d.org/x.deb'') [] [] job_new (registry_new Map.empty)"
  have "case ?P of PrepRet jb res r' (Some dq) \<Rightarrow> True | _ \<Rightarrow> False" by code_simp
  then obtain jb res r' dq where P: "?P = PrepRet jb res r' (Some dq)" by (auto split: prep_out.splits option.splits)
  from download_only_after_all_guards [OF P] P show ?thesis by simp
qed


lemma Create_held:
  assumes "Create cfg now le path how a r = (Some i, r')"
  shows "i \<in> set (rg_clients r')"
  using assms
  by (auto simp: Create_def share_def regnew_def alloc_held_def displace_def abandon_replace_def Let_def
      split: option.splits if_splits link_env.splits)

lemma Setup_usercount: "fi_usercount (Setup base fs fi) = fi_usercount fi"
  by (auto simp: Setup_def error_clean_def apply_head_def Let_def split: prod.splits)

lemma item_Setup_frame:
  "fi_pathRel (snd (item_Setup base fs fi)) = fi_pathRel fi \<and> fi_usercount (snd (item_Setup base fs fi)) = fi_usercount fi"
  by (simp add: item_Setup_def Let_def Setup_fields Setup_usercount)

lemma SwitchToPtItem_inv:
  assumes "reg_inv [] r" "i \<in> set (rg_clients r)" "SwitchToPtItem pe loc i r = (res, r')"
  shows "reg_inv [] r'"
proof -
  obtain r1 where c: "Create_custom (pt_fi (pt_new loc)) False r = (res, r1)"
    using assms(3) by (auto simp: SwitchToPtItem_def Let_def split: prod.splits)
  have 1: "reg_inv [] r1" by (rule Create_custom_inv [OF assms(1) c]) (simp add: pt_new_def fileitem_new_def)
  have "i \<in> set (rg_clients r1)"
    using c assms(2) by (auto simp: Create_custom_def alloc_held_def split: if_splits)
  from release_client_inv [OF 1 this] have 2: "reg_inv [] (release_client (pe_reg pe) (pe_in_shutdown pe) (pe_now pe) i r1)" .
  show ?thesis
    using assms(3) 2 by (auto simp: SwitchToPtItem_def c Let_def split: option.splits intro: reg_inv_item)
qed

definition out_inv :: "prep_out \<Rightarrow> bool" where
  "out_inv po = (case po of PrepRet jb res r dq \<Rightarrow> reg_inv [] r | PrepLocal jb res r g \<Rightarrow> reg_inv [] r | PrepFault \<Rightarrow> True)"

lemma out_inv_simps [simp]:
  "out_inv (PrepRet jb res r dq) = reg_inv [] r" "out_inv (PrepLocal jb res r g) = reg_inv [] r" "out_inv PrepFault"
  "out_inv (early pe msg jb res r) = reg_inv [] r"
  by (simp_all add: out_inv_def early_def)

lemma start_download_inv:
  assumes "reg_inv [] r" "i \<in> set (rg_clients r)"
  shows "out_inv (start_download pe hb ch u rs pt jb i r)"
  using assms by (auto simp: start_download_def Let_def dest: SwitchToPtItem_inv split: option.splits prod.splits)


lemma SwitchToPtItem_held:
  assumes "reg_inv [] r" "i \<in> set (rg_clients r)" "SwitchToPtItem pe loc i r = (Some j, r')"
  shows "j \<in> set (rg_clients r')"
proof -
  obtain r1 where c: "Create_custom (pt_fi (pt_new loc)) False r = (Some j, r1)"
    using assms(3) by (auto simp: SwitchToPtItem_def Let_def split: prod.splits)
  have j: "j = rg_next r" "rg_clients r1 = j # rg_clients r"
    using c by (auto simp: Create_custom_def alloc_held_def split: if_splits)
  have "rg_next r \<notin> set (rg_clients r)" using clients_fresh [OF assms(1)] by (simp add: count_list_0_iff)
  then have "j \<in> set (remove1 i (rg_clients r1))" using assms(2) by (auto simp: j in_set_remove1)
  then show ?thesis
    using assms(3) by (auto simp: SwitchToPtItem_def c Let_def release_client_def holder_dtor_client_frame)
qed

lemma get_item_inv:
  assumes "reg_inv [] r"
  shows "out_inv (get_item pe h hb ch u dt pt jb0 r)"
proof -
  define rs where "rs = GetRepNameAndPathResidual (cf_db (pe_cf pe)) u"
  define loc where "loc = (case rr_psRepoName rs of
                   Some n \<Rightarrow> (if n \<noteq> [] then n @ ''/'' @ rr_sRestPath rs else sHost u @ sPath u)
                 | None \<Rightarrow> sHost u @ sPath u)"
  define a where "a = \<lparr>spa_bVolatile = (\<not> pe_flag pe ''offlinemode'' \<and> dt = FILE_VOLATILE), spa_bHeadOnly = jb_bIsHeadOnly jb0,
                  spa_bNoStore = False, spa_nRangeLimit = jb_nReqRangeTo jb0, spa_credentials = []\<rparr>"
  define jb where "jb = snd (ParseRange h (jb0\<lparr>jb_sFileLoc := loc, jb_ifMoSince := tHttpDate_cstr (hdr_h h IF_MODIFIED_SINCE) False\<rparr>))"
  obtain res r1 where C: "Create (pe_reg pe) (pe_now pe) (pe_link pe) loc
      (if spa_bVolatile a then AUTO_MOVE_OUT_OF_THE_WAY else ALWAYS_TRY_SHARING) a r = (res, r1)" by fastforce
  have 1: "reg_inv [] r1" using Create_inv [OF assms C] by blast
  note E = get_item_def [of pe h hb ch u dt pt jb0 r, unfolded Let_def, folded rs_def, folded loc_def, folded a_def, folded jb_def, unfolded C prod.case]
  show ?thesis
  proof (cases res)
    case None
    then show ?thesis unfolding E using 1 by simp
  next
    case (Some i)
    define r2 where "r2 = rg_upd i (\<lambda>fi. snd (item_Setup (rc_base (pe_reg pe)) (rg_fs r1) fi)) r1"
    have 2: "reg_inv [] r2" unfolding r2_def by (rule reg_inv_item [OF 1 item_Setup_frame])
    have i: "i \<in> set (rg_clients r2)" using Create_held [OF C [unfolded Some]] by (simp add: r2_def)
    obtain res' r3 where S: "SwitchToPtItem pe loc i r2 = (res', r3)" by fastforce
    note 3 = SwitchToPtItem_inv [OF 2 i S] 
    have pt: "out_inv (start_download pe hb ch u rs True jb j r3)" if "res' = Some j" for j
      using start_download_inv [OF 3 SwitchToPtItem_held [OF 2 i S [unfolded that]]] .
    show ?thesis
      unfolding E Some option.case r2_def [symmetric] S
      using 1 2 3 start_download_inv [OF 2 i] pt by (simp split: option.splits)
  qed
qed

lemma classify_inv: "reg_inv [] r \<Longrightarrow> out_inv (classify pe h hb ch u pt jb r)"
  by (simp add: classify_def Let_def get_item_inv split: prod.splits)

lemma Prepare_inv: "reg_inv [] r \<Longrightarrow> out_inv (Prepare pe h headBuf caller jb r)"
  by (auto simp: Prepare_def Let_def classify_inv dest: PrepareLocalDownload_inv split: option.splits prod.splits)




text \<open>
  C38. A HEAD request for a volatile file that another request is just fetching with GET gets an
  item of its own beside the registered one. This item is new, no download is started for it, and
  it is left in the state \<open>FIST_FRESH\<close>: the job waits in vain until its time-out.
\<close>

theorem head_beside_active_item_is_not_fetched:
  assumes "rg_map r (NormalizePath (rc_stupidfs (pe_reg pe)) (sHost u @ sPath u)) = Some k"
    and "\<not> fi_bCreateItemMustDisplace (rg_item r k)" "spa_bVolatile (fi_spattr (rg_item r k))"
    and "\<not> spa_bHeadOnly (fi_spattr (rg_item r k))" "pe_now pe \<le> fi_nTimeDlStarted (rg_item r k) + rc_stucksecs (pe_reg pe)"
    and "jb_bIsHeadOnly jb" "\<not> pe_flag pe ''offlinemode''" "\<not> se_degraded (pe_set pe)" "rr_psRepoName (GetRepNameAndPathResidual (cf_db (pe_cf pe)) u) = None"
  shows "\<exists>jb' r'. get_item pe h hb ch u FILE_VOLATILE False jb r = PrepRet jb' (Some (rg_next r)) r' None \<and>
           rg_map r' = rg_map r \<and> fi_status (rg_item r' (rg_next r)) = FIST_FRESH"
  using assms
  by (simp add: get_item_def Create_def must_make_way_def alloc_held_def item_Setup_def rg_item_def fileitem_new_def fi_ord Let_def
      split: prod.splits)

theorem head_beside_active_item_is_not_fetched_witness:
  "let pe = prep_env_demo; u = url_clear\<lparr>sHost := ''d.org'', sPath := ''/Release''\<rparr>;
       a = spattr_default\<lparr>spa_bVolatile := True\<rparr>;
       r = rg_upd 0 (\<lambda>fi. fi\<lparr>fi_nTimeDlStarted := 900\<rparr>)
             (snd (Create (pe_reg pe) 900 LinkOk ''d.org/Release'' AUTO_MOVE_OUT_OF_THE_WAY a (registry_new Map.empty)))
   in \<exists>jb' r'. get_item pe (get_head []) [] [] u FILE_VOLATILE False (job_new\<lparr>jb_bIsHeadOnly := True\<rparr>) r =
        PrepRet jb' (Some (rg_next r)) r' None \<and> rg_map r' = rg_map r \<and> fi_status (rg_item r' (rg_next r)) = FIST_FRESH"
  unfolding Let_def
  by (rule head_beside_active_item_is_not_fetched [where k = 0]) code_simp+

end
