(* ===== verification/Conn.thy ===== *)
theory Conn
  imports Request AcBuf "HOL-Library.Sublist"
begin

text \<open>
  \<open>src/conn.h\<close> and \<open>src/conn.cc\<close>: one client connection. It splits the bytes of the client into
  requests, keeps the jobs of these requests in a queue, lets the job at the front send its
  response, and collects the counts for the transfer log. Requests for tunnels turn the connection
  into a relay.

  What the operating system, the clock and the network do in one pass of the loop is the record
  \<open>conn_ev\<close>. The bytes that the jobs send are collected in \<open>cn_wire\<close>; the answers given without
  a job (tunnels, redirections of bug reports) are the last ones on a connection, in \<open>cn_raw\<close>.
  Failing allocation is not modelled, as in the buffer.
\<close>

section \<open>Transfer log\<close>

record log_rec =
  lr_in :: off_t
  lr_out :: off_t
  lr_client :: string
  lr_file :: string
  lr_err :: bool

text \<open>
  A job in the queue, with its item and the page if one was generated for it. \<open>cj_req\<close> is the job
  as \<open>Prepare\<close> left it and \<open>cn_done\<close> below the list of the finished jobs; both serve the statements
  only.
\<close>

record cjob =
  cj_req :: job
  cj_job :: job
  cj_item :: "nat option"
  cj_page :: "gen_item option"

record conn =
  cn_badState :: bool
  cn_jobs2send :: "cjob list"
  cn_pDlClient :: bool
  cn_sClientHost :: string
  cn_logFile :: string
  cn_logClient :: string
  cn_fileTransferIn :: off_t
  cn_fileTransferOut :: off_t
  cn_bLogAsError :: bool
  cn_inBuf :: acbuf
  cn_client_timeout :: time_t
  cn_reg :: registry
  cn_log :: "log_rec list"
  cn_wire :: string
  cn_raw :: string
  cn_done :: "cjob list"

record conn_cfg =
  cc_set :: settings
  cc_regexec :: "string \<Rightarrow> string \<Rightarrow> bool"
  cc_reg :: reg_cfg
  cc_srv :: srv
  cc_mk :: "tm \<Rightarrow> time_t"

abbreviation cc_cf :: "conn_cfg \<Rightarrow> config" where "cc_cf cc \<equiv> se_cf (cc_set cc)"
abbreviation cc_int :: "conn_cfg \<Rightarrow> string \<Rightarrow> int" where "cc_int cc v \<equiv> cf_int (cc_cf cc) v"

definition writeAnotherLogRecord :: "string \<Rightarrow> string \<Rightarrow> conn \<Rightarrow> conn" where
  "writeAnotherLogRecord pNewFile pNewClient c =
     c\<lparr>cn_log := cn_log c @ [\<lparr>lr_in = cn_fileTransferIn c, lr_out = cn_fileTransferOut c, lr_client = cn_logClient c,
                              lr_file = cn_logFile c, lr_err = cn_bLogAsError c\<rparr>],
       cn_fileTransferIn := 0, cn_fileTransferOut := 0, cn_bLogAsError := False,
       cn_logFile := pNewFile, cn_logClient := pNewClient\<rparr>"

definition log_client :: "conn_cfg \<Rightarrow> string \<Rightarrow> conn \<Rightarrow> string" where
  "log_client cc xff c =
     (if cc_int cc ''logxff'' = 0 \<or> xff = [] then cn_sClientHost c
      else let s = trimBoth_str xff SPACECHARS
           in case find_last_of s SPACECHARS of Some pos \<Rightarrow> drop (pos + 1) s | None \<Rightarrow> s)"

definition LogDataCounts :: "conn_cfg \<Rightarrow> string \<Rightarrow> string \<Rightarrow> off_t \<Rightarrow> off_t \<Rightarrow> bool \<Rightarrow> conn \<Rightarrow> conn" where
  "LogDataCounts cc sFile xff nNewIn nNewOut bAsError c =
     (let sClient = log_client cc xff c;
          c1 = (if sFile \<noteq> cn_logFile c \<or> sClient \<noteq> cn_logClient c then writeAnotherLogRecord sFile sClient c else c)
      in c1\<lparr>cn_fileTransferIn := cn_fileTransferIn c1 + nNewIn, cn_fileTransferOut := cn_fileTransferOut c1 + nNewOut,
            cn_bLogAsError := (bAsError \<or> cn_bLogAsError c1)\<rparr>)"

section \<open>Jobs of a connection\<close>

text \<open>
  Destruction of a job: \<open>~job\<close> reports the counts, then the holder of the item is destroyed. The
  count of received bytes is an unsigned number that becomes an \<open>off_t\<close>.
\<close>

definition destroy_job :: "conn_cfg \<Rightarrow> bool \<Rightarrow> time_t \<Rightarrow> cjob \<Rightarrow> conn \<Rightarrow> conn" where
  "destroy_job cc in_shutdown now cj c =
     (let item = (case cj_item cj of Some i \<Rightarrow> rg_heap (cn_reg c) i | None \<Rightarrow> None) in
      case fst (job_dtor item (cj_job cj)) of
        (file, xff, inCount, outCount, bErr) \<Rightarrow>
          let c1 = LogDataCounts cc file xff (sint inCount) outCount bErr c in
          (case cj_item cj of
             None \<Rightarrow> c1
           | Some i \<Rightarrow> c1\<lparr>cn_reg := release_client (cc_reg cc) in_shutdown now i
                                     (rg_upd i (\<lambda>fi. snd (TakeTransferCount fi)) (cn_reg c1))\<rparr>))"

text \<open>\<open>SetupDownloader\<close>, with the outcome of the creation of the downloader and its thread.\<close>

datatype dl_create = DlCreated | DlNull | DlThrows

definition SetupDownloader :: "dl_create \<Rightarrow> conn \<Rightarrow> bool \<times> conn" where
  "SetupDownloader d c =
     (if cn_badState c then (False, c)
      else if cn_pDlClient c then (True, c)
      else case d of
             DlCreated \<Rightarrow> (True, c\<lparr>cn_pDlClient := True, cn_badState := False\<rparr>)
           | DlNull \<Rightarrow> (False, c)
           | DlThrows \<Rightarrow> (False, c\<lparr>cn_badState := True, cn_pDlClient := False\<rparr>))"

text \<open>
  \<open>Prepare\<close> calls \<open>SetupDownloader\<close> exactly on the path where its failure leads to the answer
  on overload, so that the call is seen when it is made to fail.
\<close>

definition asks_downloader :: "prep_env \<Rightarrow> header \<Rightarrow> string \<Rightarrow> string \<Rightarrow> registry \<Rightarrow> bool" where
  "asks_downloader pe h headBuf host r =
     (case Prepare (pe\<lparr>pe_downloader := False\<rparr>) h headBuf host job_new r of
        PrepRet jb _ _ _ \<Rightarrow> find_sub report_overload (jb_sendbuf jb) \<noteq> None
      | _ \<Rightarrow> False)"

definition add_job :: "conn_cfg \<Rightarrow> prep_env \<Rightarrow> dl_create \<Rightarrow> header \<Rightarrow> conn \<Rightarrow> conn option" where
  "add_job cc pe0 d h c =
     (let view = ab_view (cn_inBuf c); host = cn_sClientHost c;
          pe = pe0\<lparr>pe_set := cc_set cc, pe_regexec := cc_regexec cc, pe_reg := cc_reg cc, pe_srv := cc_srv cc,
                   pe_downloader := fst (SetupDownloader d c)\<rparr>;
          c1 = (if asks_downloader pe h view host (cn_reg c) then snd (SetupDownloader d c) else c);
          push = (\<lambda>jb item r page. c1\<lparr>cn_jobs2send := cn_jobs2send c1 @ [\<lparr>cj_req = jb, cj_job = jb, cj_item = item, cj_page = page\<rparr>],
                                        cn_reg := r\<rparr>)
      in case Prepare pe h view host job_new (cn_reg c) of
           PrepRet jb item r dq \<Rightarrow> Some (push jb item r None)
         | PrepLocal jb item r page \<Rightarrow> Some (push jb item r page)
         | PrepFault \<Rightarrow> None)"

section \<open>Tunnels\<close>

definition BDOURL :: string where "BDOURL = ''http://bugs.debian.org:80/''"

definition CheckListbugs :: "header \<Rightarrow> bool" where
  "CheckListbugs ph \<longleftrightarrow> hdr_type ph = POST \<and> startsWith (st_msg (hdr_status ph)) BDOURL"

definition RedirectBto2https :: "string \<Rightarrow> string" where
  "RedirectBto2https uri =
     ''HTTP/1.1 302 Redirect'' @ svRN @ ''Location: https://bugs.debian.org:443/'' @ drop 26 uri @ svRN @
     ''Connection: close'' @ svRN @ svRN"

text \<open>
  Opening the remote end: directly, or through the proxy with a tunnel. The network answers with an
  error text or \<open>None\<close>.
\<close>

record tunnel_env =
  te_connect :: "string \<Rightarrow> 16 word \<Rightarrow> int \<Rightarrow> string option"
  te_StartTunnel :: "string \<Rightarrow> 16 word \<Rightarrow> string \<Rightarrow> string option"
  te_cmd_fails :: "string \<Rightarrow> bool"
  te_now :: time_t
  te_proxy :: proxy_state

definition open_tunnel :: "config \<Rightarrow> tunnel_env \<Rightarrow> tHttpUrl \<Rightarrow> string option \<times> proxy_state" where
  "open_tunnel cf te url =
     (let direct = te_connect te (sHost url) (GetPort url) (cf_int cf ''nettimeout'');
          opt = cf_int cf ''optproxytimeout''
      in case GetProxyInfo cf (te_now te) (te_cmd_fails te) (te_proxy te) of
           (None, px) \<Rightarrow> (direct, px)
         | (Some proxy, px) \<Rightarrow>
             (case te_connect te (sHost proxy) (GetPort proxy) (if opt > 0 then opt else cf_int cf ''nettimeout'') of
                None \<Rightarrow> (te_StartTunnel te (sHost url) (GetPort url) (sUserPass proxy), px)
              | Some err \<Rightarrow> if opt > 0 then (direct, MarkProxyFailure cf px) else (Some err, px)))"

text \<open>
  One pass of the relay loop: what \<open>select\<close> reports (\<open>None\<close> for an error) and what the writes
  and reads do. The state: the two buffers, the bytes that went to the server and to the client, and
  those that came from them.
\<close>

record relay_ev =
  re_select :: "(bool \<times> bool \<times> bool \<times> bool) option"
  re_wserver :: "(bool + nat) list"
  re_wclient :: "(bool + nat) list"
  re_rserver :: "int + string"
  re_rclient :: "int + string"

record relay =
  ry_clientBufIn :: acbuf
  ry_clientBufOut :: acbuf
  ry_toServer :: string
  ry_toClient :: string
  ry_fromServer :: string
  ry_fromClient :: string

datatype 'a flow = Go 'a | Stop 'a | Blocked

definition relay_write :: "bool \<Rightarrow> (bool + nat) list \<Rightarrow> acbuf \<Rightarrow> string \<Rightarrow> (bool \<times> acbuf \<times> string) option" where
  "relay_write ready ws b out =
     (if \<not> ready then Some (True, b, out)
      else case ab_dumpall ws (ab_size b) b of
             None \<Rightarrow> None
           | Some (r, d, b1) \<Rightarrow> Some (r \<ge> 0, b1, out @ d))"

definition relay_read :: "bool \<Rightarrow> int + string \<Rightarrow> acbuf \<Rightarrow> string \<Rightarrow> bool \<times> acbuf \<times> string" where
  "relay_read ready avail b got =
     (if \<not> ready then (True, b, got)
      else case ab_sysread (ab_capa b) avail b of
             (n, b1) \<Rightarrow> (n > 0, b1, got @ (case avail of Inr s \<Rightarrow> take (nat n) s | Inl _ \<Rightarrow> [])))"

definition relay_pass :: "relay_ev \<Rightarrow> relay \<Rightarrow> relay flow" where
  "relay_pass e y =
     (case re_select e of
        None \<Rightarrow> Stop y
      | Some (wo, wc, ro, rc) \<Rightarrow>
          let ci = ry_clientBufIn y; co = ry_clientBufOut y in
          (case relay_write (wo \<and> ab_size ci > 0) (re_wserver e) ci (ry_toServer y) of
             None \<Rightarrow> Blocked
           | Some (ok1, ci1, ts) \<Rightarrow>
               let y1 = y\<lparr>ry_clientBufIn := ci1, ry_toServer := ts\<rparr> in
               if \<not> ok1 then Stop y1
               else case relay_write (wc \<and> ab_size co > 0) (re_wclient e) co (ry_toClient y) of
                      None \<Rightarrow> Blocked
                    | Some (ok2, co1, tc) \<Rightarrow>
                        let y2 = y1\<lparr>ry_clientBufOut := co1, ry_toClient := tc\<rparr> in
                        if \<not> ok2 then Stop y2
                        else case relay_read (ro \<and> ab_freecapa co > 0) (re_rserver e) co1 (ry_fromServer y) of
                               (ok3, co2, fs) \<Rightarrow>
                                 let y3 = y2\<lparr>ry_clientBufOut := co2, ry_fromServer := fs\<rparr> in
                                 if \<not> ok3 then Stop y3
                                 else case relay_read (rc \<and> ab_freecapa ci > 0) (re_rclient e) ci1 (ry_fromClient y) of
                                        (ok4, ci2, fc) \<Rightarrow>
                                          let y4 = y3\<lparr>ry_clientBufIn := ci2, ry_fromClient := fc\<rparr> in if \<not> ok4 then Stop y4 else Go y4))"

fun relay_loop :: "relay_ev list \<Rightarrow> relay \<Rightarrow> relay flow" where
  "relay_loop [] y = Go y"
| "relay_loop (e # es) y = (case relay_pass e y of Go y1 \<Rightarrow> relay_loop es y1 | other \<Rightarrow> other)"

definition PassThrough :: "config \<Rightarrow> tunnel_env \<Rightarrow> relay_ev list \<Rightarrow> nat \<Rightarrow> acbuf \<Rightarrow> string \<Rightarrow> relay flow option" where
  "PassThrough cf te es taken clientBufIn uri =
     (let out = ab_setsize 32768 acbuf_new;
          y = \<lparr>ry_clientBufIn = clientBufIn, ry_clientBufOut = out, ry_toServer = [], ry_toClient = [], ry_fromServer = [], ry_fromClient = []\<rparr>
      in case SetHttpUrl uri True of
           None \<Rightarrow> None
         | Some (False, _) \<Rightarrow> Some (Stop y)
         | Some (True, url) \<Rightarrow>
             (case fst (open_tunnel cf te url) of
                Some sErr \<Rightarrow> Some (Stop (y\<lparr>ry_toClient := take taken (''HTTP/1.0 502 CONNECT error: '' @ sErr @ svRN @ svRN)\<rparr>))
              | None \<Rightarrow> Some (relay_loop es
                          (y\<lparr>ry_clientBufOut := tss_add (''HTTP/1.0 200 Connection established'' @ svRN @ svRN) out\<rparr>))))"

section \<open>The loop\<close>

datatype sel = SelErr bool | SelTimeout | SelReady bool bool

record conn_ev =
  ev_in_shutdown :: bool
  ev_select :: sel
  ev_shutdown_after :: bool
  ev_now :: time_t
  ev_read :: "int + string"
  ev_prep :: "string \<Rightarrow> prep_env"
  ev_dl :: "string \<Rightarrow> dl_create"
  ev_taken :: nat
  ev_tunnel :: tunnel_env
  ev_relay :: "relay_ev list"
  ev_send :: send_env

text \<open>The loop goes on, \<open>WorkLoop\<close> returns, it waits in a blocking call, or the behaviour is undefined.\<close>

datatype conn_res = CnGo conn | CnStop conn | CnBlocked | CnFault

definition raw_answer :: "nat \<Rightarrow> string \<Rightarrow> conn \<Rightarrow> conn" where
  "raw_answer n msg c = c\<lparr>cn_raw := cn_raw c @ take n msg\<rparr>"

definition connect_request :: "conn_cfg \<Rightarrow> conn_ev \<Rightarrow> string \<Rightarrow> conn \<Rightarrow> conn_res" where
  "connect_request cc ev tgt c =
     (if Match (cc_regexec cc) (se_rex (cc_set cc)) tgt PASSTHROUGH
      then (case PassThrough (cc_cf cc) (ev_tunnel ev) (ev_relay ev) (ev_taken ev) (cn_inBuf c) tgt of
              None \<Rightarrow> CnFault
            | Some (Stop y) \<Rightarrow> CnStop (c\<lparr>cn_inBuf := ry_clientBufIn y, cn_raw := cn_raw c @ ry_toClient y\<rparr>)
            | Some _ \<Rightarrow> CnBlocked)
      else CnStop (raw_answer (ev_taken ev)
             (''HTTP/1.0 403 CONNECT denied (ask the admin to allow HTTPS tunnels)'' @ svRN @ svRN) c))"

text \<open>Bytes behind the visible part of the buffer, which a C string function may reach.\<close>

definition ab_behind :: "acbuf \<Rightarrow> string" where
  "ab_behind b = drop (ab_w b) (ab_mem b)"

text \<open>One pass of the loop that splits the input: its end with a result, or the next pass.\<close>

datatype req_step = ReqEnd conn_res | ReqMore header conn

definition one_request :: "conn_cfg \<Rightarrow> conn_ev \<Rightarrow> header \<Rightarrow> conn \<Rightarrow> req_step" where
  "one_request cc ev h0 c =
     (let b = cn_inBuf c; view = ab_view b in
      case Load False view (ab_behind b) (header_clear h0) of
        LoadFault \<Rightarrow> ReqEnd CnFault
      | LoadRet n h _ \<Rightarrow>
          let c1 = c\<lparr>cn_inBuf := ab_drop (nat n) b\<rparr> in
          if n = 0 then ReqEnd (CnGo (c\<lparr>cn_inBuf := ab_move b\<rparr>))
          else if n < 0 then ReqEnd (CnStop c)
          else if hdr_type h = POST
          then ReqEnd (CnStop (if cc_int cc ''forwardsoap'' \<noteq> 0 \<and> cn_sClientHost c \<noteq> [] \<and> CheckListbugs h
                               then raw_answer (ev_taken ev) (RedirectBto2https (st_msg (hdr_status h))) c else c))
          else if hdr_type h = CONNECT then ReqEnd (connect_request cc ev (st_msg (hdr_status h)) c1)
          else if cn_sClientHost c = []
          then (case hdr_h h XORIG of
                  None \<Rightarrow> ReqEnd (CnStop c1)
                | Some x \<Rightarrow> if c_str x = [] then ReqEnd (CnStop c1) else ReqMore h (c1\<lparr>cn_sClientHost := c_str x\<rparr>))
          else case add_job cc (ev_prep ev view) (ev_dl ev view) h c of
                 None \<Rightarrow> ReqEnd CnFault
               | Some c2 \<Rightarrow> if cn_badState c2 then ReqEnd (CnStop c2)
                             else ReqMore h (c2\<lparr>cn_inBuf := ab_drop (nat n) b\<rparr>))"

lemma one_request_less:
  assumes "one_request cc ev h0 c = ReqMore h c'" "ab_size (cn_inBuf c) \<noteq> 0"
  shows "ab_size (cn_inBuf c') < ab_size (cn_inBuf c)"
proof -
  have "ab_size (ab_drop n b) < ab_size b" if "0 < n" "ab_size b \<noteq> 0" for n b
    using that by (auto simp: ab_defs)
  then show ?thesis
    using assms by (auto simp: one_request_def Let_def split: load_result.splits if_splits option.splits)
qed

function parse_requests :: "conn_cfg \<Rightarrow> conn_ev \<Rightarrow> header \<Rightarrow> conn \<Rightarrow> conn_res" where
  "parse_requests cc ev h c =
     (if ab_size (cn_inBuf c) = 0 then CnGo c
      else case one_request cc ev h c of ReqEnd r \<Rightarrow> r | ReqMore h1 c1 \<Rightarrow> parse_requests cc ev h1 c1)"
  by pat_completeness auto

termination
  by (relation "measure (\<lambda>(cc, ev, h, c). ab_size (cn_inBuf c))") (auto dest: one_request_less)

declare parse_requests.simps [simp del]

definition send_front :: "conn_cfg \<Rightarrow> conn_ev \<Rightarrow> conn \<Rightarrow> conn_res" where
  "send_front cc ev c =
     (case cn_jobs2send c of
        [] \<Rightarrow> CnGo c
      | cj # rest \<Rightarrow>
          (case SendData (cc_srv cc) (cc_mk cc) (ev_send ev) (cj_job cj) of
             (res, jb) \<Rightarrow>
               let cj1 = cj\<lparr>cj_job := jb\<rparr>;
                   c1 = c\<lparr>cn_jobs2send := cj1 # rest, cn_wire := cn_wire c @ drop (length (jb_out (cj_job cj))) (jb_out jb)\<rparr>
               in case res of
                    R_DISCON \<Rightarrow> CnStop c1
                  | R_DONE \<Rightarrow> CnGo (destroy_job cc (ev_in_shutdown ev) (ev_now ev) cj1 (c1\<lparr>cn_jobs2send := rest, cn_done := cn_done c @ [cj1]\<rparr>))
                  | _ \<Rightarrow> CnGo c1))"

definition serve :: "conn_cfg \<Rightarrow> conn_ev \<Rightarrow> bool \<Rightarrow> conn \<Rightarrow> conn_res" where
  "serve cc ev writable c =
     (case parse_requests cc ev header_new c of
        CnGo c1 \<Rightarrow> if ab_freecapa (cn_inBuf c1) = 0 then CnStop c1
                    else if writable then send_front cc ev c1 else CnGo c1
      | other \<Rightarrow> other)"

text \<open>One pass of \<open>WorkLoop\<close>.\<close>

definition conn_step :: "conn_cfg \<Rightarrow> conn_ev \<Rightarrow> conn \<Rightarrow> conn_res" where
  "conn_step cc ev c =
     (if ev_in_shutdown ev \<or> cn_badState c then CnStop c
      else if ab_freecapa (cn_inBuf c) = 0 then CnStop c
      else if ev_shutdown_after ev then CnStop c
      else case ev_select ev of
             SelTimeout \<Rightarrow> if ev_now ev > cn_client_timeout c then CnStop c else CnGo c
           | SelErr eintr \<Rightarrow> if eintr then CnGo c else CnStop c
           | SelReady rd wr \<Rightarrow>
               let c1 = c\<lparr>cn_client_timeout := ev_now ev + cc_int cc ''nettimeout''\<rparr>;
                   writable = (wr \<and> cn_jobs2send c \<noteq> [])
               in if rd then
                    (case ab_sysread (ab_capa (cn_inBuf c)) (ev_read ev) (cn_inBuf c) of
                       (n, b) \<Rightarrow> if n \<le> 0 then (if n = -11 then CnGo c1 else CnStop c1)
                                  else serve cc ev writable (c1\<lparr>cn_inBuf := b\<rparr>))
                  else serve cc ev writable c1)"

definition conn_new :: "nat \<Rightarrow> string \<Rightarrow> registry \<Rightarrow> time_t \<Rightarrow> conn" where
  "conn_new capa host r timeout =
     \<lparr>cn_badState = False, cn_jobs2send = [], cn_pDlClient = False, cn_sClientHost = host, cn_logFile = [], cn_logClient = [],
      cn_fileTransferIn = 0, cn_fileTransferOut = 0, cn_bLogAsError = False, cn_inBuf = ab_setsize capa acbuf_new,
      cn_client_timeout = timeout, cn_reg = r, cn_log = [], cn_wire = [], cn_raw = [], cn_done = []\<rparr>"

fun WorkLoop :: "conn_cfg \<Rightarrow> conn_ev list \<Rightarrow> conn \<Rightarrow> conn_res" where
  "WorkLoop cc [] c = CnGo c"
| "WorkLoop cc (e # es) c = (case conn_step cc e c of CnGo c1 \<Rightarrow> WorkLoop cc es c1 | other \<Rightarrow> other)"

text \<open>\<open>~Impl\<close>: the jobs are destroyed from the front on, then the last log record is written.\<close>

definition conn_dtor :: "conn_cfg \<Rightarrow> bool \<Rightarrow> time_t \<Rightarrow> conn \<Rightarrow> conn" where
  "conn_dtor cc in_shutdown now c =
     writeAnotherLogRecord [] [] (fold (destroy_job cc in_shutdown now) (cn_jobs2send c) (c\<lparr>cn_jobs2send := []\<rparr>))"

section \<open>Invariant\<close>

definition grows :: "job \<Rightarrow> job \<Rightarrow> bool" where
  "grows jb jb' \<longleftrightarrow> (\<exists>d. jb_out jb' = jb_out jb @ d \<and> jb_nAllDataCount jb' = jb_nAllDataCount jb + int (length d))"

lemma grows_same: "jb_out jb' = jb_out jb \<Longrightarrow> jb_nAllDataCount jb' = jb_nAllDataCount jb \<Longrightarrow> grows jb jb'"
  by (simp add: grows_def)

lemma grows_trans: "grows a b \<Longrightarrow> grows b c \<Longrightarrow> grows a c"
  by (auto simp: grows_def)

lemma return_grows: "return_discon jb = (r, jb') \<Longrightarrow> grows jb jb'" "return_stream_ok jb = (r, jb') \<Longrightarrow> grows jb jb'"
  by (auto simp: return_discon_def return_stream_ok_def intro!: grows_same split: if_splits)

lemma HandleSuddenError_grows: "HandleSuddenError sv item jb = (r, jb') \<Longrightarrow> grows jb jb'"
  by (auto simp: HandleSuddenError_def return_discon_def head_defs Let_def intro!: grows_same split: if_splits option.splits)

lemma Cook_grows: "grows jb (CookResponseHeader sv mk item jb)"
  by (rule grows_same)
    (simp_all add: CookResponseHeader_def AddPtHeader_def cook_range_def head_defs Let_def split: option.splits)

lemma item_SendData_grows:
  "item_SendData e n jb = Some (k, jb') \<Longrightarrow> grows jb (jb'\<lparr>jb_nAllDataCount := jb_nAllDataCount jb' + int k\<rparr>)"
  by (auto simp: item_SendData_def grows_def Let_def split: option.splits)

lemma grows_simps [simp]:
  "grows (jb\<lparr>jb_filefd := x\<rparr>) jb' = grows jb jb'" "grows jb (jb'\<lparr>jb_filefd := x\<rparr>) = grows jb jb'"
  "grows jb (jb'\<lparr>jb_activity := a\<rparr>) = grows jb jb'" "grows jb (jb'\<lparr>jb_nChunkEnd := n\<rparr>) = grows jb jb'"
  "grows jb (put s jb') = grows jb jb'" "grows jb jb"
  by (auto simp: grows_def)

lemma send_data_grows: "send_data_state sv e jb = (r, jb') \<Longrightarrow> grows jb jb'"
  unfolding send_data_state_def Let_def
  by (auto dest!: return_grows HandleSuddenError_grows item_SendData_grows intro: grows_trans
      split: if_splits prod.splits option.splits)

lemma chunk_state_grows: "chunk_header_state sv e jb = (r, jb') \<Longrightarrow> grows jb jb'" "chunk_data_state sv e jb = (r, jb') \<Longrightarrow> grows jb jb'"
  unfolding chunk_header_state_def chunk_data_state_def Let_def
  by (auto dest!: HandleSuddenError_grows item_SendData_grows intro: grows_trans split: if_splits prod.splits option.splits)

lemma flush_grows: "flush_sendbuf e jb = (res, jb1) \<Longrightarrow> grows jb jb1 \<and> (\<forall>r jb2. res = Some (r, jb2) \<longrightarrow> grows jb jb2)"
  by (auto simp: flush_sendbuf_def grows_def return_discon_def Let_def split: if_splits send_res.splits)

lemma SendData_grows:
  assumes "SendData sv mk e jb = (r, jb')"
  shows "grows jb jb'"
proof -
  obtain res jb1 where f: "flush_sendbuf e jb = (res, jb1)" by fastforce
  note g = flush_grows [OF f]
  show ?thesis
  proof (cases res)
    case None
    then have "grows jb1 jb' \<or> return_discon jb = (r, jb')"
      using assms f Cook_grows
      by (auto simp: SendData_def split: if_splits eActivity.splits
          dest: return_grows HandleSuddenError_grows send_data_grows chunk_state_grows)
    then show ?thesis using g grows_trans return_grows by blast
  next
    case (Some x)
    then show ?thesis using assms f g by (auto simp: SendData_def split: if_splits dest: return_grows)
  qed
qed

lemma results_for_us:
  "fst (return_discon jb) \<noteq> R_NOTFORUS" "fst (return_stream_ok jb) \<noteq> R_NOTFORUS" "fst (HandleSuddenError sv item jb) \<noteq> R_NOTFORUS"
  by (simp_all add: return_discon_def return_stream_ok_def HandleSuddenError_def Let_def split: option.splits)

lemma states_for_us:
  "fst (send_data_state sv e jb) \<noteq> R_NOTFORUS" "fst (chunk_header_state sv e jb) \<noteq> R_NOTFORUS" "fst (chunk_data_state sv e jb) \<noteq> R_NOTFORUS"
  by (simp_all add: send_data_state_def chunk_header_state_def chunk_data_state_def Let_def case_prod_beta results_for_us split: option.splits)

lemma SendData_for_us: "fst (SendData sv mk e jb) \<noteq> R_NOTFORUS"
  by (simp add: SendData_def flush_sendbuf_def Let_def results_for_us states_for_us split: send_res.splits eActivity.splits)

text \<open>What a prepared request adds to the holders, and that it has not sent anything yet.\<close>

definition item_mset :: "nat option \<Rightarrow> nat multiset" where
  "item_mset res = (case res of Some i \<Rightarrow> {#i#} | None \<Rightarrow> {#})"

lemma item_mset_simps [simp]: "item_mset None = {#}" "item_mset (Some i) = {#i#}"
  by (simp_all add: item_mset_def)

definition prep_adds :: "registry \<Rightarrow> job \<Rightarrow> prep_out \<Rightarrow> bool" where
  "prep_adds r jb0 po =
     (case po of
        PrepRet jb res r' dq \<Rightarrow> mset (rg_clients r') = mset (rg_clients r) + item_mset res \<and>
          jb_out jb = jb_out jb0 \<and> jb_nAllDataCount jb = jb_nAllDataCount jb0
      | PrepLocal jb res r' g \<Rightarrow> mset (rg_clients r') = mset (rg_clients r) + item_mset res \<and>
          jb_out jb = jb_out jb0 \<and> jb_nAllDataCount jb = jb_nAllDataCount jb0
      | PrepFault \<Rightarrow> True)"

lemma Create_clients:
  "Create cfg now le path how a r = (res, r') \<Longrightarrow> mset (rg_clients r') = mset (rg_clients r) + item_mset res"
  by (cases "rg_map r (NormalizePath (rc_stupidfs cfg) path)";
    auto simp: Create_def share_def regnew_def alloc_held_def displace_def abandon_replace_def Let_def
      split: if_splits link_env.splits; metis item_mset_simps(2))

lemma Create_custom_clients:
  "Create_custom fi s r = (res, r') \<Longrightarrow> mset (rg_clients r') = mset (rg_clients r) + item_mset res"
  by (auto simp: Create_custom_def alloc_held_def split: if_splits)

lemma release_clients: "i \<in> set (rg_clients r) \<Longrightarrow> mset (rg_clients (release_client cfg sh now i r)) = mset (rg_clients r) - {#i#}"
  by (simp add: release_client_def holder_dtor_client_frame)

lemma SwitchToPtItem_clients:
  assumes "SwitchToPtItem pe loc i r = (res, r')" "i \<in> set (rg_clients r)"
  shows "mset (rg_clients r') + {#i#} = mset (rg_clients r) + item_mset res"
proof -
  obtain r1 where c: "Create_custom (pt_fi (pt_new loc)) False r = (res, r1)"
    using assms(1) by (auto simp: SwitchToPtItem_def Let_def split: prod.splits)
  note m = Create_custom_clients [OF c]
  then have i: "i \<in> set (rg_clients r1)" using assms(2) by (metis set_mset_mset mset_subset_eq_add_left mset_subset_eqD)
  have "rg_clients r' = rg_clients (release_client (pe_reg pe) (pe_in_shutdown pe) (pe_now pe) i r1)"
    using assms(1) by (auto simp: SwitchToPtItem_def c Let_def split: option.splits)
  then show ?thesis using release_clients [OF i] insert_DiffM [of i "mset (rg_clients r1)"] m i
    by (metis add_mset_add_single set_mset_mset)
qed

lemma prep_adds_simps [simp]:
  "prep_adds r jb0 (PrepRet jb res r' dq) \<longleftrightarrow> mset (rg_clients r') = mset (rg_clients r) + item_mset res \<and>
     jb_out jb = jb_out jb0 \<and> jb_nAllDataCount jb = jb_nAllDataCount jb0"
  "prep_adds r jb0 (PrepLocal jb res r' g) \<longleftrightarrow> mset (rg_clients r') = mset (rg_clients r) + item_mset res \<and>
     jb_out jb = jb_out jb0 \<and> jb_nAllDataCount jb = jb_nAllDataCount jb0"
  "prep_adds r jb0 PrepFault"
  by (simp_all add: prep_adds_def)

lemma SetEarly_job [simp]:
  "jb_out (SetEarlySimpleResponse sv msg nb jb) = jb_out jb" "jb_nAllDataCount (SetEarlySimpleResponse sv msg nb jb) = jb_nAllDataCount jb"
  by (simp_all add: head_defs put_simps Let_def)

lemma early_adds [simp]:
  "prep_adds r jb0 (early pe msg jb res r') \<longleftrightarrow> mset (rg_clients r') = mset (rg_clients r) + item_mset res \<and>
     jb_out jb = jb_out jb0 \<and> jb_nAllDataCount jb = jb_nAllDataCount jb0"
  by (simp add: early_def)

lemma ParseRange_job [simp]:
  "jb_out (snd (ParseRange h jb)) = jb_out jb" "jb_nAllDataCount (snd (ParseRange h jb)) = jb_nAllDataCount jb"
  by (cases "hdr_h h RANGE"; cases "hdr_h h CONTENT_RANGE"; simp add: ParseRange_def Let_def case_prod_beta)+

lemma start_download_adds:
  assumes "i \<in> set (rg_clients r)" "mset (rg_clients r) = mset (rg_clients r0) + {#i#}" "jb_out jb = jb_out jb0" "jb_nAllDataCount jb = jb_nAllDataCount jb0"
  shows "prep_adds r0 jb0 (start_download pe hb ch u rs pt jb i r)"
proof -
  obtain res r1 where s: "SwitchToPtItem pe (jb_sFileLoc jb) i r = (res, r1)" by fastforce
  have m: "mset (rg_clients r1) = mset (rg_clients r0) + item_mset res"
    using SwitchToPtItem_clients [OF s assms(1)] assms(2) by simp
  show ?thesis
    unfolding start_download_def Let_def s using assms m
    by (simp split: option.splits)
qed

lemma get_item_adds:
  assumes "jb_out jb0 = jb_out jb1" "jb_nAllDataCount jb0 = jb_nAllDataCount jb1"
  shows "prep_adds r jb1 (get_item pe h hb ch u dt pt jb0 r)"
proof -
  define rs where "rs = GetRepNameAndPathResidual (cf_db (pe_cf pe)) u"
  define loc where "loc = (case rr_psRepoName rs of
                   Some n \<Rightarrow> (if n \<noteq> [] then n @ ''/'' @ rr_sRestPath rs else sHost u @ sPath u)
                 | None \<Rightarrow> sHost u @ sPath u)"
  define a where "a = \<lparr>spa_bVolatile = (\<not> pe_flag pe ''offlinemode'' \<and> dt = FILE_VOLATILE), spa_bHeadOnly = jb_bIsHeadOnly jb0,
                  spa_bNoStore = False, spa_nRangeLimit = jb_nReqRangeTo jb0, spa_credentials = []\<rparr>"
  define jb where "jb = snd (ParseRange h (jb0\<lparr>jb_sFileLoc := loc, jb_ifMoSince := tHttpDate_cstr (hdr_h h IF_MODIFIED_SINCE) False\<rparr>))"
  have jb: "jb_out jb = jb_out jb1" "jb_nAllDataCount jb = jb_nAllDataCount jb1" using assms by (simp_all add: jb_def)
  obtain res r1 where C: "Create (pe_reg pe) (pe_now pe) (pe_link pe) loc
      (if spa_bVolatile a then AUTO_MOVE_OUT_OF_THE_WAY else ALWAYS_TRY_SHARING) a r = (res, r1)" by fastforce
  note m = Create_clients [OF C]
  note E = get_item_def [of pe h hb ch u dt pt jb0 r, unfolded Let_def, folded rs_def, folded loc_def, folded a_def, folded jb_def, unfolded C prod.case]
  show ?thesis
  proof (cases res)
    case None
    then show ?thesis unfolding E using m jb by simp
  next
    case (Some i)
    define r2 where "r2 = rg_upd i (\<lambda>fi. snd (item_Setup (rc_base (pe_reg pe)) (rg_fs r1) fi)) r1"
    have i: "i \<in> set (rg_clients r2)" using Create_held [OF C [unfolded Some]] by (simp add: r2_def)
    have m2: "mset (rg_clients r2) = mset (rg_clients r) + {#i#}" using m Some by (simp add: r2_def)
    obtain res' r3 where S: "SwitchToPtItem pe loc i r2 = (res', r3)" by fastforce
    have m3: "mset (rg_clients r3) = mset (rg_clients r) + item_mset res'"
      using SwitchToPtItem_clients [OF S i] m2 by simp
    have "j \<in> set (rg_clients r3)" if "res' = Some j" for j
      using m3 that by (metis item_mset_simps(2) set_mset_mset union_iff union_single_eq_member)
    then have pt: "prep_adds r jb1 (start_download pe hb ch u rs True jb j r3)" if "res' = Some j" for j
      using start_download_adds [OF _ _ jb] m3 that by simp
    show ?thesis
      unfolding E Some option.case r2_def [symmetric] S
      using m m2 m3 jb start_download_adds [OF i m2 jb] pt Some by (simp split: option.splits)
  qed
qed

lemma classify_adds:
  "jb_out jb0 = jb_out jb1 \<Longrightarrow> jb_nAllDataCount jb0 = jb_nAllDataCount jb1 \<Longrightarrow> prep_adds r jb1 (classify pe h hb ch u pt jb0 r)"
  by (simp add: classify_def Let_def get_item_adds split: prod.splits)

lemma keep_alive_job [simp]:
  "jb_out (keep_alive_mode h jb) = jb_out jb" "jb_nAllDataCount (keep_alive_mode h jb) = jb_nAllDataCount jb"
  by (simp_all add: keep_alive_mode_def Let_def split: option.splits)

lemma LocalDownload_adds:
  assumes "PrepareLocalDownload sv env v b s jb r = (jb', res, r', g)"
  shows "mset (rg_clients r') = mset (rg_clients r) + item_mset res \<and> jb_out jb' = jb_out jb \<and> jb_nAllDataCount jb' = jb_nAllDataCount jb"
  using assms
  by (auto simp: PrepareLocalDownload_def Let_def dest: Create_custom_clients split: sum.splits st_mode.splits if_splits prod.splits)

lemma Prepare_adds: "prep_adds r jb0 (Prepare pe h hb host jb0 r)"
proof -
  have L: "prep_adds r jb0 (case PrepareLocalDownload sv env v b s jb r of (jb3, item, r3, page) \<Rightarrow> PrepLocal (snd (ParseRange h jb3)) item r3 page)"
    if "jb_out jb = jb_out jb0" "jb_nAllDataCount jb = jb_nAllDataCount jb0" for sv env v b s jb
    using that LocalDownload_adds [of sv env v b s jb r] by (simp split: prod.splits)
  show ?thesis
    by (simp add: Prepare_def Let_def L classify_adds split: option.splits prod.splits)
qed

text \<open>The responses of a connection and the counts that belong to them.\<close>

definition items :: "cjob list \<Rightarrow> nat multiset" where
  "items js = sum_list (map (\<lambda>cj. item_mset (cj_item cj)) js)"

definition logged_out :: "conn \<Rightarrow> off_t" where
  "logged_out c = sum_list (map lr_out (cn_log c)) + cn_fileTransferOut c"

definition responses :: "cjob list \<Rightarrow> string" where
  "responses js = concat (map (\<lambda>cj. jb_out (cj_job cj)) js)"

definition has_sent :: "conn_cfg \<Rightarrow> eJobResult set \<Rightarrow> cjob \<Rightarrow> bool" where
  "has_sent cc R cj \<longleftrightarrow>
     (\<exists>es r. run_send (cc_srv cc) (cc_mk cc) es (cj_req cj) = (r, cj_job cj) \<and> r \<in> R) \<and>
     jb_out (cj_req cj) = [] \<and> jb_nAllDataCount (cj_job cj) = int (length (jb_out (cj_job cj)))"

definition conn_inv :: "conn_cfg \<Rightarrow> eJobResult set \<Rightarrow> nat multiset \<Rightarrow> conn \<Rightarrow> bool" where
  "conn_inv cc R others c \<longleftrightarrow>
     reg_inv [] (cn_reg c) \<and> mset (rg_clients (cn_reg c)) = items (cn_jobs2send c) + others \<and>
     (\<forall>cj \<in> set (cn_jobs2send c). has_sent cc R cj) \<and> (\<forall>cj \<in> set (cn_done c). has_sent cc {R_DONE} cj) \<and>
     (\<forall>cj \<in> set (tl (cn_jobs2send c)). jb_out (cj_job cj) = []) \<and>
     cn_wire c = responses (cn_done c @ cn_jobs2send c) \<and>
     logged_out c = int (length (responses (cn_done c)))"

lemma items_simps [simp]: "items [] = {#}" "items (cj # js) = item_mset (cj_item cj) + items js" "items (xs @ ys) = items xs + items ys"
  by (simp_all add: items_def)

lemma responses_simps [simp]:
  "responses [] = []" "responses (cj # js) = jb_out (cj_job cj) @ responses js" "responses (xs @ ys) = responses xs @ responses ys"
  by (simp_all add: responses_def)

lemma run_send_snoc:
  "run_send sv mk es jb = (R_AGAIN, jb1) \<Longrightarrow> run_send sv mk (es @ [e]) jb = SendData sv mk e jb1"
  by (induction es arbitrary: jb) (auto split: prod.splits if_splits)

lemma has_sent_step:
  assumes "has_sent cc {R_AGAIN} cj" "SendData (cc_srv cc) (cc_mk cc) e (cj_job cj) = (r, jb)" "r \<in> R"
  shows "has_sent cc R (cj\<lparr>cj_job := jb\<rparr>)"
proof -
  obtain es where "run_send (cc_srv cc) (cc_mk cc) es (cj_req cj) = (R_AGAIN, cj_job cj)" using assms(1) by (auto simp: has_sent_def)
  from run_send_snoc [OF this, of e] have "run_send (cc_srv cc) (cc_mk cc) (es @ [e]) (cj_req cj) = (r, jb)" using assms(2) by simp
  then show ?thesis using assms SendData_grows [OF assms(2)] by (auto simp: has_sent_def grows_def)
qed

lemma LogDataCounts_simps [simp]:
  "logged_out (LogDataCounts cc f x i n e c) = logged_out c + n"
  "cn_reg (LogDataCounts cc f x i n e c) = cn_reg c" "cn_jobs2send (LogDataCounts cc f x i n e c) = cn_jobs2send c"
  "cn_done (LogDataCounts cc f x i n e c) = cn_done c" "cn_wire (LogDataCounts cc f x i n e c) = cn_wire c"
  by (simp_all add: LogDataCounts_def writeAnotherLogRecord_def logged_out_def Let_def)

text \<open>The destruction of a job reports what it sent and gives its item back.\<close>

lemma destroy_job_spec:
  fixes cc sh now c cj
  defines "c' \<equiv> destroy_job cc sh now cj c"
  assumes "reg_inv [] (cn_reg c)" "item_mset (cj_item cj) \<subseteq># mset (rg_clients (cn_reg c))"
  shows "reg_inv [] (cn_reg c')" "mset (rg_clients (cn_reg c')) = mset (rg_clients (cn_reg c)) - item_mset (cj_item cj)"
    "logged_out c' = logged_out c + jb_nAllDataCount (cj_job cj)"
    "cn_jobs2send c' = cn_jobs2send c" "cn_done c' = cn_done c" "cn_wire c' = cn_wire c"
proof -
  let ?u = "\<lambda>i. rg_upd i (\<lambda>fi. snd (TakeTransferCount fi)) (cn_reg c)"
  have r: "reg_inv [] (?u i)" for i by (rule reg_inv_item [OF assms(2)]) (simp add: TakeTransferCount_def)
  have k: "i \<in> set (rg_clients (?u i))" if "cj_item cj = Some i" for i using assms(3) that by simp
  have l: "logged_out (c\<lparr>cn_reg := x\<rparr>) = logged_out c" for c x by (simp add: logged_out_def)
  show "reg_inv [] (cn_reg c')" "mset (rg_clients (cn_reg c')) = mset (rg_clients (cn_reg c)) - item_mset (cj_item cj)"
    "logged_out c' = logged_out c + jb_nAllDataCount (cj_job cj)"
    "cn_jobs2send c' = cn_jobs2send c" "cn_done c' = cn_done c" "cn_wire c' = cn_wire c"
    unfolding c'_def destroy_job_def job_dtor_def Let_def
    using assms(2) release_client_inv [OF r k] release_clients [OF k]
    by (simp_all add: l split: option.splits)
qed

lemma add_job_inv:
  assumes "conn_inv cc {R_AGAIN} oth c" "add_job cc pe d h c = Some c'"
  shows "conn_inv cc {R_AGAIN} oth c' \<and> cn_inBuf c' = cn_inBuf c \<and> (\<exists>js. cn_jobs2send c' = cn_jobs2send c @ js) \<and> cn_done c' = cn_done c"
proof -
  define pe' where "pe' = pe\<lparr>pe_set := cc_set cc, pe_regexec := cc_regexec cc, pe_reg := cc_reg cc, pe_srv := cc_srv cc,
                   pe_downloader := fst (SetupDownloader d c)\<rparr>"
  define c1 where "c1 = (if asks_downloader pe' h (ab_view (cn_inBuf c)) (cn_sClientHost c) (cn_reg c) then snd (SetupDownloader d c) else c)"
  have c1: "cn_jobs2send c1 = cn_jobs2send c" "cn_done c1 = cn_done c" "cn_wire c1 = cn_wire c" "cn_log c1 = cn_log c"
    "cn_fileTransferOut c1 = cn_fileTransferOut c" "cn_inBuf c1 = cn_inBuf c"
    by (simp_all add: c1_def SetupDownloader_def split: dl_create.splits)
  define po where "po = Prepare pe' h (ab_view (cn_inBuf c)) (cn_sClientHost c) job_new (cn_reg c)"
  have a: "prep_adds (cn_reg c) job_new po" unfolding po_def by (rule Prepare_adds)
  have r: "out_inv po" unfolding po_def using assms(1) by (simp add: conn_inv_def Prepare_inv)
  have "\<exists>jb res r page. mset (rg_clients r) = mset (rg_clients (cn_reg c)) + item_mset res \<and> reg_inv [] r \<and>
      jb_out jb = [] \<and> jb_nAllDataCount jb = 0 \<and>
      c' = c1\<lparr>cn_jobs2send := cn_jobs2send c1 @ [\<lparr>cj_req = jb, cj_job = jb, cj_item = res, cj_page = page\<rparr>], cn_reg := r\<rparr>"
    using assms(2) a r unfolding add_job_def Let_def pe'_def [symmetric] c1_def [symmetric] po_def [symmetric]
    by (auto simp: job_new_def split: prep_out.splits)
  then obtain jb res r page where n: "mset (rg_clients r) = mset (rg_clients (cn_reg c)) + item_mset res" "reg_inv [] r"
      "jb_out jb = []" "jb_nAllDataCount jb = 0"
      "c' = c1\<lparr>cn_jobs2send := cn_jobs2send c1 @ [\<lparr>cj_req = jb, cj_job = jb, cj_item = res, cj_page = page\<rparr>], cn_reg := r\<rparr>" by blast
  have "has_sent cc {R_AGAIN} \<lparr>cj_req = jb, cj_job = jb, cj_item = res, cj_page = page\<rparr>"
    using n by (simp add: has_sent_def exI [of _ "[]"])
  then show ?thesis using assms(1) n c1 by (cases "cn_jobs2send c") (auto simp: conn_inv_def logged_out_def)
qed

lemma conn_inv_frame [simp]:
  "conn_inv cc R oth (c\<lparr>cn_inBuf := b\<rparr>) = conn_inv cc R oth c" "conn_inv cc R oth (c\<lparr>cn_sClientHost := s\<rparr>) = conn_inv cc R oth c"
  "conn_inv cc R oth (c\<lparr>cn_raw := s\<rparr>) = conn_inv cc R oth c" "conn_inv cc R oth (c\<lparr>cn_client_timeout := t\<rparr>) = conn_inv cc R oth c"
  by (simp_all add: conn_inv_def logged_out_def)

lemma has_sent_mono: "has_sent cc R cj \<Longrightarrow> R \<subseteq> R' \<Longrightarrow> has_sent cc R' cj"
  by (auto simp: has_sent_def)

lemma conn_inv_mono: "conn_inv cc R oth c \<Longrightarrow> R \<subseteq> R' \<Longrightarrow> conn_inv cc R' oth c"
  by (auto simp: conn_inv_def dest: has_sent_mono)

text \<open>The states that a pass of the loop leaves, and that requests only join the queue at its end.\<close>

definition left :: "conn_res \<Rightarrow> conn \<Rightarrow> bool" where
  "left res c \<longleftrightarrow> res = CnGo c \<or> res = CnStop c"

lemma left_simps [simp]: "left (CnGo c1) c \<longleftrightarrow> c = c1" "left (CnStop c1) c \<longleftrightarrow> c = c1" "\<not> left CnBlocked c" "\<not> left CnFault c"
  by (auto simp: left_def)

definition queued :: "conn \<Rightarrow> job list" where
  "queued c = map cj_req (cn_done c @ cn_jobs2send c)"

text \<open>
  What the bytes of the client can do to the state: changes of the buffer, the identification of the
  client, answers without a job, and new jobs once the client is identified.
\<close>

definition client_closed :: "conn_cfg \<Rightarrow> (conn \<Rightarrow> bool) \<Rightarrow> bool" where
  "client_closed cc P \<longleftrightarrow>
     (\<forall>c b. P c \<longrightarrow> P (c\<lparr>cn_inBuf := b\<rparr>)) \<and> (\<forall>c s. P c \<longrightarrow> P (c\<lparr>cn_raw := s\<rparr>)) \<and>
     (\<forall>c s. P c \<longrightarrow> cn_sClientHost c = [] \<longrightarrow> s \<noteq> [] \<longrightarrow> P (c\<lparr>cn_sClientHost := s\<rparr>)) \<and>
     (\<forall>c pe d h c'. P c \<longrightarrow> cn_sClientHost c \<noteq> [] \<longrightarrow> add_job cc pe d h c = Some c' \<longrightarrow> P c')"

lemma connect_request_keeps:
  assumes "client_closed cc P" "P c" "left (connect_request cc ev tgt c) c'"
  shows "P c'"
proof -
  have "P (c\<lparr>cn_inBuf := b, cn_raw := s\<rparr>)" for b s using assms(1,2) unfolding client_closed_def by blast
  moreover have "P (c\<lparr>cn_raw := s\<rparr>)" for s using assms(1,2) unfolding client_closed_def by blast
  ultimately show ?thesis
    using assms(3) by (auto simp: connect_request_def raw_answer_def split: if_splits option.splits flow.splits)
qed

lemma one_request_keeps:
  assumes "client_closed cc P" "P c"
  shows "one_request cc ev h0 c = ReqMore h c' \<Longrightarrow> P c'" "one_request cc ev h0 c = ReqEnd r \<Longrightarrow> left r c' \<Longrightarrow> P c'"
proof -
  have k: "P c \<Longrightarrow> P (c\<lparr>cn_inBuf := b\<rparr>)" "P c \<Longrightarrow> P (c\<lparr>cn_raw := s\<rparr>)"
    "P c \<Longrightarrow> cn_sClientHost c \<noteq> [] \<Longrightarrow> add_job cc pe d h c = Some c1 \<Longrightarrow> P c1" for c b s pe d h c1
    using assms(1) unfolding client_closed_def by blast+
  have t: "P (c\<lparr>cn_inBuf := b, cn_sClientHost := s\<rparr>)" if "cn_sClientHost c = []" "s \<noteq> []" for b s
    using assms that unfolding client_closed_def by simp
  note kt = k(1,2) [OF assms(2)] k(1) [OF k(3) [OF assms(2)]] t k(3) [OF assms(2)] connect_request_keeps [OF assms(1) k(1) [OF assms(2)]]
  show "one_request cc ev h0 c = ReqMore h c' \<Longrightarrow> P c'" "one_request cc ev h0 c = ReqEnd r \<Longrightarrow> left r c' \<Longrightarrow> P c'"
    using assms(2)
    by (auto simp: one_request_def raw_answer_def Let_def intro: kt split: load_result.splits if_splits option.splits)
qed

lemma parse_requests_keeps:
  assumes "client_closed cc P"
  shows "P c \<Longrightarrow> left (parse_requests cc ev h c) c' \<Longrightarrow> P c'"
  using assms
proof (induction cc ev h c rule: parse_requests.induct)
  case (1 cc ev h c)
  show ?case
    using 1(3) one_request_keeps [OF 1(4,2), of ev h] 1(1) 1(2,4)
    by (auto simp: parse_requests.simps [of cc ev h c] split: if_splits req_step.splits)
qed

lemma conn_inv_closed: "client_closed cc (\<lambda>c. conn_inv cc {R_AGAIN} oth c \<and> prefix q (queued c))"
proof -
  have "conn_inv cc {R_AGAIN} oth c' \<and> prefix q (queued c')"
    if c: "conn_inv cc {R_AGAIN} oth c" "prefix q (queued c)" and a: "add_job cc pe d h c = Some c'" for c pe d h c'
  proof -
    note i = add_job_inv [OF c(1) a]
    then have "prefix (queued c) (queued c')" by (auto simp: queued_def)
    then show ?thesis using i c(2) prefix_order.trans by blast
  qed
  moreover have "queued (c\<lparr>cn_inBuf := b\<rparr>) = queued c" "queued (c\<lparr>cn_raw := s\<rparr>) = queued c" "queued (c\<lparr>cn_sClientHost := s\<rparr>) = queued c" for c b s
    by (simp_all add: queued_def)
  ultimately show ?thesis by (simp add: client_closed_def) blast
qed

lemma send_front_inv:
  assumes "conn_inv cc {R_AGAIN} oth c" "left (send_front cc ev c) c'"
  shows "conn_inv cc (if send_front cc ev c = CnGo c' then {R_AGAIN} else {R_AGAIN, R_DISCON}) oth c' \<and> queued c' = queued c"
proof (cases "cn_jobs2send c")
  case Nil
  then show ?thesis using assms by (simp add: send_front_def)
next
  case (Cons cj rest)
  obtain r jb where S: "SendData (cc_srv cc) (cc_mk cc) (ev_send ev) (cj_job cj) = (r, jb)" by fastforce
  have nr: "r \<noteq> R_NOTFORUS" using SendData_for_us S by (metis fst_conv)
  have h: "has_sent cc {R_AGAIN} cj" using assms(1) Cons by (simp add: conn_inv_def)
  define cj1 where "cj1 = cj\<lparr>cj_job := jb\<rparr>"
  define c1 where "c1 = c\<lparr>cn_jobs2send := cj1 # rest, cn_wire := cn_wire c @ drop (length (jb_out (cj_job cj))) (jb_out jb)\<rparr>"
  obtain d where d: "jb_out jb = jb_out (cj_job cj) @ d" using SendData_grows [OF S] by (auto simp: grows_def)
  have "responses rest = []" using assms(1) Cons by (simp add: conn_inv_def responses_def)
  then have w: "cn_wire c1 = responses (cn_done c @ cj1 # rest)" using assms(1) Cons d by (simp add: c1_def cj1_def conn_inv_def)
  have h1: "has_sent cc {r} cj1" unfolding cj1_def by (rule has_sent_step [OF h S]) simp
  have q1: "queued c1 = queued c" using Cons by (simp add: queued_def c1_def cj1_def)
  have i1: "conn_inv cc {R_AGAIN, r} oth c1"
    using assms(1) Cons w has_sent_mono [OF h1, of "{R_AGAIN, r}"] has_sent_mono [of cc "{R_AGAIN}" _ "{R_AGAIN, r}"]
    unfolding conn_inv_def by (auto simp: c1_def cj1_def logged_out_def)
  show ?thesis
  proof (cases r)
    case R_DONE
    let ?c = "c1\<lparr>cn_jobs2send := rest, cn_done := cn_done c @ [cj1]\<rparr>"
    let ?c' = "destroy_job cc (ev_in_shutdown ev) (ev_now ev) cj1 ?c"
    have f: "send_front cc ev c = CnGo ?c'" using Cons S R_DONE by (simp add: send_front_def Let_def cj1_def c1_def)
    have x: "reg_inv [] (cn_reg ?c)" "mset (rg_clients (cn_reg ?c)) = items (cj1 # rest) + oth"
      using i1 by (simp_all add: conn_inv_def c1_def)
    then have "item_mset (cj_item cj1) \<subseteq># mset (rg_clients (cn_reg ?c))" by simp
    note D = destroy_job_spec [OF x(1) this, of cc "ev_in_shutdown ev" "ev_now ev"]
    have l: "logged_out ?c = logged_out c" by (simp add: logged_out_def c1_def)
    have "conn_inv cc {R_AGAIN} oth ?c'"
      using assms(1) D w x h1 l unfolding conn_inv_def Cons 
      by (cases rest) (auto simp: R_DONE c1_def has_sent_def)
    moreover have "queued ?c' = queued c" using D q1 by (simp add: queued_def c1_def)
    ultimately show ?thesis using f assms(2) by simp
  qed (use nr Cons S assms(2) i1 q1 in \<open>auto simp: send_front_def Let_def cj1_def [symmetric] c1_def [symmetric] intro: conn_inv_mono\<close>)
qed

definition pass_ok :: "conn_cfg \<Rightarrow> nat multiset \<Rightarrow> job list \<Rightarrow> conn_res \<Rightarrow> bool" where
  "pass_ok cc oth q res \<longleftrightarrow>
     (\<forall>c. left res c \<longrightarrow> conn_inv cc (if res = CnGo c then {R_AGAIN} else {R_AGAIN, R_DISCON}) oth c \<and> prefix q (queued c))"

lemma pass_ok_simps [simp]:
  "pass_ok cc oth q (CnGo c) \<longleftrightarrow> conn_inv cc {R_AGAIN} oth c \<and> prefix q (queued c)"
  "pass_ok cc oth q (CnStop c) \<longleftrightarrow> conn_inv cc {R_AGAIN, R_DISCON} oth c \<and> prefix q (queued c)"
  "pass_ok cc oth q CnBlocked" "pass_ok cc oth q CnFault"
  by (auto simp: pass_ok_def)

lemma stop_inv: "conn_inv cc {R_AGAIN} oth c \<Longrightarrow> conn_inv cc {R_AGAIN, R_DISCON} oth c"
  by (rule conn_inv_mono) auto

lemma serve_ok:
  assumes "conn_inv cc {R_AGAIN} oth c" "prefix q (queued c)"
  shows "pass_ok cc oth q (serve cc ev w c)"
proof -
  have p: "conn_inv cc {R_AGAIN} oth y \<and> prefix q (queued y)" if "left (parse_requests cc ev header_new c) y" for y
    using parse_requests_keeps [OF conn_inv_closed [of cc oth q] _ that] assms by simp
  have s: "pass_ok cc oth q (send_front cc ev y)" if "conn_inv cc {R_AGAIN} oth y" "prefix q (queued y)" for y
    using send_front_inv [OF that(1)] that(2) by (auto simp: pass_ok_def)
  show ?thesis using p s stop_inv by (auto simp: serve_def split: conn_res.splits)
qed

lemma conn_step_ok:
  assumes "conn_inv cc {R_AGAIN} oth c"
  shows "pass_ok cc oth (queued c) (conn_step cc ev c)"
proof -
  have q: "queued (c\<lparr>cn_client_timeout := t, cn_inBuf := b\<rparr>) = queued c" "queued (c\<lparr>cn_client_timeout := t\<rparr>) = queued c" for b t
    by (simp_all add: queued_def)
  show ?thesis
    unfolding conn_step_def Let_def using assms stop_inv [OF assms]
    by (simp add: q serve_ok stop_inv split: sel.split prod.split)
qed

lemma fold_destroy:
  assumes "reg_inv [] (cn_reg c)" "mset (rg_clients (cn_reg c)) = items js + oth"
  shows "reg_inv [] (cn_reg (fold (destroy_job cc sh now) js c)) \<and> mset (rg_clients (cn_reg (fold (destroy_job cc sh now) js c))) = oth \<and>
    logged_out (fold (destroy_job cc sh now) js c) = logged_out c + sum_list (map (\<lambda>cj. jb_nAllDataCount (cj_job cj)) js)"
  using assms
proof (induction js arbitrary: c)
  case (Cons cj js)
  have "item_mset (cj_item cj) \<subseteq># mset (rg_clients (cn_reg c))" using Cons.prems(2) by simp
  note D = destroy_job_spec [OF Cons.prems(1) this, of cc sh now]
  have "mset (rg_clients (cn_reg (destroy_job cc sh now cj c))) = items js + oth" using D(2) Cons.prems(2) by simp
  from Cons.IH [OF D(1) this] show ?case using D(3) by simp
qed simp

lemma sum_counts:
  "\<forall>cj \<in> set js. jb_nAllDataCount (cj_job cj) = int (length (jb_out (cj_job cj))) \<Longrightarrow>
     sum_list (map (\<lambda>cj. jb_nAllDataCount (cj_job cj)) js) = int (length (responses js))"
  by (induction js) auto

lemma conn_dtor_spec:
  assumes "conn_inv cc R oth c"
  shows "reg_inv [] (cn_reg (conn_dtor cc sh now c)) \<and> mset (rg_clients (cn_reg (conn_dtor cc sh now c))) = oth \<and>
    sum_list (map lr_out (cn_log (conn_dtor cc sh now c))) = int (length (cn_wire c))"
proof -
  let ?c = "c\<lparr>cn_jobs2send := []\<rparr>" and ?js = "cn_jobs2send c"
  have r: "reg_inv [] (cn_reg ?c)" "mset (rg_clients (cn_reg ?c)) = items ?js + oth" using assms by (simp_all add: conn_inv_def)
  have "\<forall>cj \<in> set ?js. jb_nAllDataCount (cj_job cj) = int (length (jb_out (cj_job cj)))"
    using assms by (simp add: conn_inv_def has_sent_def)
  then have s: "sum_list (map (\<lambda>cj. jb_nAllDataCount (cj_job cj)) ?js) = int (length (responses ?js))"
    by (rule sum_counts)
  have l: "logged_out ?c = logged_out c" by (simp add: logged_out_def)
  have w: "sum_list (map lr_out (cn_log (writeAnotherLogRecord [] [] x))) = logged_out x" "cn_reg (writeAnotherLogRecord [] [] x) = cn_reg x" for x
    by (simp_all add: writeAnotherLogRecord_def logged_out_def)
  show ?thesis
    using fold_destroy [OF r, of cc sh now] s assms unfolding conn_dtor_def w l by (simp add: conn_inv_def)
qed

text \<open>
  The states of a connection. Others may use the registry between two passes of its loop; they keep
  its invariant and the holders of this connection, and have \<open>others\<close> as holders of their own.
\<close>

inductive conn_reach :: "conn_cfg \<Rightarrow> nat multiset \<Rightarrow> conn \<Rightarrow> bool" for cc where
  cr_new: "reg_inv [] r \<Longrightarrow> conn_reach cc (mset (rg_clients r)) (conn_new capa host r t)"
| cr_step: "conn_reach cc others c \<Longrightarrow> conn_step cc ev c = CnGo c' \<Longrightarrow> conn_reach cc others c'"
| cr_others: "conn_reach cc others c \<Longrightarrow> reg_inv [] r \<Longrightarrow> mset (rg_clients r) = items (cn_jobs2send c) + others' \<Longrightarrow>
    conn_reach cc others' (c\<lparr>cn_reg := r\<rparr>)"

lemma conn_reach_inv: "conn_reach cc oth c \<Longrightarrow> conn_inv cc {R_AGAIN} oth c"
proof (induction rule: conn_reach.induct)
  case (cr_step others c ev c')
  then show ?case using conn_step_ok [OF cr_step.IH, of ev] by simp
qed (simp_all add: conn_inv_def conn_new_def logged_out_def)

section \<open>Properties\<close>


text \<open>
  C7. A connection leaves nothing behind in the registry: whatever requests it got, whichever way
  its loop ended and whatever other connections did meanwhile, its end keeps the invariant of the
  registry and exactly the holders of the others remain.
\<close>

theorem connection_releases_its_items:
  assumes "conn_reach cc others c" "conn_step cc ev c = CnStop c'"
  shows "reg_inv [] (cn_reg (conn_dtor cc sh now c')) \<and> mset (rg_clients (cn_reg (conn_dtor cc sh now c'))) = others"
proof -
  have "conn_inv cc {R_AGAIN, R_DISCON} others c'" using conn_step_ok [OF conn_reach_inv [OF assms(1)], of ev] assms(2) by simp
  from conn_dtor_spec [OF this] show ?thesis by simp
qed


definition goes_on :: "(conn \<Rightarrow> bool) \<Rightarrow> conn_res \<Rightarrow> bool" where
  "goes_on P res \<longleftrightarrow> (\<forall>c. res = CnGo c \<longrightarrow> P c)"

lemma goes_on_simps [simp]: "goes_on P (CnGo c) = P c" "goes_on P (CnStop c)" "goes_on P CnBlocked" "goes_on P CnFault"
  by (simp_all add: goes_on_def)

definition known :: "conn \<Rightarrow> bool" where
  "known c \<longleftrightarrow> (cn_sClientHost c = [] \<longrightarrow> cn_done c = [] \<and> cn_jobs2send c = [])"

lemma add_job_host: "add_job cc pe d h c = Some c' \<Longrightarrow> cn_sClientHost c' = cn_sClientHost c"
  by (auto simp: add_job_def SetupDownloader_def Let_def split: prep_out.splits if_splits dl_create.splits)

lemma known_closed: "client_closed cc known"
  using add_job_host by (auto simp: client_closed_def known_def)

lemma destroy_job_host: "cn_sClientHost (destroy_job cc sh now cj c) = cn_sClientHost c"
  by (simp add: destroy_job_def job_dtor_def LogDataCounts_def writeAnotherLogRecord_def Let_def split: option.splits)

lemma send_front_known: "known c \<Longrightarrow> goes_on known (send_front cc ev c)"
  by (cases "cn_jobs2send c"; cases "cn_sClientHost c = []")
    (simp_all add: send_front_def known_def Let_def destroy_job_host split: prod.splits eJobResult.splits)

lemma serve_known: "known c \<Longrightarrow> goes_on known (serve cc ev w c)"
  using parse_requests_keeps [OF known_closed, of c cc ev header_new] send_front_known
  by (simp add: serve_def split: conn_res.splits)

lemma conn_step_known: "known c \<Longrightarrow> goes_on known (conn_step cc ev c)"
proof -
  assume k: "known c"
  then have "known (c\<lparr>cn_client_timeout := t\<rparr>)" "known (c\<lparr>cn_client_timeout := t, cn_inBuf := b\<rparr>)" for t b by (simp_all add: known_def)
  then show ?thesis using k by (simp add: conn_step_def serve_known Let_def split: sel.split prod.split)
qed

lemma conn_reach_known: "conn_reach cc others c \<Longrightarrow> known c"
proof (induction rule: conn_reach.induct)
  case (cr_step others c ev c')
  then show ?case using conn_step_known [of c cc ev] by simp
qed (simp_all add: conn_new_def known_def)


section \<open>The relay\<close>

definition relay_inv :: "string \<Rightarrow> string \<Rightarrow> relay \<Rightarrow> bool" where
  "relay_inv c0 s0 y \<longleftrightarrow>
     ab_inv (ry_clientBufIn y) \<and> ab_inv (ry_clientBufOut y) \<and>
     ry_toServer y @ ab_view (ry_clientBufIn y) = c0 @ ry_fromClient y \<and>
     ry_toClient y @ ab_view (ry_clientBufOut y) = s0 @ ry_fromServer y"

lemma relay_write_spec:
  assumes "relay_write rdy ws b out = Some (ok, b', out')" "ab_inv b"
  shows "out' @ ab_view b' = out @ ab_view b \<and> ab_inv b'"
  using assms(1,2) dumpall_writes_prefix [OF assms(2), of ws "ab_size b"]
  by (auto simp: relay_write_def split: if_splits option.splits)

lemma relay_read_spec:
  assumes "relay_read rdy av b got = (ok, b', got')" "ab_inv b"
  shows "\<exists>d. ab_view b' = ab_view b @ d \<and> got' = got @ d \<and> ab_inv b'"
proof (cases "\<exists>s. av = Inr s")
  case True
  then obtain s where s: "av = Inr s" by blast
  let ?d = "take (min (ab_capa b) (ab_freecapa b)) s"
  have "ab_w b + length ?d \<le> ab_capa b" using assms(2) by (auto simp: ab_inv_def ab_freecapa_def min_def)
  note w = ab_write_got_props [OF assms(2) this]
  show ?thesis
    using assms w s by (auto simp: relay_read_def ab_sysread_def Let_def min_def split: if_splits)
next
  case False
  then show ?thesis using assms by (auto simp: relay_read_def ab_sysread_def split: if_splits sum.splits)
qed

definition flow_ok :: "('a \<Rightarrow> bool) \<Rightarrow> 'a flow \<Rightarrow> bool" where
  "flow_ok P f = (case f of Go y \<Rightarrow> P y | Stop y \<Rightarrow> P y | Blocked \<Rightarrow> True)"

lemma flow_ok_simps [simp]: "flow_ok P (Go y) = P y" "flow_ok P (Stop y) = P y" "flow_ok P Blocked"
  by (simp_all add: flow_ok_def)

lemma relay_pass_ok:
  assumes "relay_inv c0 s0 y"
  shows "flow_ok (relay_inv c0 s0) (relay_pass e y)"
proof -
  have w: "\<exists>k. out' = out @ k \<and> k @ ab_view b' = ab_view b \<and> ab_inv b'"
    if "relay_write r ws b out = Some (ok, b', out')" "ab_inv b" for r ws b out ok b' out'
    using relay_write_spec [OF that] that(1) by (auto simp: relay_write_def split: if_splits option.splits)
  show ?thesis
    using assms unfolding relay_pass_def Let_def
    by (auto simp: relay_inv_def split: option.splits prod.splits dest!: w relay_read_spec)
qed

lemma relay_loop_ok: "relay_inv c0 s0 y \<Longrightarrow> flow_ok (relay_inv c0 s0) (relay_loop es y)"
proof (induction es arbitrary: y)
  case (Cons e es)
  then show ?case using relay_pass_ok [OF Cons.prems, of e] by (cases "relay_pass e y") simp_all
qed simp

text \<open>
  C23. A tunnel is transparent: once the remote end is connected, at every moment of the relay the
  bytes written to the server and those still in the buffer are the bytes that the client had sent
  behind its request and those read from it since, in this order, and the client is sent the
  confirmation and then the bytes of the server; nothing is lost, repeated or reordered, however the
  reads and writes are divided.
\<close>

theorem tunnel_is_transparent:
  assumes "ab_inv b" "SetHttpUrl uri True = Some (True, url)" "fst (open_tunnel cf te url) = None"
  shows "\<exists>f. PassThrough cf te es taken b uri = Some f \<and>
    flow_ok (\<lambda>y. ry_toServer y @ ab_view (ry_clientBufIn y) = ab_view b @ ry_fromClient y \<and>
                 ry_toClient y @ ab_view (ry_clientBufOut y) =
                   ''HTTP/1.0 200 Connection established'' @ svRN @ svRN @ ry_fromServer y) f"
proof -
  let ?m = "''HTTP/1.0 200 Connection established'' @ svRN @ svRN" and ?o = "ab_setsize 32768 acbuf_new"
  let ?y = "\<lparr>ry_clientBufIn = b, ry_clientBufOut = tss_add ?m ?o, ry_toServer = [], ry_toClient = [], ry_fromServer = [], ry_fromClient = []\<rparr>"
  have o: "ab_inv ?o" "ab_view ?o = []" using ab_setsize_props [OF ab.inv_new, of 32768] by (simp_all add: acbuf_new_def ab_view_def)
  then have "relay_inv (ab_view b) ?m ?y" using assms(1) by (simp add: relay_inv_def ab.inv_add ab.view_add)
  from relay_loop_ok [OF this, of es] have "flow_ok (relay_inv (ab_view b) ?m) (relay_loop es ?y)" .
  then show ?thesis
    using assms(2,3) by (cases "relay_loop es ?y") (simp_all add: PassThrough_def relay_inv_def Let_def)
qed

definition tunnel_env_demo :: tunnel_env where
  "tunnel_env_demo = \<lparr>te_connect = (\<lambda>_ _ _. None), te_StartTunnel = (\<lambda>_ _ _. None), te_cmd_fails = (\<lambda>_. False), te_now = 0,
     te_proxy = \<lparr>px_failstate = False, px_last_check = 0\<rparr>\<rparr>"

definition relay_ev_demo :: relay_ev where
  "relay_ev_demo = \<lparr>re_select = Some (True, False, False, False), re_wserver = [Inr 1, Inr 9], re_wclient = [], re_rserver = Inr [], re_rclient = Inr []\<rparr>"

theorem tunnel_is_transparent_witness:
  "\<exists>f. PassThrough config_new tunnel_env_demo [relay_ev_demo] 0 (tss_add ''abc'' acbuf_new) ''d.org:443'' = Some f \<and>
     flow_ok (\<lambda>y. ry_toServer y @ ab_view (ry_clientBufIn y) = ''abc'' @ ry_fromClient y) f"
proof -
  let ?b = "tss_add ''abc'' acbuf_new"
  have b: "ab_inv ?b" "ab_view ?b = ''abc''" by (simp_all add: ab.inv_add ab.inv_new ab.view_add ab.view_new)
  have "case SetHttpUrl ''d.org:443'' True of Some (True, url) \<Rightarrow> fst (open_tunnel config_new tunnel_env_demo url) = None | _ \<Rightarrow> False"
    by code_simp
  then obtain url where u: "SetHttpUrl ''d.org:443'' True = Some (True, url)" "fst (open_tunnel config_new tunnel_env_demo url) = None"
    by (auto split: option.splits bool.splits)
  obtain f where f: "PassThrough config_new tunnel_env_demo [relay_ev_demo] 0 ?b ''d.org:443'' = Some f"
    "flow_ok (\<lambda>y. ry_toServer y @ ab_view (ry_clientBufIn y) = ab_view ?b @ ry_fromClient y \<and>
                 ry_toClient y @ ab_view (ry_clientBufOut y) =
                   ''HTTP/1.0 200 Connection established'' @ svRN @ svRN @ ry_fromServer y) f"
    using tunnel_is_transparent [OF b(1) u] by blast
  then show ?thesis by (intro exI [of _ f]) (cases f; simp add: b)
qed

definition conn_cfg_demo :: conn_cfg where
  "conn_cfg_demo = \<lparr>cc_set = pe_set prep_env_demo, cc_regexec = pe_regexec prep_env_demo, cc_reg = pe_reg prep_env_demo,
     cc_srv = srv_demo, cc_mk = timegm_ref\<rparr>"

definition conn_ev_demo :: "sel \<Rightarrow> string \<Rightarrow> conn_ev" where
  "conn_ev_demo s bytes = \<lparr>ev_in_shutdown = False, ev_select = s, ev_shutdown_after = False, ev_now = 10, ev_read = Inr bytes,
     ev_prep = (\<lambda>_. prep_env_demo), ev_dl = (\<lambda>_. DlCreated), ev_taken = 0, ev_tunnel = tunnel_env_demo, ev_relay = [],
     ev_send = send_env_demo ''abc''\<rparr>"

definition conn_demo :: "string \<Rightarrow> conn" where
  "conn_demo host = conn_new 40 host (registry_new Map.empty) 5"

definition ev_get :: conn_ev where
  "ev_get = conn_ev_demo (SelReady True False) (''GET http://d.org/x.deb HTTP/1.1'' @ svRN @ svRN)"

definition conn_one_job :: conn where
  "conn_one_job = (case conn_step conn_cfg_demo ev_get (conn_demo ''h'') of CnGo c \<Rightarrow> c | _ \<Rightarrow> conn_demo ''h'')"

lemma conn_one_job: "conn_step conn_cfg_demo ev_get (conn_demo ''h'') = CnGo conn_one_job \<and> length (cn_jobs2send conn_one_job) = 1"
proof -
  have "case conn_step conn_cfg_demo ev_get (conn_demo ''h'') of CnGo c \<Rightarrow> length (cn_jobs2send c) = 1 | _ \<Rightarrow> False" by code_simp
  then show ?thesis by (auto simp: conn_one_job_def split: conn_res.splits)
qed

lemma conn_demo_reach: "conn_reach cc {#} (conn_demo host)" "conn_reach conn_cfg_demo {#} conn_one_job"
proof -
  show d: "conn_reach cc {#} (conn_demo host)" for cc host
    using cr_new [OF reg_inv_new, of cc Map.empty] by (simp add: conn_demo_def registry_new_def)
  show "conn_reach conn_cfg_demo {#} conn_one_job" using cr_step [OF d] conn_one_job by blast
qed


definition conn_over :: conn where
  "conn_over = (case conn_step conn_cfg_demo (conn_ev_demo (SelErr False) []) conn_one_job of CnStop c \<Rightarrow> c | _ \<Rightarrow> conn_one_job)"

lemma conn_over: "conn_step conn_cfg_demo (conn_ev_demo (SelErr False) []) conn_one_job = CnStop conn_over"
  by (simp add: conn_over_def conn_step_def conn_ev_demo_def)

theorem connection_releases_its_items_witness:
  "conn_step conn_cfg_demo (conn_ev_demo (SelErr False) []) conn_one_job = CnStop conn_over \<and>
   mset (rg_clients (cn_reg (conn_dtor conn_cfg_demo False 20 conn_over))) = {#}"
  using connection_releases_its_items [OF conn_demo_reach(2) conn_over] conn_over by blast



end
