(* ===== verification/ConPool.thy ===== *)
theory ConPool
  imports RemoteDb Header "HOL-Library.Multiset" "HOL-Library.List_Lexorder" "HOL-Library.Char_ord" "HOL-Library.Product_Lexorder"
begin

text \<open>
  \<open>src/tcpconnect.h\<close> and \<open>src/tcpconnect.cc\<close>: outgoing connections, the pool of idle ones, and
  tunnels through a proxy. Name resolution, \<open>connect\<close> and the TLS handshake are outcomes in the
  record \<open>net_ev\<close>. A connection reports to the usage hooks of its repository (\<open>RemoteDb\<close>).
\<close>

definition TIME_SOCKET_EXPIRE_CLOSE :: time_t where "TIME_SOCKET_EXPIRE_CLOSE = 33"

record tcpconnect =
  tc_conFd :: int
  tc_nPort :: "16 word"
  tc_sHostName :: string
  tc_lastFile :: "nat option"
  tc_pStateObserver :: "string option"
  tc_bio :: bool

type_synonym con_key = "string \<times> 16 word \<times> bool"

text \<open>The pool in the order of the multimap, the hooks by the name of their repository, and the times for the timer thread.\<close>

record con_world =
  cw_spareConPool :: "(con_key \<times> tcpconnect \<times> time_t) list"
  cw_hooks :: "string \<Rightarrow> tHookHandler option"
  cw_sched :: "time_t list"

definition cw_access :: "string option \<Rightarrow> con_world \<Rightarrow> con_world" where
  "cw_access ob w =
     (case ob of
        None \<Rightarrow> w
      | Some n \<Rightarrow> w\<lparr>cw_hooks := (cw_hooks w)(n := map_option (\<lambda>hk. fst (OnAccess hk)) (cw_hooks w n))\<rparr>)"

definition cw_release :: "time_t \<Rightarrow> string option \<Rightarrow> con_world \<Rightarrow> con_world" where
  "cw_release now ob w =
     (case ob of
        None \<Rightarrow> w
      | Some n \<Rightarrow> w\<lparr>cw_hooks := (cw_hooks w)(n := map_option (\<lambda>hk. fst (OnRelease now hk)) (cw_hooks w n))\<rparr>)"

definition tcpconnect_new :: "string option \<Rightarrow> con_world \<Rightarrow> tcpconnect \<times> con_world" where
  "tcpconnect_new pObserver w =
     (\<lparr>tc_conFd = -1, tc_nPort = 0, tc_sHostName = [], tc_lastFile = None, tc_pStateObserver = pObserver, tc_bio = False\<rparr>,
      cw_access pObserver w)"

definition Disconnect :: "tcpconnect \<Rightarrow> tcpconnect" where
  "Disconnect c = c\<lparr>tc_bio := False, tc_lastFile := None, tc_conFd := -1\<rparr>"

definition tcpconnect_dtor :: "time_t \<Rightarrow> tcpconnect \<Rightarrow> con_world \<Rightarrow> con_world" where
  "tcpconnect_dtor now c w = cw_release now (tc_pStateObserver c) w"

definition CloseAllCachedConnections :: "time_t \<Rightarrow> con_world \<Rightarrow> con_world" where
  "CloseAllCachedConnections now w =
     fold (\<lambda>(k, c, t). tcpconnect_dtor now c) (cw_spareConPool w) (w\<lparr>cw_spareConPool := []\<rparr>)"

section \<open>Opening\<close>

record net_ev =
  ne_now :: time_t
  ne_connect :: "string + int"
  ne_SSLinit :: "string option"

text \<open>The first entry with the key, and the pool without it.\<close>

fun pool_take :: "con_key \<Rightarrow> (con_key \<times> tcpconnect \<times> time_t) list \<Rightarrow> (tcpconnect \<times> (con_key \<times> tcpconnect \<times> time_t) list) option" where
  "pool_take key [] = None"
| "pool_take key ((k, c, t) # es) =
     (if k = key then Some (c, es) else map_option (\<lambda>(c1, es1). (c1, (k, c, t) # es1)) (pool_take key es))"

definition fresh_connection :: "string \<Rightarrow> 16 word \<Rightarrow> string option \<Rightarrow> bool \<Rightarrow> net_ev \<Rightarrow> con_world \<Rightarrow> (string + tcpconnect) \<times> con_world" where
  "fresh_connection sHostname port pStateTracker bSsl net w =
     (case tcpconnect_new pStateTracker w of
        (p0, w1) \<Rightarrow>
          let p = p0\<lparr>tc_sHostName := sHostname, tc_nPort := port\<rparr>;
              fail = (\<lambda>msg. (Inl msg, tcpconnect_dtor (ne_now net) p w1))
          in case ne_connect net of
               Inl sError \<Rightarrow> fail sError
             | Inr fd \<Rightarrow>
                 if fd = -1 then fail ''General Connection Error''
                 else if bSsl then (case ne_SSLinit net of
                                      Some sErr \<Rightarrow> fail sErr
                                    | None \<Rightarrow> (Inr (p\<lparr>tc_conFd := fd, tc_bio := True\<rparr>), w1))
                 else (Inr (p\<lparr>tc_conFd := fd\<rparr>), w1))"

text \<open>The connection or an error text, whether it was used before, and the world.\<close>

definition CreateConnected ::
  "string \<Rightarrow> 16 word \<Rightarrow> string option \<Rightarrow> bool \<Rightarrow> bool \<Rightarrow> net_ev \<Rightarrow> con_world \<Rightarrow> (string + tcpconnect) \<times> bool \<times> con_world" where
  "CreateConnected sHostname port pStateTracker bSsl nocache net w =
     (case (if nocache then None else pool_take (sHostname, port, bSsl) (cw_spareConPool w)) of
        Some (p, rest) \<Rightarrow>
          (Inr (if pStateTracker = None then p else p\<lparr>tc_pStateObserver := pStateTracker\<rparr>), True,
           cw_access pStateTracker (w\<lparr>cw_spareConPool := rest\<rparr>))
      | None \<Rightarrow> (case fresh_connection sHostname port pStateTracker bSsl net w of (res, w1) \<Rightarrow> (res, False, w1)))"

section \<open>The pool\<close>

definition pool_insert :: "con_key \<Rightarrow> tcpconnect \<times> time_t \<Rightarrow> (con_key \<times> tcpconnect \<times> time_t) list \<Rightarrow> (con_key \<times> tcpconnect \<times> time_t) list" where
  "pool_insert k v es = takeWhile (\<lambda>e. fst e \<le> k) es @ (k, v) # dropWhile (\<lambda>e. fst e \<le> k) es"

definition RecycleIdleConnection :: "bool \<Rightarrow> time_t \<Rightarrow> tcpconnect \<Rightarrow> con_world \<Rightarrow> con_world" where
  "RecycleIdleConnection persistoutgoing now handle w =
     (let w1 = cw_release now (tc_pStateObserver handle) w;
          h = handle\<lparr>tc_pStateObserver := None\<rparr>
      in if \<not> persistoutgoing then tcpconnect_dtor now h w1
         else if tc_sHostName h \<noteq> [] \<and> length (cw_spareConPool w1) < 50
         then w1\<lparr>cw_spareConPool := pool_insert (tc_sHostName h, tc_nPort h, tc_bio h) (h, now) (cw_spareConPool w1),
                 cw_sched := (now + TIME_SOCKET_EXPIRE_CLOSE) # cw_sched w1\<rparr>
         else tcpconnect_dtor now h w1)"

text \<open>
  The second loop of the cleanup: \<open>r\<close> counts the passes, and \<open>readable\<close> is what \<open>select\<close> left of
  the descriptors.
\<close>

fun drop_readable :: "nat \<Rightarrow> (int \<Rightarrow> bool) \<Rightarrow> (con_key \<times> tcpconnect \<times> time_t) list \<Rightarrow> (con_key \<times> tcpconnect \<times> time_t) list" where
  "drop_readable 0 readable es = es"
| "drop_readable r readable [] = []"
| "drop_readable (Suc r) readable ((k, c, t) # es) =
     (if readable (tc_conFd c) then drop_readable r readable es else (k, c, t) # drop_readable r readable es)"

definition pool_BackgroundCleanup :: "time_t \<Rightarrow> time_t \<Rightarrow> int \<Rightarrow> (int \<Rightarrow> bool) \<Rightarrow> con_world \<Rightarrow> time_t \<times> con_world" where
  "pool_BackgroundCleanup now now2 r readable w =
     (let kept = filter (\<lambda>(k, c, t). \<not> now \<ge> t + TIME_SOCKET_EXPIRE_CLOSE) (cw_spareConPool w);
          gone = filter (\<lambda>(k, c, t). now \<ge> t + TIME_SOCKET_EXPIRE_CLOSE) (cw_spareConPool w);
          left = drop_readable (nat r) readable kept;
          w1 = fold (\<lambda>(k, c, t). tcpconnect_dtor now c) gone w
      in (if left = [] then END_OF_TIME else now2 + TIME_SOCKET_EXPIRE_CLOSE div 4 + 1, w1\<lparr>cw_spareConPool := left\<rparr>))"

definition KillLastFile :: "(nat \<Rightarrow> fileitem option) \<Rightarrow> tcpconnect \<Rightarrow> nat \<Rightarrow> fileitem option" where
  "KillLastFile heap c =
     (case tc_lastFile c of
        None \<Rightarrow> heap
      | Some i \<Rightarrow> heap(i := map_option (MarkFaulty False) (heap i)))"

section \<open>Tunnels\<close>

definition tunnel_request :: "tHttpUrl \<Rightarrow> string \<Rightarrow> string" where
  "tunnel_request realTarget auth =
     (let hp = sHost realTarget @ '':'' @ nat_str (unat (GetPort realTarget))
      in ''CONNECT '' @ hp @ '' HTTP/1.1'' @ svRN @ ''Host: '' @ hp @ svRN @
         (if auth = [] then [] else ''Proxy-Authorization: Basic '' @ EncodeBase64Auth auth @ svRN) @ svRN)"

text \<open>
  The loop that reads the answer into a buffer of 4000 bytes: the results of the \<open>recv\<close> calls,
  errors as \<open>Inl\<close>; \<open>None\<close> if the next one has not returned. The buffer was used for the request,
  whose bytes (\<open>stale\<close>) are still behind the ones that were read.
\<close>

datatype tunnel_res = TunnelOk | TunnelErr string | TunnelFault

fun tunnel_answer :: "string \<Rightarrow> (string + string) list \<Rightarrow> string \<Rightarrow> tunnel_res option" where
  "tunnel_answer stale [] buf = None"
| "tunnel_answer stale (Inl sErr # rs) buf = Some (TunnelErr sErr)"
| "tunnel_answer stale (Inr d # rs) buf =
     (let b = buf @ take (4000 - length buf) d in
      if length b \<ge> 4000 then Some (TunnelErr ''Remote proxy error'')
      else case Load False b (drop (length b) stale @ [CHR 0x00]) header_new of
             LoadFault \<Rightarrow> Some TunnelFault
           | LoadRet n h _ \<Rightarrow>
               let st = st_code (hdr_status h) in
               if n = 0 then tunnel_answer stale rs b
               else if n < 0 \<or> st = 404 then Some (TunnelErr ''Tunnel setup failed'')
               else if st < 200 \<or> st \<ge> 300 then Some (TunnelErr (st_msg (hdr_status h)))
               else Some TunnelOk)"

text \<open>\<open>StartTunnel\<close>; \<open>sent\<close> is the error of sending the request, if any.\<close>

definition StartTunnel ::
  "string option \<Rightarrow> (string + string) list \<Rightarrow> string option \<Rightarrow> tHttpUrl \<Rightarrow> string \<Rightarrow> bool \<Rightarrow> tcpconnect \<Rightarrow> (string option \<times> tcpconnect) option" where
  "StartTunnel sent rs ssl_init realTarget auth bDoSSL c =
     (case sent of
        Some sErr \<Rightarrow> Some (Some sErr, c)
      | None \<Rightarrow>
          (case tunnel_answer (tunnel_request realTarget auth) rs [] of
             None \<Rightarrow> None
           | Some TunnelFault \<Rightarrow> None
           | Some (TunnelErr sErr) \<Rightarrow> Some (Some sErr, c)
           | Some TunnelOk \<Rightarrow>
               let c1 = c\<lparr>tc_sHostName := sHost realTarget, tc_nPort := GetPort realTarget\<rparr> in
               if \<not> bDoSSL then Some (None, c1)
               else (case ssl_init of
                       Some sErr \<Rightarrow> Some (Some sErr, c1\<lparr>tc_sHostName := []\<rparr>)
                     | None \<Rightarrow> Some (None, c1\<lparr>tc_bio := True\<rparr>))))"

section \<open>Invariant\<close>

definition users :: "tcpconnect list \<Rightarrow> string \<Rightarrow> int" where
  "users live n = int (length (filter (\<lambda>c. tc_pStateObserver c = Some n) live))"

definition pool_key :: "tcpconnect \<Rightarrow> con_key" where
  "pool_key c = (tc_sHostName c, tc_nPort c, tc_bio c)"

definition pool_inv :: "(con_key \<times> tcpconnect \<times> time_t) list \<Rightarrow> bool" where
  "pool_inv es \<longleftrightarrow> (\<forall>(k, c, t) \<in> set es. k = pool_key c \<and> tc_pStateObserver c = None) \<and> sorted (map fst es) \<and> length es \<le> 50"

definition con_inv :: "tcpconnect list \<Rightarrow> con_world \<Rightarrow> bool" where
  "con_inv live w \<longleftrightarrow> pool_inv (cw_spareConPool w) \<and> (\<forall>n hk. cw_hooks w n = Some hk \<longrightarrow> hk_nRefCnt hk = users live n)"

text \<open>What the rest of the program can do: the list holds the connections that are in use.\<close>

inductive con_step :: "tcpconnect list \<times> con_world \<Rightarrow> tcpconnect list \<times> con_world \<Rightarrow> bool" where
  cs_open: "CreateConnected host port ob ssl nocache net w = (Inr c, used, w') \<Longrightarrow> con_step (live, w) (c # live, w')"
| cs_fail: "CreateConnected host port ob ssl nocache net w = (Inl err, used, w') \<Longrightarrow> con_step (live, w) (live, w')"
| cs_recycle: "c \<in> set live \<Longrightarrow> con_step (live, w) (remove1 c live, RecycleIdleConnection persist now c w)"
| cs_close: "c \<in> set live \<Longrightarrow> con_step (live, w) (remove1 c live, tcpconnect_dtor now c w)"
| cs_tunnel: "c \<in> set live \<Longrightarrow> StartTunnel sent rs ssl_init tgt auth do_ssl c = Some (err, c') \<Longrightarrow> con_step (live, w) (c' # remove1 c live, w)"
| cs_last: "c \<in> set live \<Longrightarrow> con_step (live, w) (c\<lparr>tc_lastFile := i\<rparr> # remove1 c live, w)"
| cs_cleanup: "pool_BackgroundCleanup now now2 r readable w = (t, w') \<Longrightarrow> con_step (live, w) (live, w')"
| cs_flush: "con_step (live, w) (live, CloseAllCachedConnections now w)"

definition con_world_new :: "(string \<Rightarrow> tHookHandler option) \<Rightarrow> con_world" where
  "con_world_new hooks = \<lparr>cw_spareConPool = [], cw_hooks = hooks, cw_sched = []\<rparr>"

definition con_reach :: "tcpconnect list \<times> con_world \<Rightarrow> bool" where
  "con_reach s \<longleftrightarrow> (\<exists>hooks. (\<forall>n hk. hooks n = Some hk \<longrightarrow> hk_nRefCnt hk = 0) \<and> con_step\<^sup>*\<^sup>* ([], con_world_new hooks) s)"

lemma hook_counts: "hk_nRefCnt (fst (OnAccess hk)) = hk_nRefCnt hk + 1" "hk_nRefCnt (fst (OnRelease now hk)) = hk_nRefCnt hk - 1"
  by (simp_all add: OnAccess_def OnRelease_def Let_def)

lemma users_simps [simp]:
  "users [] n = 0" "users (c # live) n = users live n + (if tc_pStateObserver c = Some n then 1 else 0)"
  by (simp_all add: users_def)

lemma users_remove1: "c \<in> set live \<Longrightarrow> users (remove1 c live) n = users live n - (if tc_pStateObserver c = Some n then 1 else 0)"
  by (induction live) auto

text \<open>The counters follow the connections in use.\<close>

lemma access_inv:
  assumes "con_inv live w" "tc_pStateObserver c = ob"
  shows "con_inv (c # live) (cw_access ob w)"
  using assms by (auto simp: con_inv_def cw_access_def hook_counts split: option.splits)

lemma release_inv:
  assumes "con_inv live w" "c \<in> set live"
  shows "con_inv (remove1 c live) (cw_release now (tc_pStateObserver c) w)"
  using assms by (auto simp: con_inv_def cw_release_def users_remove1 hook_counts split: option.splits)

lemma con_inv_swap:
  assumes "con_inv live w" "c \<in> set live" "tc_pStateObserver c' = tc_pStateObserver c"
  shows "con_inv (c' # remove1 c live) w"
  using assms by (auto simp: con_inv_def users_remove1)

lemma con_inv_pool: "con_inv live w \<Longrightarrow> pool_inv es \<Longrightarrow> con_inv live (w\<lparr>cw_spareConPool := es\<rparr>)"
  by (simp add: con_inv_def)

lemma pool_take_spec:
  "pool_take key es = Some (c, rest) \<Longrightarrow> \<exists>t. (key, c, t) \<in> set es \<and> rest = remove1 (key, c, t) es"
  by (induction es arbitrary: rest) (auto split: if_splits)

lemma pool_inv_sublist:
  assumes "pool_inv es" "set es' \<subseteq> set es" "sorted (map fst es')" "length es' \<le> length es"
  shows "pool_inv es'"
  using assms by (auto simp: pool_inv_def)

lemma sorted_fst_remove1: "sorted (map fst es) \<Longrightarrow> sorted (map fst (remove1 e es))"
  by (induction es) (auto dest: set_remove1_subset [THEN subsetD])

lemma pool_inv_remove1: "pool_inv es \<Longrightarrow> pool_inv (remove1 e es)"
  using pool_inv_sublist [of es "remove1 e es"] sorted_fst_remove1 [of es e] set_remove1_subset [of e es]
  by (auto simp: pool_inv_def length_remove1)

lemma pool_inv_insert:
  assumes "pool_inv es" "length es < 50" "tc_pStateObserver c = None"
  shows "pool_inv (pool_insert (pool_key c) (c, t) es)"
proof -
  let ?P = "\<lambda>e. fst e \<le> pool_key c"
  have s: "sorted (map fst (takeWhile ?P es))" "sorted (map fst (dropWhile ?P es))"
    using assms(1) sorted_append [of "map fst (takeWhile ?P es)" "map fst (dropWhile ?P es)"]
    by (simp_all add: pool_inv_def map_append [symmetric] del: map_append)
  have "\<forall>e \<in> set (dropWhile ?P es). pool_key c \<le> fst e"
  proof (cases "dropWhile ?P es")
    case (Cons e es')
    then have "\<not> ?P e" using hd_dropWhile [of ?P es] by simp
    then show ?thesis using s(2) Cons by fastforce
  next
    case Nil
    show ?thesis unfolding Nil by simp
  qed
  moreover have "\<forall>e \<in> set (takeWhile ?P es). fst e \<le> pool_key c" by (auto dest: set_takeWhileD)
  ultimately have "sorted (map fst (pool_insert (pool_key c) (c, t) es))"
    using s by (auto simp: pool_insert_def sorted_append intro: order_trans)
  moreover have "set (pool_insert (pool_key c) (c, t) es) = insert (pool_key c, c, t) (set es)"
    using set_append [of "takeWhile ?P es" "dropWhile ?P es"] by (auto simp: pool_insert_def)
  moreover have "length (pool_insert (pool_key c) (c, t) es) = length es + 1"
    using length_append [of "takeWhile ?P es" "dropWhile ?P es"] by (metis (no_types, lifting) One_nat_def add_Suc_right add.right_neutral length_Cons length_append pool_insert_def takeWhile_dropWhile_id)
  ultimately show ?thesis using assms by (auto simp: pool_inv_def)
qed

lemma drop_readable_props:
  "set (drop_readable r rd es) \<subseteq> set es" "length (drop_readable r rd es) \<le> length es"
  "sorted (map fst es) \<Longrightarrow> sorted (map fst (drop_readable r rd es))"
  by (induction r rd es rule: drop_readable.induct) auto

lemma dtor_idle: "tc_pStateObserver c = None \<Longrightarrow> tcpconnect_dtor now c w = w"
  by (simp add: tcpconnect_dtor_def cw_release_def)

lemma fold_dtor_idle: "\<forall>(k, c, t) \<in> set es. tc_pStateObserver c = None \<Longrightarrow> fold (\<lambda>(k, c, t). tcpconnect_dtor now c) es w = w"
  by (induction es arbitrary: w) (auto simp: dtor_idle)

lemma StartTunnel_observer: "StartTunnel sent rs ssl_init tgt auth do_ssl c = Some (err, c') \<Longrightarrow> tc_pStateObserver c' = tc_pStateObserver c"
  by (auto simp: StartTunnel_def Let_def split: option.splits tunnel_res.splits if_splits)

lemma CreateConnected_cases:
  assumes "CreateConnected host port ob ssl nocache net w = (res, used, w')" "con_inv live w"
  shows "case res of Inr c \<Rightarrow> tc_sHostName c = host \<and> tc_nPort c = port \<and> tc_bio c = ssl \<and> tc_pStateObserver c = ob \<and> con_inv (c # live) w'
         | Inl err \<Rightarrow> con_inv live w'"
proof (cases "if nocache then None else pool_take (host, port, ssl) (cw_spareConPool w)")
  case (Some x)
  then obtain p rest where x: "x = (p, rest)" "pool_take (host, port, ssl) (cw_spareConPool w) = Some (p, rest)"
    by (cases x) (auto split: if_splits)
  obtain t where t: "((host, port, ssl), p, t) \<in> set (cw_spareConPool w)" "rest = remove1 ((host, port, ssl), p, t) (cw_spareConPool w)"
    using pool_take_spec [OF x(2)] by blast
  have p: "pool_key p = (host, port, ssl)" "tc_pStateObserver p = None"
    using t(1) assms(2) by (auto simp: con_inv_def pool_inv_def)
  let ?c = "if ob = None then p else p\<lparr>tc_pStateObserver := ob\<rparr>"
  have r: "res = Inr ?c" "w' = cw_access ob (w\<lparr>cw_spareConPool := rest\<rparr>)"
    using assms(1) Some x(1) by (simp_all add: CreateConnected_def)
  have "con_inv live (w\<lparr>cw_spareConPool := rest\<rparr>)"
    using assms(2) t(2) by (simp add: con_inv_def pool_inv_remove1)
  from access_inv [OF this, of ?c ob] p show ?thesis unfolding r by (auto simp: pool_key_def)
next
  case None
  then have f: "fresh_connection host port ob ssl net w = (res, w')"
    using assms(1) by (simp add: CreateConnected_def split: prod.splits)
  have a: "con_inv (c # live) (cw_access ob w)" if "tc_pStateObserver c = ob" for c using access_inv [OF assms(2) that] .
  let ?c = "\<lparr>tc_conFd = -1, tc_nPort = 0, tc_sHostName = [], tc_lastFile = None, tc_pStateObserver = ob, tc_bio = False\<rparr>"
  have "con_inv live (cw_release (ne_now net) ob (cw_access ob w))"
    using release_inv [OF a [of ?c], of ?c "ne_now net"] by simp
  then show ?thesis
    using f a by (auto simp: fresh_connection_def tcpconnect_new_def tcpconnect_dtor_def Let_def split: sum.splits if_splits option.splits)
qed

lemma Recycle_inv:
  assumes "con_inv live w" "c \<in> set live"
  shows "con_inv (remove1 c live) (RecycleIdleConnection persist now c w)"
proof -
  have r: "con_inv (remove1 c live) (cw_release now (tc_pStateObserver c) w)" by (rule release_inv [OF assms])
  let ?w = "cw_release now (tc_pStateObserver c) w" and ?h = "c\<lparr>tc_pStateObserver := None\<rparr>"
  have "pool_inv (pool_insert (pool_key ?h) (?h, now) (cw_spareConPool ?w))" if "length (cw_spareConPool ?w) < 50"
    using pool_inv_insert [of "cw_spareConPool ?w" ?h now] r that by (simp add: con_inv_def)
  then show ?thesis
    using r by (auto simp: RecycleIdleConnection_def Let_def dtor_idle con_inv_def pool_key_def)
qed

lemma con_step_inv: "con_step s s' \<Longrightarrow> con_inv (fst s) (snd s) \<Longrightarrow> con_inv (fst s') (snd s')"
proof (induction rule: con_step.induct)
  case (cs_open host port ob ssl nocache net w c used w' live)
  then show ?case using CreateConnected_cases [OF cs_open(1)] by auto
next
  case (cs_fail host port ob ssl nocache net w err used w' live)
  then show ?case using CreateConnected_cases [OF cs_fail(1)] by auto
next
  case (cs_tunnel c live sent rs ssl_init tgt auth do_ssl err c' w)
  then show ?case using con_inv_swap StartTunnel_observer by auto
next
  case (cs_cleanup now now2 r readable w t w' live)
  define kept where "kept = filter (\<lambda>(k, c, t). \<not> now \<ge> t + TIME_SOCKET_EXPIRE_CLOSE) (cw_spareConPool w)"
  define gone where "gone = filter (\<lambda>(k, c, t). now \<ge> t + TIME_SOCKET_EXPIRE_CLOSE) (cw_spareConPool w)"
  have "\<forall>(k, c, t) \<in> set gone. tc_pStateObserver c = None" using cs_cleanup(2) by (auto simp: con_inv_def pool_inv_def gone_def)
  then have w': "w' = w\<lparr>cw_spareConPool := drop_readable (nat r) readable kept\<rparr>"
    using cs_cleanup(1) fold_dtor_idle [of gone now w] by (simp add: pool_BackgroundCleanup_def Let_def kept_def gone_def)
  have k: "pool_inv kept" using cs_cleanup(2) by (auto simp: con_inv_def pool_inv_def kept_def sorted_filter intro: order_trans [OF length_filter_le])
  have "pool_inv (drop_readable (nat r) readable kept)"
    by (rule pool_inv_sublist [OF k drop_readable_props(1) drop_readable_props(3) drop_readable_props(2)]) (use k in \<open>simp add: pool_inv_def\<close>)
  then show ?case using cs_cleanup(2) w' con_inv_pool by simp
next
  case (cs_flush live w now)
  have "fold (\<lambda>(k, c, t). tcpconnect_dtor now c) (cw_spareConPool w) (w\<lparr>cw_spareConPool := []\<rparr>) = w\<lparr>cw_spareConPool := []\<rparr>"
    by (rule fold_dtor_idle) (use cs_flush in \<open>auto simp: con_inv_def pool_inv_def\<close>)
  then show ?case using cs_flush by (simp add: CloseAllCachedConnections_def con_inv_def pool_inv_def)
qed (simp_all add: Recycle_inv release_inv con_inv_swap tcpconnect_dtor_def)

lemma con_reach_inv: "con_reach s \<Longrightarrow> con_inv (fst s) (snd s)"
proof -
  assume "con_reach s"
  then obtain hooks where h: "\<forall>n hk. hooks n = Some hk \<longrightarrow> hk_nRefCnt hk = 0" and s: "con_step\<^sup>*\<^sup>* ([], con_world_new hooks) s"
    by (auto simp: con_reach_def)
  from s show ?thesis
  proof (induction rule: rtranclp_induct)
    case base
    then show ?case using h by (simp add: con_inv_def pool_inv_def con_world_new_def)
  next
    case (step y z)
    then show ?case by (blast intro: con_step_inv)
  qed
qed

section \<open>Properties\<close>

text \<open>
  C19. A connection that is handed out leads where it was asked for, with TLS exactly if that was
  asked for, and reports to the hooks of the repository it is used for, whether it is new or comes
  from the pool, and whatever was done with it before, tunnels included.
\<close>

theorem connection_fits_request:
  assumes "con_reach (live, w)" "CreateConnected host port ob ssl nocache net w = (Inr c, used, w')"
  shows "tc_sHostName c = host \<and> tc_nPort c = port \<and> tc_bio c = ssl \<and> tc_pStateObserver c = ob"
  using CreateConnected_cases [OF assms(2)] con_reach_inv [OF assms(1)] by simp

text \<open>
  C20. The usage counter of every repository is the number of connections that are in use for it:
  failed attempts, connections in the pool and closed ones do not count. The pool never holds more
  than 50 connections.
\<close>

theorem hooks_count_connections:
  assumes "con_reach (live, w)"
  shows "(\<forall>n hk. cw_hooks w n = Some hk \<longrightarrow> hk_nRefCnt hk = int (length (filter (\<lambda>c. tc_pStateObserver c = Some n) live))) \<and>
    length (cw_spareConPool w) \<le> 50"
  using con_reach_inv [OF assms] by (simp add: con_inv_def pool_inv_def users_def)

definition hook_demo :: tHookHandler where
  "hook_demo = \<lparr>hk_cmdRel = [], hk_cmdCon = [], hk_downDuration = 30, hk_downTimeNext = 0, hk_nRefCnt = 0\<rparr>"

definition net_demo :: net_ev where
  "net_demo = \<lparr>ne_now = 100, ne_connect = Inr 7, ne_SSLinit = None\<rparr>"

text \<open>A connection is opened, given back, and taken from the pool again.\<close>

definition con_demo :: tcpconnect where
  "con_demo = \<lparr>tc_conFd = 7, tc_nPort = 80, tc_sHostName = ''d.org'', tc_lastFile = None, tc_pStateObserver = Some ''deb'', tc_bio = False\<rparr>"

definition world_demo :: con_world where
  "world_demo = con_world_new [''deb'' \<mapsto> hook_demo]"

definition world_idle :: con_world where
  "world_idle = RecycleIdleConnection True 110 con_demo (cw_access (Some ''deb'') world_demo)"

lemma demo_open: "CreateConnected ''d.org'' 80 (Some ''deb'') False False net_demo world_demo = (Inr con_demo, False, cw_access (Some ''deb'') world_demo)"
  by (simp add: CreateConnected_def fresh_connection_def tcpconnect_new_def net_demo_def con_demo_def world_demo_def con_world_new_def)

lemma demo_reuse: "CreateConnected ''d.org'' 80 (Some ''deb'') False False net_demo world_idle =
    (Inr con_demo, True, cw_access (Some ''deb'') (world_idle\<lparr>cw_spareConPool := []\<rparr>))"
  by (simp add: CreateConnected_def world_idle_def RecycleIdleConnection_def con_demo_def world_demo_def con_world_new_def cw_release_def
      cw_access_def pool_insert_def Let_def)

lemma world_idle_reach: "con_reach ([], world_idle)"
proof -
  have "con_step ([], world_demo) ([con_demo], cw_access (Some ''deb'') world_demo)" by (rule cs_open [OF demo_open])
  moreover have "con_step ([con_demo], cw_access (Some ''deb'') world_demo) ([], world_idle)"
    using cs_recycle [of con_demo "[con_demo]" "cw_access (Some ''deb'') world_demo" True 110] by (simp add: world_idle_def)
  ultimately have "con_step\<^sup>*\<^sup>* ([], world_demo) ([], world_idle)" by simp
  then show ?thesis
    unfolding con_reach_def world_demo_def by (intro exI [of _ "[''deb'' \<mapsto> hook_demo]"]) (simp add: hook_demo_def)
qed

theorem connection_fits_request_witness:
  "case CreateConnected ''d.org'' 80 (Some ''deb'') False False net_demo world_idle of
     (Inr c, used, w) \<Rightarrow> used \<and> tc_sHostName c = ''d.org'' \<and> tc_pStateObserver c = Some ''deb'' | _ \<Rightarrow> False"
  using connection_fits_request [OF world_idle_reach demo_reuse] by (simp add: demo_reuse)

theorem hooks_count_connections_witness:
  "con_reach ([], world_idle) \<and> hk_nRefCnt (the (cw_hooks world_idle ''deb'')) = 0 \<and> length (cw_spareConPool world_idle) \<le> 50"
proof -
  obtain hk where "cw_hooks world_idle ''deb'' = Some hk"
    by (simp add: world_idle_def RecycleIdleConnection_def con_demo_def world_demo_def con_world_new_def cw_release_def cw_access_def Let_def)
  then show ?thesis using hooks_count_connections [OF world_idle_reach] world_idle_reach by simp
qed

end
