(* ===== verification/DlCon.thy ===== *)
theory DlCon
  imports ConPool DlJob Config
begin

text \<open>
  \<open>src/dlcon.h\<close> and the class \<open>CDlConn\<close> of \<open>src/dlcon.cc\<close>: the download agent. It takes jobs
  over from the clients, connects to mirrors or proxies, sends the requests of several jobs in a row,
  lets the job at the front of the pipeline process the response, and moves jobs back, drops them or
  blacklists mirrors after errors. Jobs refer to their file items by index; the items are in a store
  (\<open>kd_heap\<close>) with the file system.

  An index that is not in the store stands for no item; such a job is not accepted. The values of
  \<open>m_ctrl_hint\<close> and of the shutdown flag that a pass reads are part of its record, since other threads
  change them. The constructor is told whether the wake-up descriptor could be created.

  The calls of the operating system are results in the records \<open>xev\<close> (one pass of the inner loop) and
  \<open>wev\<close> (one pass of the outer loop). The speed limit only shortens the reads and is not modelled.
  \<open>kd_added\<close> and \<open>kd_ended\<close> record which jobs were accepted and how they ended; they serve the
  statements only.
\<close>

section \<open>State\<close>

record djob =
  kj_job :: tDlJob
  kj_item :: nat

datatype job_end = Finished | Broken | NoSource | Collision | Cleared | Stopped

record CDlConn =
  kd_new_jobs :: "djob list"
  kd_next_jobs :: "djob list"
  kd_active_jobs :: "djob list"
  kd_ctrl_hint :: int
  kd_lastCtrlMark :: int
  kd_blacklist :: "string \<Rightarrow> string option"
  kd_sendBuf :: string
  kd_inBuf :: string
  kd_nTempPipelineDisable :: int
  kd_bProxyTot :: bool
  kd_con :: "tcpconnect option"
  kd_bStopRequesting :: bool
  kd_bExpectRemoteClosing :: bool
  kd_nLostConTolerance :: int
  kd_sErrorMsg :: string
  kd_heap :: "nat \<Rightarrow> fileitem option"
  kd_fs :: fsys
  kd_world :: con_world
  kd_px :: proxy_state
  kd_added :: "nat list"
  kd_ended :: "(nat \<times> job_end) list"

record dlcon_cfg =
  kc_cf :: config
  kc_dl :: dl_cfg
  kc_hooks :: "tRepoData \<Rightarrow> string option"

abbreviation kc_int :: "dlcon_cfg \<Rightarrow> string \<Rightarrow> int" where "kc_int kc v \<equiv> cf_int (kc_cf kc) v"

definition has :: "hints \<Rightarrow> hints \<Rightarrow> bool" where
  "has res flag \<longleftrightarrow> res AND flag \<noteq> 0"

text \<open>Destruction of jobs: \<open>~tDlJob\<close> tells the item that its downloader is gone.\<close>

definition end_job :: "job_end \<Rightarrow> djob \<Rightarrow> CDlConn \<Rightarrow> CDlConn" where
  "end_job why d s =
     s\<lparr>kd_heap := (kd_heap s)(kj_item d := map_option (tDlJob_dtor (kj_job d)) (kd_heap s (kj_item d))),
       kd_ended := kd_ended s @ [(kj_item d, why)]\<rparr>"

definition AddJob :: "dlcon_cfg \<Rightarrow> bool \<Rightarrow> nat \<Rightarrow> tHttpUrl \<Rightarrow> bool \<Rightarrow> string \<Rightarrow> CDlConn \<Rightarrow> bool \<times> CDlConn" where
  "AddJob kc in_shutdown i src isPT extraHeaders s =
     (case kd_heap s i of
        None \<Rightarrow> (False, s)
      | Some fi \<Rightarrow>
          if kd_ctrl_hint s < 0 \<or> in_shutdown then (False, s)
          else (case tDlJob_url (kc_dl kc) fi src isPT extraHeaders of
                  (j, fi1) \<Rightarrow> (True, s\<lparr>kd_heap := (kd_heap s)(i \<mapsto> fi1), kd_new_jobs := kd_new_jobs s @ [\<lparr>kj_job = j, kj_item = i\<rparr>],
                                       kd_ctrl_hint := kd_ctrl_hint s + 1, kd_added := kd_added s @ [i]\<rparr>)))"

definition AddJob_repo :: "dlcon_cfg \<Rightarrow> bool \<Rightarrow> nat \<Rightarrow> repo_result \<Rightarrow> bool \<Rightarrow> string \<Rightarrow> CDlConn \<Rightarrow> bool \<times> CDlConn" where
  "AddJob_repo kc in_shutdown i repoSrc isPT extraHeaders s =
     (case kd_heap s i of
        None \<Rightarrow> (False, s)
      | Some fi \<Rightarrow>
          if kd_ctrl_hint s < 0 \<or> in_shutdown then (False, s)
          else if (case rr_repodata repoSrc of None \<Rightarrow> True | Some d \<Rightarrow> rd_backends d = []) then (False, s)
          else if rr_sRestPath repoSrc = [] then (False, s)
          else (case tDlJob_repo (kc_dl kc) fi (rr_sRestPath repoSrc) (rr_repodata repoSrc) isPT extraHeaders of
                  (j, fi1) \<Rightarrow> (True, s\<lparr>kd_heap := (kd_heap s)(i \<mapsto> fi1), kd_new_jobs := kd_new_jobs s @ [\<lparr>kj_job = j, kj_item = i\<rparr>],
                                       kd_ctrl_hint := kd_ctrl_hint s + 1, kd_added := kd_added s @ [i]\<rparr>)))"

definition SignalStop :: "CDlConn \<Rightarrow> CDlConn" where
  "SignalStop s = s\<lparr>kd_ctrl_hint := -1\<rparr>"

section \<open>Inner loop\<close>

datatype xsel = XErr bool bool string | XTimeout | XReady bool bool bool
datatype xread = XData string | XClosed | XFail string | XAgain

record xev =
  xe_select :: xsel
  xe_ctrl :: int
  xe_send :: "bool + nat"
  xe_read :: xread
  xe_env :: dl_env

datatype xres = XRet hints CDlConn | XWait CDlConn | XBlocked | XFault

datatype pres = PLoop CDlConn | PRet hints CDlConn | PBlocked | PFault

text \<open>\<open>ProcessIncomming\<close> of a job on the input buffer: the flags, the job and the state.\<close>

datatype jres = JRet hints djob CDlConn | JBlocked | JFault

definition process_job :: "dl_env \<Rightarrow> bool \<Rightarrow> djob \<Rightarrow> CDlConn \<Rightarrow> jres" where
  "process_job env bOnly d s =
     (case ProcessIncomming env bOnly (kj_job d) (kd_heap s (kj_item d)) (kd_fs s) (kd_inBuf s) of
        Some (DlRet res j fi fs b) \<Rightarrow>
          JRet res (d\<lparr>kj_job := j\<rparr>) (s\<lparr>kd_heap := (kd_heap s)(kj_item d \<mapsto> fi), kd_fs := fs, kd_inBuf := b\<rparr>)
      | Some (DlNoItem res j) \<Rightarrow> JRet res (d\<lparr>kj_job := j\<rparr>) s
      | Some DlFault \<Rightarrow> JFault
      | Some DlBlocked \<Rightarrow> JBlocked
      | None \<Rightarrow> JFault)"

text \<open>The redirection of the jobs behind the first one: the jobs, and whether all were redirected.\<close>

fun redirect_rest :: "dl_env \<Rightarrow> djob list \<Rightarrow> CDlConn \<Rightarrow> (bool \<times> djob list \<times> CDlConn) option" where
  "redirect_rest env [] s = Some (True, [], s)"
| "redirect_rest env (d # ds) s =
     (case process_job env True d s of
        JRet rr d1 s1 \<Rightarrow>
          if rr \<noteq> HINT_TGTCHANGE then Some (False, d1 # ds, s1)
          else map_option (\<lambda>(ok, ds1, s2). (ok, d1 # ds1, s2)) (redirect_rest env ds s1)
      | _ \<Rightarrow> None)"

definition target_change :: "dl_env \<Rightarrow> djob \<Rightarrow> djob list \<Rightarrow> CDlConn \<Rightarrow> pres" where
  "target_change env d rest s =
     (case redirect_rest env rest s of
        None \<Rightarrow> PFault
      | Some (ok, rest1, s1) \<Rightarrow>
          let s2 = s1\<lparr>kd_active_jobs := d # rest1\<rparr> in
          if \<not> ok then PRet (HINT_TGTCHANGE OR HINT_RECONNECT_NOW) (s2\<lparr>kd_nTempPipelineDisable := 30\<rparr>)
          else PRet (HINT_TGTCHANGE OR (if kd_inBuf s2 = [] then 0 else HINT_RECONNECT_NOW)) s2)"

text \<open>\<open>con->KnowLastFile\<close> and \<open>con->KillLastFile\<close>.\<close>

definition know_last :: "nat \<Rightarrow> CDlConn \<Rightarrow> CDlConn" where
  "know_last i s = s\<lparr>kd_con := map_option (\<lambda>c. c\<lparr>tc_lastFile := Some i\<rparr>) (kd_con s)\<rparr>"

definition kill_last :: "CDlConn \<Rightarrow> CDlConn" where
  "kill_last s = (case kd_con s of Some c \<Rightarrow> s\<lparr>kd_heap := KillLastFile (kd_heap s) c\<rparr> | None \<Rightarrow> s)"

text \<open>The loop over the input buffer, for the jobs in the pipeline.\<close>

fun proc_loop :: "dl_env \<Rightarrow> djob list \<Rightarrow> CDlConn \<Rightarrow> pres" where
  "proc_loop env [] s = PRet HINT_DONE (s\<lparr>kd_active_jobs := []\<rparr>)"
| "proc_loop env (d # ds) s =
     (if kd_inBuf s = [] then PRet HINT_DONE (s\<lparr>kd_active_jobs := d # ds\<rparr>)
      else case process_job env False d s of
             JBlocked \<Rightarrow> PBlocked
           | JFault \<Rightarrow> PFault
           | JRet res d1 s0 \<Rightarrow>
               let s1 = s0\<lparr>kd_active_jobs := d1 # ds\<rparr> in
               if res = HINT_MORE then PLoop s1
               else if has res HINT_DONE then
                 (let s2 = (end_job Finished d1 (know_last (kj_item d1) s1))\<lparr>kd_active_jobs := ds\<rparr> in
                  if has res HINT_RECONNECT_NOW then PRet HINT_RECONNECT_NOW s2
                  else if ds = [] then PRet HINT_SWITCH s2
                  else proc_loop env ds s2)
               else if has res HINT_TGTCHANGE then target_change env d1 ds s1
               else
                 let s2 = (if has res HINT_KILL_LAST_FILE then kill_last s1 else s1) in
                 PRet res (if kd_sErrorMsg s2 = [] then s2\<lparr>kd_sErrorMsg := dj_sErrorMsg (kj_job d1)\<rparr> else s2))"

definition proc_data :: "dl_env \<Rightarrow> CDlConn \<Rightarrow> pres" where
  "proc_data env s =
     (if kd_active_jobs s = [] then PRet EFLAG_LOST_CON (s\<lparr>kd_sErrorMsg := ''Unexpected data''\<rparr>)
      else proc_loop env (kd_active_jobs s) s)"

text \<open>
  One pass with \<open>select\<close>. \<open>XErr\<close>: whether the error is \<open>EINTR\<close>, \<open>EBADF\<close>, and its text. \<open>XReady\<close>:
  the wake-up descriptor, the socket for writing, the socket for reading. A failing \<open>send\<close> is \<open>Inl\<close>,
  with \<open>True\<close> for \<open>EAGAIN\<close> and \<open>EINTR\<close>; on a TLS connection it is not noticed.
\<close>

definition send_part :: "xev \<Rightarrow> bool \<Rightarrow> CDlConn \<Rightarrow> bool \<times> CDlConn" where
  "send_part e writable s =
     (case kd_con s of
        None \<Rightarrow> (True, s)
      | Some c \<Rightarrow>
          if \<not> (writable \<and> kd_sendBuf s \<noteq> []) then (True, s)
          else case xe_send e of
                 Inr n \<Rightarrow> (True, s\<lparr>kd_sendBuf := drop n (kd_sendBuf s)\<rparr>)
               | Inl again \<Rightarrow> if tc_bio c \<or> again then (True, s) else (False, s\<lparr>kd_sErrorMsg := ''Send failed''\<rparr>))"

definition exchange_pass :: "xev \<Rightarrow> CDlConn \<Rightarrow> pres" where
  "exchange_pass e s =
     (if xe_ctrl e < 0 then PRet HINT_RECONNECT_NOW s
      else case xe_select e of
             XErr eintr ebadf msg \<Rightarrow>
               if eintr then PLoop s
               else if ebadf then PRet HINT_RECONNECT_NOW s
               else PRet (HINT_RECONNECT_NOW OR EFLAG_JOB_BROKEN OR EFLAG_MIRROR_BROKEN)
                      (s\<lparr>kd_sErrorMsg := ''Internal malfunction, '' @ msg\<rparr>)
           | XTimeout \<Rightarrow>
               let s1 = s\<lparr>kd_sErrorMsg := ''Connection timeout''\<rparr> in
               if kd_active_jobs s = [] then PRet HINT_SWITCH s1 else PRet (HINT_RECONNECT_NOW OR EFLAG_JOB_BROKEN) s1
           | XReady wake writable readable \<Rightarrow>
               if wake then PRet HINT_SWITCH s
               else case send_part e writable s of
                      (False, s1) \<Rightarrow> PRet EFLAG_LOST_CON s1
                    | (True, s1) \<Rightarrow>
                        if kd_con s1 = None \<or> \<not> readable then PLoop s1
                        else (case xe_read e of
                                XAgain \<Rightarrow> PLoop s1
                              | XClosed \<Rightarrow> PRet EFLAG_LOST_CON (s1\<lparr>kd_sErrorMsg := ''Connection closed, check DlMaxRetries''\<rparr>)
                              | XFail msg \<Rightarrow> PRet EFLAG_LOST_CON (s1\<lparr>kd_sErrorMsg := msg\<rparr>)
                              | XData d \<Rightarrow> proc_data (xe_env e) (s1\<lparr>kd_inBuf := kd_inBuf s1 @ d\<rparr>)))"

fun exchange_loop :: "xev list \<Rightarrow> CDlConn \<Rightarrow> xres" where
  "exchange_loop [] s = XWait s"
| "exchange_loop (e # es) s =
     (case exchange_pass e s of
        PLoop s1 \<Rightarrow> exchange_loop es s1
      | PRet r s1 \<Rightarrow> XRet r s1
      | PBlocked \<Rightarrow> XBlocked
      | PFault \<Rightarrow> XFault)"

text \<open>\<open>ExchangeData\<close>: bytes that are still in the buffer are processed before the first \<open>select\<close>.\<close>

definition ExchangeData :: "dl_env \<Rightarrow> xev list \<Rightarrow> CDlConn \<Rightarrow> xres" where
  "ExchangeData env es s0 =
     (let s = (if kd_active_jobs s0 = [] then s0\<lparr>kd_inBuf := []\<rparr> else s0) in
      if kd_inBuf s = [] then exchange_loop es s
      else case proc_data env s of
             PLoop s1 \<Rightarrow> exchange_loop es s1
           | PRet r s1 \<Rightarrow> XRet r s1
           | PBlocked \<Rightarrow> XBlocked
           | PFault \<Rightarrow> XFault)"

section \<open>Outer loop\<close>

record wev =
  we_ctrl :: int
  we_in_shutdown :: bool
  we_now :: time_t
  we_net :: net_ev
  we_net_direct :: net_ev
  we_tunnel :: "string option \<times> (string + string) list \<times> string option"
  we_cmd_fails :: "string \<Rightarrow> bool"
  we_readable :: bool
  we_env :: dl_env
  we_exchange :: "xev list"
  we_in_shutdown_after :: bool

definition BlacklistMirror :: "tDlJob \<Rightarrow> CDlConn \<Rightarrow> CDlConn" where
  "BlacklistMirror j s = s\<lparr>kd_blacklist := (kd_blacklist s)(GetHostPortKey (GetPeerHost j) \<mapsto> kd_sErrorMsg s)\<rparr>"

definition prefProxy :: "dlcon_cfg \<Rightarrow> wev \<Rightarrow> tDlJob \<Rightarrow> CDlConn \<Rightarrow> tHttpUrl option \<times> CDlConn" where
  "prefProxy kc e cjob s =
     (if kd_bProxyTot s then (None, s)
      else case (case dj_pRepoDesc cjob of Some d \<Rightarrow> rd_pProxy d | None \<Rightarrow> None) of
             Some p \<Rightarrow>
               if sHost p \<noteq> [] then (Some p, s)
               else (case GetProxyInfo (kc_cf kc) (we_now e) (we_cmd_fails e) (kd_px s) of (r, px) \<Rightarrow> (r, s\<lparr>kd_px := px\<rparr>))
           | None \<Rightarrow> (case GetProxyInfo (kc_cf kc) (we_now e) (we_cmd_fails e) (kd_px s) of (r, px) \<Rightarrow> (r, s\<lparr>kd_px := px\<rparr>)))"

text \<open>The jobs that can be set up; the others are destroyed with an error message.\<close>

fun setup_jobs :: "djob list \<Rightarrow> CDlConn \<Rightarrow> djob list \<times> CDlConn" where
  "setup_jobs [] s = ([], s)"
| "setup_jobs (d # ds) s =
     (case SetupJobConfig (kd_blacklist s) (kd_sErrorMsg s) (kj_job d) of
        (ok, msg, j) \<Rightarrow>
          let s1 = s\<lparr>kd_sErrorMsg := msg\<rparr> in
          if ok then (case setup_jobs ds s1 of (ds1, s2) \<Rightarrow> (d\<lparr>kj_job := j\<rparr> # ds1, s2))
          else setup_jobs ds (end_job NoSource
                 (d\<lparr>kj_job := (if dj_sErrorMsg j = []
                                  then j\<lparr>dj_sErrorMsg := (if msg = [] then ''Broken mirror or incorrect configuration'' else msg)\<rparr>
                                  else j)\<rparr>) s1))"

definition tracker :: "dlcon_cfg \<Rightarrow> tDlJob \<Rightarrow> string option" where
  "tracker kc j = (case dj_pRepoDesc j of Some d \<Rightarrow> kc_hooks kc d | None \<Rightarrow> None)"

definition doconnect :: "dlcon_cfg \<Rightarrow> tHttpUrl \<Rightarrow> net_ev \<Rightarrow> CDlConn \<Rightarrow> tcpconnect option \<times> bool \<times> CDlConn" where
  "doconnect kc tgt net s0 =
     (let reset = map (\<lambda>d. d\<lparr>kj_job := ResetStreamState (kj_job d)\<rparr>);
          s = s0\<lparr>kd_bExpectRemoteClosing := False, kd_active_jobs := reset (kd_active_jobs s0), kd_next_jobs := reset (kd_next_jobs s0)\<rparr>
      in case CreateConnected (sHost tgt) (GetPort tgt) (tracker kc (kj_job (hd (kd_next_jobs s)))) (bSSL tgt) False net (kd_world s) of
           (Inr c, used, w) \<Rightarrow> (Some c, used, s\<lparr>kd_world := w\<rparr>)
         | (Inl err, used, w) \<Rightarrow> (None, used, s\<lparr>kd_world := w, kd_sErrorMsg := err\<rparr>))"

definition close_con :: "time_t \<Rightarrow> CDlConn \<Rightarrow> CDlConn" where
  "close_con now s =
     (case kd_con s of None \<Rightarrow> s | Some c \<Rightarrow> s\<lparr>kd_con := None, kd_world := tcpconnect_dtor now c (kd_world s)\<rparr>)"

definition recycle_con :: "dlcon_cfg \<Rightarrow> time_t \<Rightarrow> CDlConn \<Rightarrow> CDlConn" where
  "recycle_con kc now s =
     (case kd_con s of
        None \<Rightarrow> s
      | Some c \<Rightarrow> s\<lparr>kd_con := None, kd_world := RecycleIdleConnection (dc_persistoutgoing (kc_dl kc)) now c (kd_world s)\<rparr>)"

text \<open>
  The connection for the first job: directly, through a proxy, or through a tunnel; directly again if
  the proxy is optional and failed. \<open>None\<close>: the tunnel is still being set up.
\<close>

definition through_proxy :: "dlcon_cfg \<Rightarrow> wev \<Rightarrow> tHttpUrl \<Rightarrow> tHttpUrl \<Rightarrow> CDlConn \<Rightarrow> (tcpconnect option \<times> bool \<times> CDlConn) option" where
  "through_proxy kc e proxy peer s =
     (case doconnect kc proxy (we_net e) s of
        (None, used, s1) \<Rightarrow> Some (None, used, s1)
      | (Some c, used, s1) \<Rightarrow>
          if \<not> bSSL peer then Some (Some c, used, s1)
          else (case we_tunnel e of
                  (sent, rs, ssl_init) \<Rightarrow>
                    (case StartTunnel sent rs ssl_init peer (sUserPass proxy) True c of
                       None \<Rightarrow> None
                     | Some (None, c1) \<Rightarrow> Some (Some c1, used, s1)
                     | Some (Some err, c1) \<Rightarrow>
                         Some (None, used, s1\<lparr>kd_sErrorMsg := err, kd_world := tcpconnect_dtor (we_now e) c1 (kd_world s1)\<rparr>))))"

definition open_con :: "dlcon_cfg \<Rightarrow> wev \<Rightarrow> CDlConn \<Rightarrow> (tcpconnect option \<times> bool \<times> CDlConn) option" where
  "open_con kc e s0 =
     (let cjob = kj_job (hd (kd_next_jobs s0)); peer = GetPeerHost cjob in
      case prefProxy kc e cjob s0 of
        (None, s) \<Rightarrow> Some (doconnect kc peer (we_net e) s)
      | (Some proxy, s) \<Rightarrow>
          (case through_proxy kc e proxy peer s of
             None \<Rightarrow> None
           | Some (None, used, s1) \<Rightarrow>
               if kc_int kc ''optproxytimeout'' > 0
               then Some (doconnect kc peer (we_net_direct e) (s1\<lparr>kd_bProxyTot := True, kd_px := MarkProxyFailure (kc_cf kc) (kd_px s1)\<rparr>))
               else Some (None, used, s1)
           | ok \<Rightarrow> ok))"

text \<open>What the first half of a pass leads to: the next pass, the exchange of data, or the end of the thread.\<close>

datatype whead = WNext CDlConn | WSelect CDlConn | WEnd CDlConn | WBlocked

definition clear_active :: "CDlConn \<Rightarrow> CDlConn" where
  "clear_active s = fold (end_job Cleared) (kd_active_jobs s) (s\<lparr>kd_active_jobs := []\<rparr>)"

datatype wcon = ConReady CDlConn | ConNext CDlConn | ConSelect CDlConn | ConBlocked

definition connect_phase :: "dlcon_cfg \<Rightarrow> wev \<Rightarrow> CDlConn \<Rightarrow> wcon" where
  "connect_phase kc e s0 =
     (let s1 = (clear_active (s0\<lparr>kd_sendBuf := [], kd_inBuf := []\<rparr>))\<lparr>kd_bStopRequesting := False\<rparr> in
      case setup_jobs (kd_next_jobs s1) s1 of
        (js, s2) \<Rightarrow>
          let s3 = s2\<lparr>kd_next_jobs := js\<rparr> in
          if js = [] then ConSelect s3
          else case open_con kc e s3 of
                 None \<Rightarrow> ConBlocked
               | Some (Some c, used, s4) \<Rightarrow>
                   if used \<and> we_readable e then ConNext (s4\<lparr>kd_world := tcpconnect_dtor (we_now e) c (kd_world s4)\<rparr>)
                   else ConReady (s4\<lparr>kd_con := Some c\<rparr>)
               | Some (None, used, s4) \<Rightarrow> ConNext (BlacklistMirror (kj_job (hd (kd_next_jobs s4))) s4))"

text \<open>Does the connection fit the job? The proxy is only given if the request is to be sent to it.\<close>

definition con_matches :: "dlcon_cfg \<Rightarrow> wev \<Rightarrow> tDlJob \<Rightarrow> tcpconnect \<Rightarrow> CDlConn \<Rightarrow> bool \<times> tHttpUrl option \<times> CDlConn" where
  "con_matches kc e j c s =
     (let tgt = GetPeerHost j in
      if sHost tgt = tc_sHostName c \<and> (GetPort tgt = tc_nPort c \<or> tc_nPort c = 0) then (True, None, s)
      else case prefProxy kc e j s of
             (None, s1) \<Rightarrow> (False, None, s1)
           | (Some p, s1) \<Rightarrow> (\<not> bSSL tgt \<and> sHost p = tc_sHostName c \<and> GetPort p = tc_nPort c, Some p, s1))"

text \<open>The loop that sends requests and moves their jobs into the pipeline.\<close>

fun request_loop :: "dlcon_cfg \<Rightarrow> wev \<Rightarrow> tcpconnect \<Rightarrow> djob list \<Rightarrow> CDlConn \<Rightarrow> CDlConn" where
  "request_loop kc e c [] s = s\<lparr>kd_next_jobs := []\<rparr>"
| "request_loop kc e c (d # ds) s =
     (if kd_bStopRequesting s \<or> \<not> int (length (kd_active_jobs s)) \<le> kc_int kc ''pipelinelen''
      then s\<lparr>kd_next_jobs := d # ds\<rparr>
      else case SetupJobConfig (kd_blacklist s) (kd_sErrorMsg s) (kj_job d) of
             (ok, msg, j) \<Rightarrow>
               let s1 = s\<lparr>kd_sErrorMsg := msg\<rparr>; d1 = d\<lparr>kj_job := j\<rparr> in
               if \<not> ok then request_loop kc e c ds (end_job NoSource d1 s1)
               else case con_matches kc e j c s1 of
                      (False, _, s2) \<Rightarrow> s2\<lparr>kd_next_jobs := d1 # ds, kd_bStopRequesting := True\<rparr>
                    | (True, proxy, s2) \<Rightarrow>
                        (case kd_heap s2 (kj_item d) of
                           None \<Rightarrow> s2\<lparr>kd_next_jobs := d1 # ds\<rparr>
                         | Some fi \<Rightarrow>
                             (case AppendRequest (kc_dl kc) (kd_sendBuf s2) proxy fi j of
                                (buf, j1) \<Rightarrow>
                                  let s3 = s2\<lparr>kd_sendBuf := buf, kd_active_jobs := kd_active_jobs s2 @ [d1\<lparr>kj_job := j1\<rparr>]\<rparr> in
                                  if kd_nTempPipelineDisable s3 > 0
                                  then s3\<lparr>kd_next_jobs := ds, kd_bStopRequesting := True, kd_nTempPipelineDisable := kd_nTempPipelineDisable s3 - 1\<rparr>
                                  else request_loop kc e c ds s3)))"

definition take_new_jobs :: "CDlConn \<Rightarrow> CDlConn" where
  "take_new_jobs s =
     (if kd_ctrl_hint s \<noteq> kd_lastCtrlMark s
      then s\<lparr>kd_lastCtrlMark := kd_ctrl_hint s, kd_next_jobs := kd_new_jobs s @ kd_next_jobs s, kd_new_jobs := []\<rparr> else s)"

definition stop_thread :: "CDlConn \<Rightarrow> CDlConn" where
  "stop_thread s = fold (end_job Stopped) (kd_next_jobs s @ kd_active_jobs s) (s\<lparr>kd_next_jobs := [], kd_active_jobs := []\<rparr>)"

definition work_head :: "dlcon_cfg \<Rightarrow> wev \<Rightarrow> CDlConn \<Rightarrow> whead" where
  "work_head kc e s0 =
     (if (kd_ctrl_hint s0 < 0 \<or> we_in_shutdown e) \<and> kd_active_jobs s0 = [] then WEnd (stop_thread (recycle_con kc (we_now e) s0))
      else
        let s = take_new_jobs s0 in
        if kd_next_jobs s = [] \<and> kd_active_jobs s = [] then WSelect s
        else case kd_con s of
               Some c \<Rightarrow> WSelect (request_loop kc e c (kd_next_jobs s) s)
             | None \<Rightarrow>
                 (case connect_phase kc e s of
                    ConBlocked \<Rightarrow> WBlocked
                  | ConNext s1 \<Rightarrow> WNext s1
                  | ConSelect s1 \<Rightarrow> WSelect s1
                  | ConReady s1 \<Rightarrow> WSelect (request_loop kc e (the (kd_con s1)) (kd_next_jobs s1) s1)))"

text \<open>The second half of a pass: what the flags of \<open>ExchangeData\<close> ask for.\<close>

definition move_back :: "CDlConn \<Rightarrow> CDlConn" where
  "move_back s = s\<lparr>kd_next_jobs := kd_active_jobs s @ kd_next_jobs s, kd_active_jobs := []\<rparr>"

definition being_stored :: "CDlConn \<Rightarrow> djob \<Rightarrow> bool" where
  "being_stored s d \<longleftrightarrow> (case kd_heap s (kj_item d) of Some fi \<Rightarrow> fi_status fi \<ge> FIST_DLRECEIVING | None \<Rightarrow> False)"

fun drop_stored :: "djob list \<Rightarrow> CDlConn \<Rightarrow> djob list \<times> CDlConn" where
  "drop_stored [] s = ([], s)"
| "drop_stored (d # ds) s =
     (if being_stored s d then drop_stored ds (end_job Collision d s)
      else case drop_stored ds s of (ds1, s1) \<Rightarrow> (d # ds1, s1))"

definition drop_collisions :: "CDlConn \<Rightarrow> CDlConn" where
  "drop_collisions s =
     (case drop_stored (kd_active_jobs s) s of
        (as, s1) \<Rightarrow> (case drop_stored (kd_next_jobs s1) (s1\<lparr>kd_active_jobs := as\<rparr>) of
                       (ns, s2) \<Rightarrow> s2\<lparr>kd_next_jobs := ns\<rparr>))"

definition job_broken :: "hints \<Rightarrow> CDlConn \<Rightarrow> CDlConn" where
  "job_broken loopRes s =
     (case kd_active_jobs s of
        [] \<Rightarrow> s
      | d # ds \<Rightarrow>
          let d1 = (if dj_sErrorMsg (kj_job d) = [] then d\<lparr>kj_job := (kj_job d)\<lparr>dj_sErrorMsg := kd_sErrorMsg s\<rparr>\<rparr> else d);
              s1 = end_job Broken d1 (s\<lparr>kd_active_jobs := ds\<rparr>)
          in if has loopRes EFLAG_STORE_COLLISION then drop_collisions s1 else s1)"

definition lost_con :: "dlcon_cfg \<Rightarrow> wev \<Rightarrow> hints \<Rightarrow> CDlConn \<Rightarrow> hints \<times> CDlConn" where
  "lost_con kc e loopRes s =
     (case kd_active_jobs s of
        [] \<Rightarrow> (loopRes, s)
      | d # ds \<Rightarrow>
          let tol = kd_nLostConTolerance s - 1;
              s1 = (if kd_bExpectRemoteClosing s then s
                    else if tol \<le> 0 then (BlacklistMirror (kj_job d) s)\<lparr>kd_nLostConTolerance := kc_int kc ''dlretriesmax''\<rparr>
                    else s\<lparr>kd_nLostConTolerance := tol\<rparr>);
              s2 = close_con (we_now e) s1
          in if has loopRes HINT_DONE then (loopRes, s2)
             else if dc_vrangeops (kc_dl kc) \<le> 0 \<and> spa_bVolatile (dj_fiAttr (kj_job d)) then (loopRes OR EFLAG_JOB_BROKEN, s2)
             else (loopRes, s2\<lparr>kd_active_jobs := d\<lparr>kj_job := (kj_job d)\<lparr>dj_DlState := STATE_GETHEADER\<rparr>\<rparr> # ds\<rparr>))"

definition all_err :: hints where
  "all_err = HINT_RECONNECT_NOW OR HINT_RECONNECT_SOON OR EFLAG_JOB_BROKEN OR EFLAG_LOST_CON OR EFLAG_MIRROR_BROKEN"

datatype wtail = WGo CDlConn | WDone CDlConn

definition work_tail :: "dlcon_cfg \<Rightarrow> wev \<Rightarrow> hints \<Rightarrow> CDlConn \<Rightarrow> wtail" where
  "work_tail kc e loopRes s0 =
     (let s1 = s0\<lparr>kd_bExpectRemoteClosing := (kd_bExpectRemoteClosing s0 \<or> has loopRes HINT_RECONNECT_SOON)\<rparr> in
      if we_ctrl e < 0 \<or> we_in_shutdown_after e then WDone (stop_thread (close_con (we_now e) s1))
      else
        let s2 = (if kd_active_jobs s1 = [] then s1\<lparr>kd_bStopRequesting := False\<rparr> else s1) in
        if kd_active_jobs s1 = [] \<and> kd_con s2 \<noteq> None \<and> \<not> has loopRes all_err then WGo (recycle_con kc (we_now e) s2)
        else
          let s3 = (if has loopRes (HINT_RECONNECT_NOW OR EFLAG_LOST_CON) then (close_con (we_now e) s2)\<lparr>kd_inBuf := [], kd_sendBuf := []\<rparr> else s2) in
          if has loopRes HINT_TGTCHANGE then WGo (move_back (recycle_con kc (we_now e) s3))
          else
            let (res, s4) = (if has loopRes EFLAG_LOST_CON then lost_con kc e loopRes s3 else (loopRes, s3)) in
            if has res (HINT_DONE OR HINT_MORE) then WGo (s4\<lparr>kd_sErrorMsg := []\<rparr>)
            else if res = HINT_SWITCH then WGo s4
            else
              let s5 = (case kd_active_jobs s4 of d # _ \<Rightarrow> if has res EFLAG_MIRROR_BROKEN then BlacklistMirror (kj_job d) s4 else s4 | [] \<Rightarrow> s4);
                  s6 = (if has res EFLAG_JOB_BROKEN then job_broken res s5 else s5)
              in WGo (move_back s6))"

text \<open>One pass of \<open>WorkLoop\<close>; \<open>WkWait\<close>: it waits for the network.\<close>

datatype wres = WkGo CDlConn | WkEnd CDlConn | WkWait CDlConn | WkBlocked | WkFault

definition work_step :: "dlcon_cfg \<Rightarrow> wev \<Rightarrow> CDlConn \<Rightarrow> wres" where
  "work_step kc e s =
     (case work_head kc e s of
        WNext s1 \<Rightarrow> WkGo s1
      | WEnd s1 \<Rightarrow> WkEnd s1
      | WBlocked \<Rightarrow> WkBlocked
      | WSelect s1 \<Rightarrow>
          (case ExchangeData (we_env e) (we_exchange e) s1 of
             XWait s2 \<Rightarrow> WkWait s2
           | XBlocked \<Rightarrow> WkBlocked
           | XFault \<Rightarrow> WkFault
           | XRet r s2 \<Rightarrow> (case work_tail kc e r s2 of WGo s3 \<Rightarrow> WkGo s3 | WDone s3 \<Rightarrow> WkEnd s3)))"

section \<open>The exchange keeps the jobs\<close>

definition xrel :: "CDlConn \<Rightarrow> CDlConn \<Rightarrow> bool" where
  "xrel s s' \<longleftrightarrow>
     kd_new_jobs s' = kd_new_jobs s \<and> kd_next_jobs s' = kd_next_jobs s \<and> kd_added s' = kd_added s \<and>
     kd_blacklist s' = kd_blacklist s \<and> (kd_con s' = None \<longleftrightarrow> kd_con s = None) \<and>
     length (kd_active_jobs s') \<le> length (kd_active_jobs s) \<and>
     (\<exists>done. kd_ended s' = kd_ended s @ map (\<lambda>i. (i, Finished)) done \<and>
             map kj_item (kd_active_jobs s) = done @ map kj_item (kd_active_jobs s'))"

lemma xrel_refl [simp]: "xrel s s"
  by (auto simp: xrel_def)

lemma xrel_trans: "xrel a b \<Longrightarrow> xrel b c \<Longrightarrow> xrel a c"
  by (auto simp: xrel_def)

lemma xrel_frame [simp]:
  "xrel a (s\<lparr>kd_sErrorMsg := m\<rparr>) = xrel a s" "xrel a (s\<lparr>kd_inBuf := b\<rparr>) = xrel a s" "xrel a (s\<lparr>kd_sendBuf := b\<rparr>) = xrel a s"
  "xrel a (s\<lparr>kd_nTempPipelineDisable := n\<rparr>) = xrel a s" "xrel a (s\<lparr>kd_heap := h\<rparr>) = xrel a s" "xrel a (s\<lparr>kd_fs := f\<rparr>) = xrel a s"
  by (simp_all add: xrel_def)

lemma self_update: "\<exists>h f i. s = s\<lparr>kd_heap := h, kd_fs := f, kd_inBuf := i\<rparr>"
  by (intro exI [of _ "kd_heap s"] exI [of _ "kd_fs s"] exI [of _ "kd_inBuf s"]) simp

lemma process_job_frame:
  assumes "process_job env b d s = JRet res d1 s1"
  shows "kj_item d1 = kj_item d \<and> (\<exists>h f i. s1 = s\<lparr>kd_heap := h, kd_fs := f, kd_inBuf := i\<rparr>)"
  using assms self_update [of s] unfolding process_job_def by (auto split: option.splits dl_out.splits)

lemma redirect_rest_frame:
  assumes "redirect_rest env ds s = Some (ok, ds1, s1)"
  shows "map kj_item ds1 = map kj_item ds \<and> (\<exists>h f i. s1 = s\<lparr>kd_heap := h, kd_fs := f, kd_inBuf := i\<rparr>)"
  using assms
proof (induction ds arbitrary: s ok ds1 s1)
  case Nil
  then show ?case using self_update [of s] by auto
next
  case (Cons d ds)
  from Cons.prems obtain rr d1 s2 where p: "process_job env True d s = JRet rr d1 s2" by (auto split: jres.splits)
  note f = process_job_frame [OF p]
  show ?case
  proof (cases "rr = HINT_TGTCHANGE")
    case True
    then obtain ds2 where r: "redirect_rest env ds s2 = Some (ok, ds2, s1)" "ds1 = d1 # ds2" using Cons.prems p by auto
    from Cons.IH [OF r(1)] f r(2) show ?thesis by fastforce
  next
    case False
    then show ?thesis using Cons.prems p f by auto
  qed
qed

definition ended_clean :: "hints \<Rightarrow> bool" where
  "ended_clean r \<longleftrightarrow> r = HINT_DONE \<or> \<not> has r HINT_DONE"

text \<open>The outcome of the inner loop: the jobs are kept, and \<open>HINT_DONE\<close> comes without other flags.\<close>

definition pres_ok :: "CDlConn \<Rightarrow> pres \<Rightarrow> bool" where
  "pres_ok s p = (case p of PLoop s1 \<Rightarrow> xrel s s1 | PRet r s1 \<Rightarrow> xrel s s1 \<and> ended_clean r | _ \<Rightarrow> True)"

lemma pres_ok_simps [simp]:
  "pres_ok s (PLoop s1) = xrel s s1" "pres_ok s (PRet r s1) \<longleftrightarrow> xrel s s1 \<and> ended_clean r" "pres_ok s PBlocked" "pres_ok s PFault"
  by (simp_all add: pres_ok_def)

lemma pres_ok_trans: "xrel a b \<Longrightarrow> pres_ok b p \<Longrightarrow> pres_ok a p"
  by (cases p) (auto intro: xrel_trans)

lemma clean_flags:
  "ended_clean HINT_DONE" "ended_clean HINT_SWITCH" "ended_clean HINT_RECONNECT_NOW" "ended_clean EFLAG_LOST_CON"
  "ended_clean (HINT_TGTCHANGE OR HINT_RECONNECT_NOW)" "ended_clean (HINT_TGTCHANGE OR 0)" "ended_clean HINT_TGTCHANGE"
  "ended_clean (HINT_RECONNECT_NOW OR EFLAG_JOB_BROKEN OR EFLAG_MIRROR_BROKEN)" "ended_clean (HINT_RECONNECT_NOW OR EFLAG_JOB_BROKEN)"
  by (simp_all add: ended_clean_def has_def hint_defs)

lemma same_jobs_xrel:
  assumes "kd_active_jobs s = ds" "map kj_item ds1 = map kj_item ds"
  shows "xrel s (s\<lparr>kd_heap := h, kd_fs := f, kd_inBuf := i, kd_active_jobs := ds1\<rparr>)"
  using assms by (auto simp: xrel_def dest: map_eq_imp_length_eq)

lemma target_change_ok:
  assumes "kd_active_jobs s = d # ds"
  shows "pres_ok s (target_change env d ds s)"
proof (cases "redirect_rest env ds s")
  case None
  then show ?thesis by (simp add: target_change_def)
next
  case (Some x)
  then obtain ok ds1 s1 where x: "redirect_rest env ds s = Some (ok, ds1, s1)" by (cases x) auto
  from redirect_rest_frame [OF x] obtain h f i where "map kj_item ds1 = map kj_item ds" "s1 = s\<lparr>kd_heap := h, kd_fs := f, kd_inBuf := i\<rparr>" by blast
  then show ?thesis
    using same_jobs_xrel [OF assms, where ?ds1.0 = "d # ds1" and h = h and f = f and i = i] x by (auto simp: target_change_def clean_flags Let_def)
qed

lemma proc_loop_ok: "kd_active_jobs s = ds \<Longrightarrow> pres_ok s (proc_loop env ds s)"
proof (induction env ds s rule: proc_loop.induct)
  case (1 env s)
  then show ?case by (simp add: xrel_def clean_flags)
next
  case (2 env d ds s)
  show ?case
  proof (cases "kd_inBuf s = []")
    case True
    then show ?thesis using 2(2) by (simp add: xrel_def clean_flags)
  next
    case ne: False
    show ?thesis
    proof (cases "process_job env False d s")
      case (JRet res d1 s0)
      obtain h f i where f: "kj_item d1 = kj_item d" "s0 = s\<lparr>kd_heap := h, kd_fs := f, kd_inBuf := i\<rparr>" using process_job_frame [OF JRet] by blast
      define s1 where "s1 = s0\<lparr>kd_active_jobs := d1 # ds\<rparr>"
      have x1: "xrel s s1" using same_jobs_xrel [OF 2(2), where ?ds1.0 = "d1 # ds" and h = h and f = f and i = i] f by (simp add: s1_def)
      define s2 where "s2 = (end_job Finished d1 (know_last (kj_item d1) s1))\<lparr>kd_active_jobs := ds\<rparr>"
      have "xrel s1 s2" by (auto simp: s2_def s1_def xrel_def end_job_def know_last_def)
      then have x2: "xrel s s2" using x1 xrel_trans by blast
      have k: "xrel s (kill_last s1)" using x1 by (simp add: kill_last_def split: option.splits)
      note S = proc_loop.simps(2) [of env d ds s, unfolded JRet jres.case Let_def, folded s1_def, folded s2_def]
      show ?thesis
      proof (cases "res = HINT_MORE")
        case True
        then show ?thesis unfolding S using ne x1 by simp
      next
        case nm: False
        show ?thesis
        proof (cases "has res HINT_DONE")
          case True
          have "pres_ok s (proc_loop env ds s2)" if "\<not> has res HINT_RECONNECT_NOW" "ds \<noteq> []"
          proof -
            have "kd_active_jobs s2 = ds" by (simp add: s2_def)
            with 2(1) [OF ne JRet s1_def nm True s2_def that] x2 pres_ok_trans show ?thesis by blast
          qed
          then show ?thesis unfolding S using ne nm True x2 by (simp add: clean_flags)
        next
          case False
          have "pres_ok s (target_change env d1 ds s1)" by (rule pres_ok_trans [OF x1 target_change_ok]) (simp add: s1_def)
          then show ?thesis unfolding S using ne nm False x1 k by (simp add: ended_clean_def)
        qed
      qed
    qed (use ne in simp_all)
  qed
qed

lemma proc_data_ok: "pres_ok s (proc_data env s)"
  by (simp add: proc_data_def proc_loop_ok clean_flags)

lemma send_part_xrel: "send_part e w s = (ok, s1) \<Longrightarrow> xrel s s1"
  by (auto simp: send_part_def split: option.splits if_splits sum.splits)

lemma exchange_pass_ok: "pres_ok s (exchange_pass e s)"
proof -
  have "pres_ok s (proc_data (xe_env e) (s1\<lparr>kd_inBuf := b\<rparr>))" if "xrel s s1" for s1 b
    by (rule pres_ok_trans [OF _ proc_data_ok]) (simp add: that)
  then show ?thesis
    by (auto simp: exchange_pass_def clean_flags Let_def split: xsel.splits prod.splits bool.splits xread.splits dest: send_part_xrel)
qed

lemma ExchangeData_ok:
  assumes "ExchangeData env es s = XRet r s1"
  shows "xrel s s1 \<and> ended_clean r"
proof -
  have loop: "exchange_loop es a = XRet r s1 \<Longrightarrow> xrel s a \<Longrightarrow> ?thesis" for a
  proof (induction es arbitrary: a)
    case (Cons e es)
    then show ?case using exchange_pass_ok [of a e] by (auto split: pres.splits intro: xrel_trans)
  qed simp
  let ?s = "if kd_active_jobs s = [] then s\<lparr>kd_inBuf := []\<rparr> else s"
  have x: "xrel s ?s" by simp
  show ?thesis
    using assms loop [OF _ x] loop x proc_data_ok [of ?s env]
    by (auto simp: ExchangeData_def Let_def split: if_splits pres.splits intro: xrel_trans)
qed

section \<open>No job gets lost\<close>

definition job_items :: "djob list \<Rightarrow> nat multiset" where
  "job_items ds = mset (map kj_item ds)"

definition accounted :: "CDlConn \<Rightarrow> bool" where
  "accounted s \<longleftrightarrow>
     mset (kd_added s) = job_items (kd_new_jobs s) + job_items (kd_next_jobs s) + job_items (kd_active_jobs s) + mset (map fst (kd_ended s)) \<and>
     (\<forall>x\<in>set (kd_ended s). snd x \<noteq> Cleared)"

definition dl_inv :: "dlcon_cfg \<Rightarrow> CDlConn \<Rightarrow> bool" where
  "dl_inv kc s \<longleftrightarrow>
     accounted s \<and> (kd_con s = None \<longrightarrow> kd_active_jobs s = []) \<and>
     int (length (kd_active_jobs s)) \<le> max 0 (kc_int kc ''pipelinelen'' + 1)"

lemma job_items_simps [simp]: "job_items [] = {#}" "job_items (d # ds) = add_mset (kj_item d) (job_items ds)" "job_items (as @ bs) = job_items as + job_items bs"
  by (simp_all add: job_items_def)

lemma job_items_map [simp]: "job_items (map (\<lambda>d. d\<lparr>kj_job := f d\<rparr>) ds) = job_items ds"
  by (simp add: job_items_def comp_def)

lemma end_job_simps [simp]:
  "kd_new_jobs (end_job why d s) = kd_new_jobs s" "kd_next_jobs (end_job why d s) = kd_next_jobs s"
  "kd_active_jobs (end_job why d s) = kd_active_jobs s" "kd_added (end_job why d s) = kd_added s" "kd_con (end_job why d s) = kd_con s"
  "kd_ended (end_job why d s) = kd_ended s @ [(kj_item d, why)]" "kd_blacklist (end_job why d s) = kd_blacklist s"
  "kd_world (end_job why d s) = kd_world s" "kd_bStopRequesting (end_job why d s) = kd_bStopRequesting s"
  by (simp_all add: end_job_def)

lemma fold_end_job:
  "kd_ended (fold (end_job why) ds s) = kd_ended s @ map (\<lambda>d. (kj_item d, why)) ds"
  "kd_new_jobs (fold (end_job why) ds s) = kd_new_jobs s" "kd_next_jobs (fold (end_job why) ds s) = kd_next_jobs s"
  "kd_active_jobs (fold (end_job why) ds s) = kd_active_jobs s" "kd_added (fold (end_job why) ds s) = kd_added s"
  "kd_con (fold (end_job why) ds s) = kd_con s" 
  by (induction ds arbitrary: s) simp_all

lemma xrel_accounted:
  assumes "xrel s s'" "accounted s"
  shows "accounted s'"
proof -
  obtain ds where d: "kd_ended s' = kd_ended s @ map (\<lambda>i. (i, Finished)) ds"
    "map kj_item (kd_active_jobs s) = ds @ map kj_item (kd_active_jobs s')" using assms(1) by (auto simp: xrel_def)
  have "job_items (kd_active_jobs s) = mset ds + job_items (kd_active_jobs s')" using arg_cong [OF d(2), of mset] by (simp add: job_items_def)
  moreover have "mset (map fst (kd_ended s')) = mset (map fst (kd_ended s)) + mset ds" using d(1) by (simp add: comp_def flip: mset_map)
  ultimately show ?thesis using assms d(1) by (auto simp: xrel_def accounted_def)
qed

lemma xrel_inv: "xrel s s' \<Longrightarrow> dl_inv kc s \<Longrightarrow> dl_inv kc s'"
  by (auto simp: dl_inv_def intro: xrel_accounted) (auto simp: xrel_def)

text \<open>Steps that only end jobs or work on their details.\<close>

lemma setup_jobs_spec:
  assumes "setup_jobs ds s = (js, s')"
  shows "\<exists>en. kd_ended s' = kd_ended s @ en \<and> job_items ds = job_items js + mset (map fst en) \<and> (\<forall>x\<in>set en. snd x = NoSource) \<and>
    kd_new_jobs s' = kd_new_jobs s \<and> kd_next_jobs s' = kd_next_jobs s \<and> kd_active_jobs s' = kd_active_jobs s \<and> kd_added s' = kd_added s \<and>
    kd_con s' = kd_con s \<and> kd_blacklist s' = kd_blacklist s \<and> kd_world s' = kd_world s"
  using assms
proof (induction ds arbitrary: s js s')
  case (Cons d ds)
  obtain ok msg j where c: "SetupJobConfig (kd_blacklist s) (kd_sErrorMsg s) (kj_job d) = (ok, msg, j)" by (cases "SetupJobConfig (kd_blacklist s) (kd_sErrorMsg s) (kj_job d)")
  show ?case
  proof (cases ok)
    case True
    obtain js1 where r: "setup_jobs ds (s\<lparr>kd_sErrorMsg := msg\<rparr>) = (js1, s')" "js = d\<lparr>kj_job := j\<rparr> # js1"
      using Cons.prems c True by (auto simp: Let_def split: prod.splits)
    from Cons.IH [OF r(1)] r(2) show ?thesis by auto
  next
    case False
    define d1 where "d1 = d\<lparr>kj_job := (if dj_sErrorMsg j = []
                                  then j\<lparr>dj_sErrorMsg := (if msg = [] then ''Broken mirror or incorrect configuration'' else msg)\<rparr>
                                  else j)\<rparr>"
    have "setup_jobs ds (end_job NoSource d1 (s\<lparr>kd_sErrorMsg := msg\<rparr>)) = (js, s')" using Cons.prems c False by (simp add: Let_def d1_def)
    from Cons.IH [OF this] obtain en where e: "kd_ended s' = kd_ended s @ (kj_item d, NoSource) # en" "job_items ds = job_items js + mset (map fst en)"
      "(\<forall>x\<in>set en. snd x = NoSource)" "kd_new_jobs s' = kd_new_jobs s" "kd_next_jobs s' = kd_next_jobs s" "kd_active_jobs s' = kd_active_jobs s"
      "kd_added s' = kd_added s" "kd_con s' = kd_con s" "kd_blacklist s' = kd_blacklist s" "kd_world s' = kd_world s"
      by (auto simp: d1_def)
    then show ?thesis by (intro exI [of _ "(kj_item d, NoSource) # en"]) auto
  qed
qed simp

text \<open>Steps of the connection.\<close>

definition orel :: "CDlConn \<Rightarrow> CDlConn \<Rightarrow> bool" where
  "orel s s' \<longleftrightarrow>
     kd_new_jobs s' = kd_new_jobs s \<and> kd_added s' = kd_added s \<and> kd_ended s' = kd_ended s \<and> kd_con s' = kd_con s \<and> kd_blacklist s' = kd_blacklist s \<and>
     (\<exists>r. kd_next_jobs s' = map (\<lambda>d. d\<lparr>kj_job := r (kj_job d)\<rparr>) (kd_next_jobs s) \<and>
          kd_active_jobs s' = map (\<lambda>d. d\<lparr>kj_job := r (kj_job d)\<rparr>) (kd_active_jobs s) \<and> (\<forall>j. r j = j \<or> r j = ResetStreamState j))"

lemma map_self: "map (\<lambda>d. d\<lparr>kj_job := kj_job d\<rparr>) ds = ds"
  by (induction ds) auto

lemma orel_refl: "orel s s"
  unfolding orel_def by (auto simp: map_self intro!: exI [of _ "\<lambda>j. j"])

lemma Reset_idem: "ResetStreamState (ResetStreamState j) = ResetStreamState j"
  by (simp add: ResetStreamState_def)

lemma orel_trans:
  assumes "orel a b" "orel b c"
  shows "orel a c"
proof -
  obtain r where r: "kd_next_jobs b = map (\<lambda>d. d\<lparr>kj_job := r (kj_job d)\<rparr>) (kd_next_jobs a)"
    "kd_active_jobs b = map (\<lambda>d. d\<lparr>kj_job := r (kj_job d)\<rparr>) (kd_active_jobs a)" "\<forall>j. r j = j \<or> r j = ResetStreamState j"
    using assms(1) by (auto simp: orel_def)
  obtain q where q: "kd_next_jobs c = map (\<lambda>d. d\<lparr>kj_job := q (kj_job d)\<rparr>) (kd_next_jobs b)"
    "kd_active_jobs c = map (\<lambda>d. d\<lparr>kj_job := q (kj_job d)\<rparr>) (kd_active_jobs b)" "\<forall>j. q j = j \<or> q j = ResetStreamState j"
    using assms(2) by (auto simp: orel_def)
  have "\<forall>j. q (r j) = j \<or> q (r j) = ResetStreamState j" using r(3) q(3) by (metis Reset_idem)
  then show ?thesis using assms r q unfolding orel_def by (auto simp: comp_def intro!: exI [of _ "\<lambda>j. q (r j)"])
qed

lemma orel_frame [simp]:
  "orel a (s\<lparr>kd_sErrorMsg := m\<rparr>) = orel a s" "orel a (s\<lparr>kd_px := p\<rparr>) = orel a s" "orel a (s\<lparr>kd_bProxyTot := b\<rparr>) = orel a s"
  "orel a (s\<lparr>kd_world := w\<rparr>) = orel a s" "orel a (s\<lparr>kd_bExpectRemoteClosing := b\<rparr>) = orel a s"
  by (simp_all add: orel_def)

lemma doconnect_orel: "doconnect kc tgt net s = (c, used, s') \<Longrightarrow> orel s s'"
  unfolding doconnect_def Let_def
  by (auto simp: orel_def comp_def intro!: exI [of _ ResetStreamState] split: prod.splits sum.splits)

lemma prefProxy_orel: "prefProxy kc e j s = (p, s') \<Longrightarrow> orel s s'"
  by (auto simp: prefProxy_def orel_refl split: if_splits option.splits prod.splits)

lemma through_proxy_orel: "through_proxy kc e p q s = Some (c, used, s') \<Longrightarrow> orel s s'"
  by (auto simp: through_proxy_def split: prod.splits option.splits if_splits dest: doconnect_orel)

lemma open_con_orel: "open_con kc e s = Some (c, used, s') \<Longrightarrow> orel s s'"
proof -
  assume o: "open_con kc e s = Some (c, used, s')"
  obtain p s1 where p: "prefProxy kc e (kj_job (hd (kd_next_jobs s))) s = (p, s1)" by fastforce
  note 1 = prefProxy_orel [OF p]
  have d: "orel s x \<Longrightarrow> doconnect kc t n x = (c, used, s') \<Longrightarrow> orel s s'" for x t n using doconnect_orel orel_trans by blast
  show ?thesis
  proof (cases p)
    case None
    then show ?thesis using o p 1 d [OF 1] by (simp add: open_con_def Let_def)
  next
    case (Some proxy)
    obtain c1 u1 x where t: "through_proxy kc e proxy (GetPeerHost (kj_job (hd (kd_next_jobs s)))) s1 = Some (c1, u1, x)"
      using o p Some by (auto simp: open_con_def Let_def split: option.splits)
    have x: "orel s x" using orel_trans [OF 1 through_proxy_orel [OF t]] .
    show ?thesis
      using o p Some t x d [of "x\<lparr>kd_bProxyTot := True, kd_px := MarkProxyFailure (kc_cf kc) (kd_px x)\<rparr>"]
      by (cases c1) (auto simp: open_con_def Let_def split: if_splits)
  qed
qed

lemma orel_accounted:
  assumes "orel s s'" "accounted s"
  shows "accounted s'"
  using assms by (auto simp: orel_def accounted_def)

lemma connect_phase_inv:
  assumes i: "dl_inv kc s" and n: "kd_con s = None"
  shows "case connect_phase kc e s of
      ConReady s1 \<Rightarrow> dl_inv kc s1 \<and> kd_con s1 \<noteq> None \<and> kd_active_jobs s1 = []
    | ConNext s1 \<Rightarrow> dl_inv kc s1 | ConSelect s1 \<Rightarrow> dl_inv kc s1 | ConBlocked \<Rightarrow> True"
proof -
  define s1 where "s1 = (clear_active (s\<lparr>kd_sendBuf := [], kd_inBuf := []\<rparr>))\<lparr>kd_bStopRequesting := False\<rparr>"
  have a: "kd_active_jobs s = []" "accounted s" using i n by (auto simp: dl_inv_def)
  have s1: "s1 = s\<lparr>kd_sendBuf := [], kd_inBuf := [], kd_bStopRequesting := False\<rparr>" using a(1) by (simp add: s1_def clear_active_def)
  obtain js s2 where st: "setup_jobs (kd_next_jobs s1) s1 = (js, s2)" by fastforce
  define s3 where "s3 = s2\<lparr>kd_next_jobs := js\<rparr>"
  from setup_jobs_spec [OF st] a s1 have s3: "accounted s3" "kd_active_jobs s3 = []" "kd_con s3 = None"
    using n by (auto simp: s3_def accounted_def) fastforce+
  have fin: "dl_inv kc x \<and> kd_active_jobs x = []" if "accounted x" "kd_active_jobs x = []" for x using that by (simp add: dl_inv_def)
  show ?thesis
  proof (cases "js = [] \<or> open_con kc e s3 = None")
    case True
    then show ?thesis using st s3 fin by (auto simp: connect_phase_def Let_def s3_def simp flip: s1_def)
  next
    case False
    then obtain c u s4 where o: "open_con kc e s3 = Some (c, u, s4)" by auto
    from open_con_orel [OF o] s3 have s4: "accounted s4" "kd_active_jobs s4 = []" by (auto intro: orel_accounted) (auto simp: orel_def)
    have "accounted (s4\<lparr>kd_world := w\<rparr>)" "accounted (s4\<lparr>kd_con := q\<rparr>)" "accounted (BlacklistMirror j s4)" for w q j
      using s4 by (simp_all add: accounted_def BlacklistMirror_def)
    then show ?thesis using st o False s4 fin
      by (cases c) (auto simp: connect_phase_def Let_def s3_def BlacklistMirror_def dl_inv_def simp flip: s1_def)
  qed
qed

lemma prefProxy_same: "prefProxy kc e j s = (p, s') \<Longrightarrow> \<exists>x. s' = s\<lparr>kd_px := x\<rparr>"
  by (auto simp: prefProxy_def split: if_splits option.splits prod.splits intro: exI [of _ "kd_px s"])

lemma con_matches_same: "con_matches kc e j c s = (m, p, s') \<Longrightarrow> \<exists>x. s' = s\<lparr>kd_px := x\<rparr>"
  by (auto simp: con_matches_def Let_def split: if_splits option.splits prod.splits dest: prefProxy_same intro: exI [of _ "kd_px s"])

lemma accounted_frame [simp]:
  "accounted (s\<lparr>kd_sErrorMsg := m\<rparr>) = accounted s" "accounted (s\<lparr>kd_px := p\<rparr>) = accounted s" "accounted (s\<lparr>kd_sendBuf := b\<rparr>) = accounted s"
  "accounted (s\<lparr>kd_bStopRequesting := q\<rparr>) = accounted s" "accounted (s\<lparr>kd_nTempPipelineDisable := n\<rparr>) = accounted s"
  "accounted (s\<lparr>kd_con := c\<rparr>) = accounted s" "accounted (s\<lparr>kd_world := w\<rparr>) = accounted s" "accounted (s\<lparr>kd_inBuf := i\<rparr>) = accounted s"
  "accounted (s\<lparr>kd_bExpectRemoteClosing := q\<rparr>) = accounted s" "accounted (s\<lparr>kd_nLostConTolerance := n\<rparr>) = accounted s"
  "accounted (s\<lparr>kd_blacklist := bl\<rparr>) = accounted s" "accounted (s\<lparr>kd_heap := h\<rparr>) = accounted s" "accounted (s\<lparr>kd_fs := f\<rparr>) = accounted s"
  "accounted (s\<lparr>kd_ctrl_hint := k\<rparr>) = accounted s" "accounted (s\<lparr>kd_lastCtrlMark := k\<rparr>) = accounted s"
  by (simp_all add: accounted_def)

text \<open>The jobs that wait for their request are an argument of the loop; the queue of the state is set at its end.\<close>

lemma request_loop_inv:
  assumes "accounted (s\<lparr>kd_next_jobs := ds\<rparr>)" "int (length (kd_active_jobs s)) \<le> max 0 (kc_int kc ''pipelinelen'' + 1)" "kd_con s \<noteq> None"
  shows "dl_inv kc (request_loop kc e c ds s)"
  using assms
proof (induction ds arbitrary: s)
  case Nil
  then show ?case by (auto simp: dl_inv_def)
next
  case (Cons d ds)
  obtain ok msg j where c: "SetupJobConfig (kd_blacklist s) (kd_sErrorMsg s) (kj_job d) = (ok, msg, j)" by (cases "SetupJobConfig (kd_blacklist s) (kd_sErrorMsg s) (kj_job d)")
  define s1 where "s1 = s\<lparr>kd_sErrorMsg := msg\<rparr>"
  define d1 where "d1 = d\<lparr>kj_job := j\<rparr>"
  have d1: "kj_item d1 = kj_item d" by (simp add: d1_def)
  show ?case
  proof (cases "kd_bStopRequesting s \<or> \<not> int (length (kd_active_jobs s)) \<le> kc_int kc ''pipelinelen''")
    case True
    then show ?thesis using Cons.prems by (auto simp: dl_inv_def)
  next
    case room: False
    show ?thesis
    proof (cases ok)
      case False
      have "dl_inv kc (request_loop kc e c ds (end_job NoSource d1 s1))"
        using Cons.prems by (intro Cons.IH) (simp_all add: s1_def accounted_def d1)
      then show ?thesis using room c False by (simp add: Let_def s1_def d1_def)
    next
      case True
      obtain m p x where m: "con_matches kc e j c s1 = (m, p, s1\<lparr>kd_px := x\<rparr>)"
        using con_matches_same by (metis prod_cases3)
      have next_inv: "dl_inv kc (s1\<lparr>kd_px := x, kd_next_jobs := d1 # ds, kd_bStopRequesting := True\<rparr>)"
        "dl_inv kc (s1\<lparr>kd_px := x, kd_next_jobs := d1 # ds\<rparr>)"
        using Cons.prems by (auto simp: dl_inv_def s1_def accounted_def d1)
      show ?thesis
      proof (cases "m \<and> kd_heap s (kj_item d) \<noteq> None")
        case False
        then show ?thesis using room c True m next_inv
          by (cases m) (simp_all add: Let_def s1_def d1_def)
      next
        case go: True
        then obtain fi where fi: "kd_heap (s1\<lparr>kd_px := x\<rparr>) (kj_item d) = Some fi" by (auto simp: s1_def)
        obtain buf j1 where b: "AppendRequest (kc_dl kc) (kd_sendBuf (s1\<lparr>kd_px := x\<rparr>)) p fi j = (buf, j1)" by fastforce
        define s3 where "s3 = s1\<lparr>kd_px := x, kd_sendBuf := buf, kd_active_jobs := kd_active_jobs s @ [d1\<lparr>kj_job := j1\<rparr>]\<rparr>"
        have s3: "accounted (s3\<lparr>kd_next_jobs := ds\<rparr>)" "int (length (kd_active_jobs s3)) \<le> max 0 (kc_int kc ''pipelinelen'' + 1)" "kd_con s3 \<noteq> None"
          using Cons.prems room by (auto simp: s3_def s1_def accounted_def d1)
        then have "dl_inv kc (request_loop kc e c ds s3)"
          "dl_inv kc (s3\<lparr>kd_next_jobs := ds, kd_bStopRequesting := True, kd_nTempPipelineDisable := n\<rparr>)" for n
          using Cons.IH [OF s3] by (auto simp: dl_inv_def)
        then show ?thesis using room c True m go fi b
          by (simp add: Let_def s1_def d1_def s3_def)
      qed
    qed
  qed
qed

lemma take_new_jobs_inv: "dl_inv kc s \<Longrightarrow> dl_inv kc (take_new_jobs s)"
  by (auto simp: take_new_jobs_def dl_inv_def accounted_def)

lemma take_new_jobs_simps [simp]:
  "kd_active_jobs (take_new_jobs s) = kd_active_jobs s" "kd_con (take_new_jobs s) = kd_con s" "kd_blacklist (take_new_jobs s) = kd_blacklist s"
  "kd_world (take_new_jobs s) = kd_world s"
  by (simp_all add: take_new_jobs_def)

lemma close_con_simps [simp]:
  "kd_con (close_con now s) = None" "kd_active_jobs (close_con now s) = kd_active_jobs s" "accounted (close_con now s) = accounted s"
  "kd_next_jobs (close_con now s) = kd_next_jobs s"
  by (simp_all add: close_con_def split: option.splits)

lemma recycle_con_simps [simp]:
  "kd_con (recycle_con kc now s) = None" "kd_active_jobs (recycle_con kc now s) = kd_active_jobs s" "accounted (recycle_con kc now s) = accounted s"
  "kd_next_jobs (recycle_con kc now s) = kd_next_jobs s"
  by (simp_all add: recycle_con_def split: option.splits)

lemma stop_thread_accounted: "accounted s \<Longrightarrow> accounted (stop_thread s)"
  by (auto simp: accounted_def stop_thread_def fold_end_job job_items_def comp_def)

lemma stop_thread_inv: "accounted s \<Longrightarrow> dl_inv kc (stop_thread s)"
  by (simp add: dl_inv_def stop_thread_accounted) (simp add: stop_thread_def fold_end_job)

lemma work_head_inv:
  assumes "dl_inv kc s"
  shows "case work_head kc e s of WNext s1 \<Rightarrow> dl_inv kc s1 | WSelect s1 \<Rightarrow> dl_inv kc s1 | WEnd s1 \<Rightarrow> dl_inv kc s1 | WBlocked \<Rightarrow> True"
proof -
  note t = take_new_jobs_inv [OF assms]
  have rl: "dl_inv kc (request_loop kc e c (kd_next_jobs x) x)" if "dl_inv kc x" "kd_con x \<noteq> None" for x c
    using that by (intro request_loop_inv) (auto simp: dl_inv_def)
  have "accounted s" using assms by (simp add: dl_inv_def)
  then show ?thesis
    using t rl connect_phase_inv [OF t, of e] by (auto simp: work_head_def Let_def stop_thread_inv split: option.splits wcon.splits)
qed

text \<open>Between the exchange and the next pass the connection may be closed while jobs are still in the pipeline.\<close>

definition tail_ok :: "dlcon_cfg \<Rightarrow> CDlConn \<Rightarrow> bool" where
  "tail_ok kc s \<longleftrightarrow> accounted s \<and> int (length (kd_active_jobs s)) \<le> max 0 (kc_int kc ''pipelinelen'' + 1)"

lemma move_back_inv: "tail_ok kc s \<Longrightarrow> dl_inv kc (move_back s)"
  by (auto simp: tail_ok_def dl_inv_def move_back_def accounted_def)

lemma drop_stored_spec:
  assumes "drop_stored ds s = (ds1, s1)"
  shows "\<exists>en. kd_ended s1 = kd_ended s @ en \<and> job_items ds = job_items ds1 + mset (map fst en) \<and> (\<forall>x\<in>set en. snd x = Collision) \<and>
    length ds1 \<le> length ds \<and> kd_new_jobs s1 = kd_new_jobs s \<and> kd_next_jobs s1 = kd_next_jobs s \<and> kd_active_jobs s1 = kd_active_jobs s \<and> kd_added s1 = kd_added s"
  using assms
proof (induction ds arbitrary: s ds1 s1)
  case (Cons d ds)
  show ?case
  proof (cases "being_stored s d")
    case True
    with Cons.prems have "drop_stored ds (end_job Collision d s) = (ds1, s1)" by simp
    from Cons.IH [OF this] obtain en where "kd_ended s1 = kd_ended s @ (kj_item d, Collision) # en" "job_items ds = job_items ds1 + mset (map fst en)"
      "\<forall>x\<in>set en. snd x = Collision" "length ds1 \<le> length ds" "kd_new_jobs s1 = kd_new_jobs s" "kd_next_jobs s1 = kd_next_jobs s"
      "kd_active_jobs s1 = kd_active_jobs s" "kd_added s1 = kd_added s" by auto
    then show ?thesis by (intro exI [of _ "(kj_item d, Collision) # en"]) auto
  next
    case False
    with Cons.prems obtain ds2 where "drop_stored ds s = (ds2, s1)" "ds1 = d # ds2" by (auto split: prod.splits)
    then show ?thesis using Cons.IH [of s ds2 s1] by auto
  qed
qed simp

lemma drop_collisions_ok: 
  assumes "tail_ok kc s"
  shows "tail_ok kc (drop_collisions s)"
proof -
  obtain as s1 where a: "drop_stored (kd_active_jobs s) s = (as, s1)" by fastforce
  obtain ns s2 where n: "drop_stored (kd_next_jobs s1) (s1\<lparr>kd_active_jobs := as\<rparr>) = (ns, s2)" by fastforce
  obtain en1 where 1: "kd_ended s1 = kd_ended s @ en1" "job_items (kd_active_jobs s) = job_items as + mset (map fst en1)" "\<forall>x\<in>set en1. snd x = Collision"
    "length as \<le> length (kd_active_jobs s)" "kd_new_jobs s1 = kd_new_jobs s" "kd_next_jobs s1 = kd_next_jobs s" "kd_added s1 = kd_added s"
    using drop_stored_spec [OF a] by blast
  obtain en2 where 2: "kd_ended s2 = kd_ended s1 @ en2" "job_items (kd_next_jobs s1) = job_items ns + mset (map fst en2)" "\<forall>x\<in>set en2. snd x = Collision"
    "kd_new_jobs s2 = kd_new_jobs s1" "kd_active_jobs s2 = as" "kd_added s2 = kd_added s1"
    using drop_stored_spec [OF n] by auto
  have k: "\<forall>x\<in>set en1 \<union> set en2. snd x \<noteq> Cleared" using 1(3) 2(3) by auto
  have "accounted (s2\<lparr>kd_next_jobs := ns\<rparr>)" using assms 1 2 k by (simp add: tail_ok_def accounted_def ball_Un)
  moreover have "drop_collisions s = s2\<lparr>kd_next_jobs := ns\<rparr>" by (simp add: drop_collisions_def a n)
  ultimately show ?thesis using assms 1(4) 2(5) by (simp add: tail_ok_def)
qed

lemma job_broken_ok: "tail_ok kc s \<Longrightarrow> tail_ok kc (job_broken r s)"
proof (cases "kd_active_jobs s")
  case (Cons d ds)
  assume t: "tail_ok kc s"
  have "tail_ok kc (end_job Broken d1 (s\<lparr>kd_active_jobs := ds\<rparr>))" if "kj_item d1 = kj_item d" for d1
    using t that Cons by (auto simp: tail_ok_def accounted_def)
  then show ?thesis by (auto simp: job_broken_def Cons Let_def drop_collisions_ok)
qed (simp add: job_broken_def)

lemma lost_con_ok:
  assumes "tail_ok kc s" "lost_con kc e r s = (r1, s1)"
  shows "tail_ok kc s1 \<and> (kd_active_jobs s \<noteq> [] \<longrightarrow> kd_con s1 = None)"
proof (cases "kd_active_jobs s")
  case Nil
  then show ?thesis using assms by (simp add: lost_con_def)
next
  case (Cons d ds)
  define s2 where "s2 = close_con (we_now e) (if kd_bExpectRemoteClosing s then s
    else if kd_nLostConTolerance s - 1 \<le> 0 then (BlacklistMirror (kj_job d) s)\<lparr>kd_nLostConTolerance := kc_int kc ''dlretriesmax''\<rparr>
    else s\<lparr>kd_nLostConTolerance := kd_nLostConTolerance s - 1\<rparr>)"
  have s2: "tail_ok kc s2" "kd_con s2 = None" "kd_active_jobs s2 = d # ds" using assms(1) Cons by (simp_all add: s2_def tail_ok_def BlacklistMirror_def)
  have "tail_ok kc (s2\<lparr>kd_active_jobs := d\<lparr>kj_job := j\<rparr> # ds\<rparr>)" for j using s2 by (simp add: tail_ok_def accounted_def)
  then show ?thesis using assms(2) s2 Cons by (simp add: lost_con_def Let_def s2_def [symmetric] split: if_splits) auto
qed

lemma has_bits [simp]:
  "has r (HINT_DONE OR HINT_MORE) = has r HINT_DONE" "has r (HINT_RECONNECT_NOW OR EFLAG_LOST_CON) \<longleftrightarrow> has r HINT_RECONNECT_NOW \<or> has r EFLAG_LOST_CON"
  "has (r OR EFLAG_JOB_BROKEN) HINT_DONE = has r HINT_DONE"
  by (simp_all add: has_def HINT_MORE_def bit.conj_disj_distrib or_eq_0_iff bit.conj_disj_distrib2) (simp_all add: hint_defs)

lemma clean_done:
  assumes "ended_clean r" "has r HINT_DONE"
  shows "\<not> has r HINT_RECONNECT_NOW \<and> \<not> has r EFLAG_LOST_CON"
  using assms by (auto simp: ended_clean_def has_def hint_defs)

lemma lost_con_res: "lost_con kc e r s = (r1, s1) \<Longrightarrow> r1 = r \<or> r1 = r OR EFLAG_JOB_BROKEN"
  by (auto simp: lost_con_def Let_def split: list.splits if_splits)

lemma switch_bits: "\<not> has HINT_SWITCH EFLAG_LOST_CON" "\<not> has HINT_SWITCH HINT_RECONNECT_NOW"
  by (simp_all add: has_def hint_defs)

text \<open>Only an exchange that ended without errors leaves jobs in the pipeline.\<close>

lemma work_tail_inv:
  assumes i: "dl_inv kc s" and cl: "ended_clean r" and w: "work_tail kc e r s = WGo s1"
  shows "dl_inv kc s1"
proof -
  define a where "a = s\<lparr>kd_bExpectRemoteClosing := (kd_bExpectRemoteClosing s \<or> has r HINT_RECONNECT_SOON)\<rparr>"
  define b where "b = (if kd_active_jobs a = [] then a\<lparr>kd_bStopRequesting := False\<rparr> else a)"
  define c where "c = (if has r HINT_RECONNECT_NOW \<or> has r EFLAG_LOST_CON then (close_con (we_now e) b)\<lparr>kd_inBuf := [], kd_sendBuf := []\<rparr> else b)"
  obtain res d where d: "(if has r EFLAG_LOST_CON then lost_con kc e r c else (r, c)) = (res, d)" by fastforce
  have b: "dl_inv kc b" using i by (auto simp: a_def b_def dl_inv_def)
  have c: "tail_ok kc c" using b by (auto simp: c_def dl_inv_def tail_ok_def)
  have d_ok: "tail_ok kc d" using d c lost_con_ok [OF c, of e r] by (auto split: if_splits)
  have fin: "dl_inv kc (d\<lparr>kd_sErrorMsg := []\<rparr>)" if "has res HINT_DONE"
  proof -
    have "has r HINT_DONE" using that d lost_con_res [of kc e r c] by (auto split: if_splits)
    from clean_done [OF cl this] d b show ?thesis by (auto simp: c_def dl_inv_def)
  qed
  have switch: "dl_inv kc d" if "res = HINT_SWITCH"
  proof -
    have n: "\<not> has r EFLAG_LOST_CON"
    proof
      assume "has r EFLAG_LOST_CON"
      then have "has res EFLAG_LOST_CON" using d lost_con_res [of kc e r c res d] by (auto simp: has_def bit.conj_disj_distrib2 or_eq_0_iff)
      then show False using \<open>res = HINT_SWITCH\<close> switch_bits by simp
    qed
    have "r = HINT_SWITCH" "d = c" using d n that by auto
    then show ?thesis using b switch_bits by (simp add: c_def)
  qed
  define f where "f = (case kd_active_jobs d of x # _ \<Rightarrow> if has res EFLAG_MIRROR_BROKEN then BlacklistMirror (kj_job x) d else d | [] \<Rightarrow> d)"
  have "tail_ok kc f" using d_ok by (auto simp: f_def tail_ok_def BlacklistMirror_def split: list.splits)
  then have g: "dl_inv kc (move_back (if has res EFLAG_JOB_BROKEN then job_broken res f else f))" by (simp add: move_back_inv job_broken_ok)
  have rc: "dl_inv kc (recycle_con kc (we_now e) b)" if "kd_active_jobs a = []" using b that by (simp add: dl_inv_def b_def a_def)
  have mv: "dl_inv kc (move_back (recycle_con kc (we_now e) c))" using c by (intro move_back_inv) (simp add: tail_ok_def)
  show ?thesis
    using w fin switch g rc mv d unfolding work_tail_def Let_def has_bits a_def [symmetric] b_def [symmetric] c_def [symmetric]
    by (simp add: f_def [symmetric] split: if_splits)
qed

section \<open>Failing connections\<close>

definition host_keys :: "tDlJob \<Rightarrow> string set" where
  "host_keys j = GetHostPortKey ` (insert (GetPeerHost j)
     (if dj_bBackendMode j then (case dj_pRepoDesc j of Some d \<Rightarrow> set (rd_backends d) | None \<Rightarrow> {}) else {}))"

definition open_keys :: "CDlConn \<Rightarrow> string set" where
  "open_keys s = (\<Union>d\<in>set (kd_new_jobs s @ kd_next_jobs s). host_keys (kj_job d)) - dom (kd_blacklist s)"

definition attempts_left :: "CDlConn \<Rightarrow> nat" where
  "attempts_left s = card (open_keys s) + length (cw_spareConPool (kd_world s))"

fun failing_passes :: "dlcon_cfg \<Rightarrow> wev list \<Rightarrow> CDlConn \<Rightarrow> bool" where
  "failing_passes kc [] s = True"
| "failing_passes kc (e # es) s = (case work_head kc e s of WNext s1 \<Rightarrow> failing_passes kc es s1 | _ \<Rightarrow> False)"

lemma finite_open_keys [simp]: "finite (open_keys s)"
  by (auto simp: open_keys_def host_keys_def split: option.splits)

lemma find_backend_in: "find_backend bl bs m = (Some b, m') \<Longrightarrow> b \<in> set bs \<and> bl (GetHostPortKey b) = None"
  by (induction bs arbitrary: m) (auto split: option.splits if_splits)

lemma SetupJobConfig_keys:
  assumes "SetupJobConfig bl msg j = (True, msg', j')"
  shows "host_keys j' \<subseteq> host_keys j \<and> bl (GetHostPortKey (GetPeerHost j')) = None"
  using assms unfolding SetupJobConfig_def
  by (auto simp: host_keys_def GetPeerHost_def split: if_splits option.splits prod.splits dest: find_backend_in)

lemma setup_jobs_keys:
  assumes "setup_jobs ds s = (js, s')"
  shows "(\<Union>d\<in>set js. host_keys (kj_job d)) \<subseteq> (\<Union>d\<in>set ds. host_keys (kj_job d)) \<and>
    (\<forall>d\<in>set js. kd_blacklist s (GetHostPortKey (GetPeerHost (kj_job d))) = None)"
  using assms
proof (induction ds arbitrary: s js s')
  case (Cons d ds)
  obtain ok msg j where c: "SetupJobConfig (kd_blacklist s) (kd_sErrorMsg s) (kj_job d) = (ok, msg, j)" by (cases "SetupJobConfig (kd_blacklist s) (kd_sErrorMsg s) (kj_job d)")
  show ?case
  proof (cases ok)
    case True
    obtain js1 where r: "setup_jobs ds (s\<lparr>kd_sErrorMsg := msg\<rparr>) = (js1, s')" "js = d\<lparr>kj_job := j\<rparr> # js1"
      using Cons.prems c True by (auto simp: Let_def split: prod.splits)
    from Cons.IH [OF r(1)] r(2) SetupJobConfig_keys c True show ?thesis by (fastforce simp del: UN_iff)
  next
    case False
    obtain x where "setup_jobs ds (end_job NoSource x (s\<lparr>kd_sErrorMsg := msg\<rparr>)) = (js, s')" using Cons.prems c False by (auto simp: Let_def)
    from Cons.IH [OF this] show ?thesis by auto
  qed
qed simp

lemma Reset_keys [simp]: "GetPeerHost (ResetStreamState j) = GetPeerHost j" "host_keys (ResetStreamState j) = host_keys j"
  by (simp_all add: ResetStreamState_def GetPeerHost_def host_keys_def split: option.splits)

lemma orel_keys:
  assumes "orel s s'"
  shows "map (\<lambda>d. GetPeerHost (kj_job d)) (kd_next_jobs s') = map (\<lambda>d. GetPeerHost (kj_job d)) (kd_next_jobs s) \<and> open_keys s' = open_keys s"
proof -
  obtain r where r: "kd_next_jobs s' = map (\<lambda>d. d\<lparr>kj_job := r (kj_job d)\<rparr>) (kd_next_jobs s)" "\<forall>j. r j = j \<or> r j = ResetStreamState j"
    using assms by (auto simp: orel_def)
  have k: "GetPeerHost (r j) = GetPeerHost j" "host_keys (r j) = host_keys j" for j using r(2) Reset_keys by metis+
  show ?thesis using assms r(1) by (auto simp: orel_def open_keys_def k)
qed

text \<open>An attempt takes at most connections from the pool, and a used one comes from there.\<close>

abbreviation pool_size :: "CDlConn \<Rightarrow> nat" where "pool_size s \<equiv> length (cw_spareConPool (kd_world s))"

lemma pool_of_world [simp]:
  "cw_spareConPool (cw_access ob w) = cw_spareConPool w" "cw_spareConPool (tcpconnect_dtor now c w) = cw_spareConPool w"
  by (simp_all add: cw_access_def tcpconnect_dtor_def cw_release_def split: option.splits)

lemma pool_take_length: "pool_take key es = Some (c, rest) \<Longrightarrow> length rest < length es"
  by (induction es arbitrary: rest) (auto split: if_splits)

lemma CreateConnected_pool:
  assumes "CreateConnected h p tr ssl nocache net w = (r, used, w1)"
  shows "length (cw_spareConPool w1) \<le> length (cw_spareConPool w) \<and> (used \<longrightarrow> length (cw_spareConPool w1) < length (cw_spareConPool w))"
proof -
  have f: "cw_spareConPool w2 = cw_spareConPool w" if "fresh_connection h p tr ssl net w = (r2, w2)" for r2 w2
    using that by (auto simp: fresh_connection_def tcpconnect_new_def Let_def split: sum.splits if_splits option.splits)
  show ?thesis using assms pool_take_length
    by (fastforce simp: CreateConnected_def split: option.splits if_splits prod.splits dest: f)
qed

definition pool_falls :: "CDlConn \<Rightarrow> bool \<Rightarrow> CDlConn \<Rightarrow> bool" where
  "pool_falls s used s' \<longleftrightarrow> pool_size s' \<le> pool_size s \<and> (used \<longrightarrow> pool_size s' < pool_size s)"

lemma doconnect_pool: "doconnect kc tgt net s = (c, used, s') \<Longrightarrow> pool_falls s used s'"
  unfolding doconnect_def Let_def pool_falls_def by (auto split: prod.splits sum.splits dest: CreateConnected_pool)

lemma through_proxy_pool: "through_proxy kc e p q s = Some (c, used, s') \<Longrightarrow> pool_falls s used s'"
  by (auto simp: through_proxy_def pool_falls_def split: prod.splits option.splits if_splits dest: doconnect_pool [unfolded pool_falls_def])

lemma open_con_pool:
  assumes o: "open_con kc e s = Some (c, used, s')"
  shows "pool_falls s used s'"
proof -
  obtain p x where p: "prefProxy kc e (kj_job (hd (kd_next_jobs s))) s = (p, s\<lparr>kd_px := x\<rparr>)" using prefProxy_same by (metis surj_pair)
  show ?thesis
  proof (cases p)
    case None
    then show ?thesis using o p doconnect_pool by (fastforce simp: open_con_def Let_def pool_falls_def)
  next
    case (Some proxy)
    obtain c1 u1 y where t: "through_proxy kc e proxy (GetPeerHost (kj_job (hd (kd_next_jobs s)))) (s\<lparr>kd_px := x\<rparr>) = Some (c1, u1, y)"
      using o p Some by (auto simp: open_con_def Let_def split: option.splits)
    show ?thesis
      using o p Some t through_proxy_pool [OF t] doconnect_pool [of kc "GetPeerHost (kj_job (hd (kd_next_jobs s)))" "we_net_direct e" "y\<lparr>kd_bProxyTot := True, kd_px := MarkProxyFailure (kc_cf kc) (kd_px y)\<rparr>" c used s']
      by (cases c1) (auto simp: open_con_def Let_def pool_falls_def split: if_splits)
  qed
qed

lemma connect_phase_progress:
  assumes n: "connect_phase kc e s = ConNext s'" and a: "kd_active_jobs s = []"
  shows "attempts_left s' < attempts_left s"
proof -
  define s1 where "s1 = (clear_active (s\<lparr>kd_sendBuf := [], kd_inBuf := []\<rparr>))\<lparr>kd_bStopRequesting := False\<rparr>"
  have s1: "s1 = s\<lparr>kd_sendBuf := [], kd_inBuf := [], kd_bStopRequesting := False\<rparr>" using a by (simp add: s1_def clear_active_def)
  obtain js s2 where st: "setup_jobs (kd_next_jobs s1) s1 = (js, s2)" by fastforce
  define s3 where "s3 = s2\<lparr>kd_next_jobs := js\<rparr>"
  from n st have js: "js \<noteq> []" by (auto simp: connect_phase_def Let_def simp flip: s1_def)
  obtain c u s4 where o: "open_con kc e s3 = Some (c, u, s4)"
    using n st js by (auto simp: connect_phase_def Let_def s3_def simp flip: s1_def split: option.splits)
  have s': "s' = (case c of Some c1 \<Rightarrow> s4\<lparr>kd_world := tcpconnect_dtor (we_now e) c1 (kd_world s4)\<rparr> | None \<Rightarrow> BlacklistMirror (kj_job (hd (kd_next_jobs s4))) s4)"
    "c \<noteq> None \<Longrightarrow> u"
    using n st js o by (auto simp: connect_phase_def Let_def s3_def simp flip: s1_def split: option.splits if_splits)
  have "open_keys s3 \<subseteq> open_keys s" "kd_blacklist s3 = kd_blacklist s" "kd_world s3 = kd_world s"
    using setup_jobs_keys [OF st] setup_jobs_spec [OF st] by (auto simp: s3_def s1 open_keys_def)
  moreover note k = orel_keys [OF open_con_orel [OF o]]
  moreover have bl: "kd_blacklist s4 = kd_blacklist s3" using open_con_orel [OF o] by (simp add: orel_def)
  ultimately have s4: "open_keys s4 \<subseteq> open_keys s" "pool_falls s u s4" using open_con_pool [OF o] by (auto simp: pool_falls_def)
  have le: "card (open_keys s4) \<le> card (open_keys s)" using s4(1) by (simp add: card_mono)
  show ?thesis
  proof (cases c)
    case (Some c1)
    then show ?thesis using s' s4(2) le by (simp add: attempts_left_def pool_falls_def open_keys_def)
  next
    case None
    define key where "key = GetHostPortKey (GetPeerHost (kj_job (hd (kd_next_jobs s4))))"
    have ne: "kd_next_jobs s4 \<noteq> []" using k js by (auto simp: s3_def)
    have "GetPeerHost (kj_job (hd (kd_next_jobs s4))) = GetPeerHost (kj_job (hd js))" using arg_cong [OF conjunct1 [OF k], of hd] js ne by (simp add: s3_def hd_map)
    then have "kd_blacklist s4 key = None" using setup_jobs_keys [OF st] js bl \<open>kd_blacklist s3 = kd_blacklist s\<close> by (simp add: key_def s1)
    moreover have "key \<in> host_keys (kj_job (hd (kd_next_jobs s4)))" by (simp add: key_def host_keys_def)
    ultimately have "key \<in> open_keys s4" using ne hd_in_set [OF ne] by (auto simp: open_keys_def)
    moreover have "open_keys s' = open_keys s4 - {key}" using s'(1) None by (auto simp: open_keys_def BlacklistMirror_def key_def)
    ultimately have "card (open_keys s') < card (open_keys s4)" by (metis card_Diff1_less finite_open_keys)
    moreover have "pool_size s' = pool_size s4" using s'(1) None by (simp add: BlacklistMirror_def)
    ultimately show ?thesis using le s4(2) by (simp add: attempts_left_def pool_falls_def)
  qed
qed

lemma work_head_progress:
  assumes "work_head kc e s = WNext s'" "dl_inv kc s"
  shows "attempts_left s' < attempts_left s"
proof -
  let ?t = "take_new_jobs s"
  have n: "connect_phase kc e ?t = ConNext s'" "kd_con s = None" using assms(1) by (auto simp: work_head_def Let_def split: if_splits option.splits wcon.splits)
  have "attempts_left ?t = attempts_left s" by (auto simp: attempts_left_def open_keys_def take_new_jobs_def)
  moreover have "kd_active_jobs ?t = []" using assms(2) n(2) by (simp add: dl_inv_def)
  ultimately show ?thesis using connect_phase_progress [OF n(1)] by simp
qed

section \<open>The agent\<close>

definition CDlConn_new :: "dlcon_cfg \<Rightarrow> bool \<Rightarrow> (nat \<Rightarrow> fileitem option) \<Rightarrow> fsys \<Rightarrow> con_world \<Rightarrow> proxy_state \<Rightarrow> CDlConn" where
  "CDlConn_new kc wake_ok heap fs w px =
     \<lparr>kd_new_jobs = [], kd_next_jobs = [], kd_active_jobs = [], kd_ctrl_hint = (if wake_ok then 0 else -1), kd_lastCtrlMark = -2, kd_blacklist = Map.empty,
      kd_sendBuf = [], kd_inBuf = [], kd_nTempPipelineDisable = 0, kd_bProxyTot = False, kd_con = None, kd_bStopRequesting = False,
      kd_bExpectRemoteClosing = False, kd_nLostConTolerance = kc_int kc ''dlretriesmax'', kd_sErrorMsg = [],
      kd_heap = heap, kd_fs = fs, kd_world = w, kd_px = px, kd_added = [], kd_ended = []\<rparr>"

text \<open>
  The runs of the agent: jobs are added and the stop is signalled at any time between two passes, and
  other threads change the items, the files, the pool and the state of the proxy.
\<close>

inductive dl_reach :: "dlcon_cfg \<Rightarrow> CDlConn \<Rightarrow> bool" for kc where
  start: "dl_reach kc (CDlConn_new kc wake_ok heap fs w px)"
| add: "dl_reach kc s \<Longrightarrow> AddJob kc sd i src isPT xh s = (r, s') \<Longrightarrow> dl_reach kc s'"
| add_repo: "dl_reach kc s \<Longrightarrow> AddJob_repo kc sd i res isPT xh s = (r, s') \<Longrightarrow> dl_reach kc s'"
| signal_stop: "dl_reach kc s \<Longrightarrow> dl_reach kc (SignalStop s)"
| others: "dl_reach kc s \<Longrightarrow> dl_reach kc (s\<lparr>kd_heap := h, kd_fs := f, kd_world := w, kd_px := p\<rparr>)"
| pass: "dl_reach kc s \<Longrightarrow> work_step kc e s = WkGo s' \<Longrightarrow> dl_reach kc s'"

lemma work_step_inv:
  assumes "dl_inv kc s" "work_step kc e s = WkGo s'"
  shows "dl_inv kc s'"
  using assms(2) work_head_inv [OF assms(1), of e]
  by (auto simp: work_step_def split: whead.splits xres.splits wtail.splits dest: ExchangeData_ok intro: work_tail_inv xrel_inv)

lemma dl_reach_inv: "dl_reach kc s \<Longrightarrow> dl_inv kc s"
proof (induction rule: dl_reach.induct)
  case (start wake_ok heap fs w px)
  show ?case by (simp add: CDlConn_new_def dl_inv_def accounted_def)
next
  case (add s sd i src isPT xh r s')
  then show ?case by (auto simp: AddJob_def dl_inv_def accounted_def split: option.splits if_splits prod.splits)
next
  case (add_repo s sd i res isPT xh r s')
  then show ?case by (auto simp: AddJob_repo_def dl_inv_def accounted_def split: option.splits if_splits prod.splits)
next
  case (signal_stop s)
  then show ?case by (simp add: SignalStop_def dl_inv_def)
next
  case (others s h f w p)
  then show ?case by (simp add: dl_inv_def)
next
  case (pass s e s')
  then show ?case using work_step_inv by blast
qed

section \<open>Redirects of pipelined requests\<close>

text \<open>The buffer starts with a redirect to a full URL, without a body.\<close>

definition redirect_head :: "dl_env \<Rightarrow> string \<Rightarrow> tHttpUrl option" where
  "redirect_head env buf =
     (case Load False buf (de_after env) header_new of
        LoadFault \<Rightarrow> None
      | LoadRet n h _ \<Rightarrow>
          if buf \<noteq> [] \<and> n > 0 \<and> hdr_type h = ANSWER \<and> st_code (hdr_status h) \<ge> 200 \<and> isRedirect (hdr_status h) \<and> \<not> wants_close h \<and>
             dc_redirmax (de_cfg env) \<noteq> 0 \<and> atoofft_def_val (hdr_h h CONTENT_LENGTH) 0 = 0
          then (case hdr_h h LOCATION of
                  None \<Rightarrow> None
                | Some loc \<Rightarrow>
                    if c_str loc = [] \<or> startsWith (UrlUnescape (c_str loc)) ''/'' then None
                    else (case SetHttpUrl (UrlUnescape (c_str loc)) False of Some (True, u) \<Rightarrow> Some u | _ \<Rightarrow> None))
          else None)"

definition can_redirect :: "CDlConn \<Rightarrow> djob \<Rightarrow> bool" where
  "can_redirect s d \<longleftrightarrow> dj_DlState (kj_job d) = STATE_GETHEADER \<and> dj_nRedirRemaining (kj_job d) > 1 \<and> kd_heap s (kj_item d) \<noteq> None"

lemma dl_loop_pos: "0 < k \<Longrightarrow> dl_step env b j fi fs buf = Leave x \<Longrightarrow> dl_loop k env b j fi fs buf = Some x"
  by (cases k) simp_all

lemma process_redirect:
  assumes r: "redirect_head env (kd_inBuf s) = Some u" and d: "can_redirect s d"
  shows "\<exists>j. process_job env bOnly d s = JRet HINT_TGTCHANGE (d\<lparr>kj_job := j\<rparr>) s \<and> dj_remoteUri j = u \<and> dj_pCurBackend j = None"
proof -
  obtain n h x where l: "Load False (kd_inBuf s) (de_after env) header_new = LoadRet n h x" using r by (auto simp: redirect_head_def split: load_result.splits)
  obtain loc where h: "kd_inBuf s \<noteq> []" "n > 0" "hdr_type h = ANSWER" "\<not> st_code (hdr_status h) < 200" "isRedirect (hdr_status h)" "\<not> wants_close h"
    "dc_redirmax (de_cfg env) \<noteq> 0" "atoofft_def_val (hdr_h h CONTENT_LENGTH) 0 = 0" "hdr_h h LOCATION = Some loc" "c_str loc \<noteq> []"
    "\<not> startsWith (UrlUnescape (c_str loc)) ''/''" "SetHttpUrl (UrlUnescape (c_str loc)) False = Some (True, u)"
    using r l by (auto simp: redirect_head_def split: if_splits option.splits bool.splits)
  obtain fi where fi: "kd_heap s (kj_item d) = Some fi" using d by (auto simp: can_redirect_def)
  define j where "j = (kj_job d)\<lparr>dj_nRedirRemaining := dj_nRedirRemaining (kj_job d) - 1, dj_bBackendMode := False, dj_pCurBackend := None, dj_remoteUri := u\<rparr>"
  have rw: "RewriteSource (hdr_h h LOCATION) (kj_job d) = Some (True, j)" using d h(9-) by (simp add: RewriteSource_def can_redirect_def Let_def j_def)
  have "step_header env bOnly (kj_job d) fi (kd_fs s) (kd_inBuf s) = Leave (DlRet HINT_TGTCHANGE j fi (kd_fs s) (kd_inBuf s))"
    using l h(1-8) rw by (simp add: step_header_def got_head_def)
  then have "dl_step env bOnly (kj_job d) fi (kd_fs s) (kd_inBuf s) = Leave (DlRet HINT_TGTCHANGE j fi (kd_fs s) (kd_inBuf s))"
    using d by (simp add: dl_step_def can_redirect_def)
  then have "ProcessIncomming env bOnly (kj_job d) (Some fi) (kd_fs s) (kd_inBuf s) = Some (DlRet HINT_TGTCHANGE j fi (kd_fs s) (kd_inBuf s))"
    by (simp add: ProcessIncomming_def dl_loop_pos dl_fuel_def)
  moreover have "(kd_heap s)(kj_item d \<mapsto> fi) = kd_heap s" using fi by auto
  ultimately have "process_job env bOnly d s = JRet HINT_TGTCHANGE (d\<lparr>kj_job := j\<rparr>) s" using fi by (simp add: process_job_def)
  then show ?thesis by (auto simp: j_def)
qed

lemma redirect_rest_all:
  assumes "redirect_head env (kd_inBuf s) = Some u" "\<forall>d\<in>set ds. can_redirect s d"
  shows "\<exists>ds1. redirect_rest env ds s = Some (True, ds1, s) \<and> map kj_item ds1 = map kj_item ds \<and>
    (\<forall>d\<in>set ds1. dj_remoteUri (kj_job d) = u \<and> dj_pCurBackend (kj_job d) = None)"
  using assms(2)
proof (induction ds)
  case (Cons d ds)
  obtain j where j: "process_job env True d s = JRet HINT_TGTCHANGE (d\<lparr>kj_job := j\<rparr>) s" "dj_remoteUri j = u" "dj_pCurBackend j = None"
    using process_redirect [OF assms(1), of d True] Cons.prems by auto
  with Cons show ?case by fastforce
qed simp

text \<open>
  C24. A redirect without a body is not taken from the input buffer. The loop that looks for further
  redirects then gives the same response to every job behind the first one, so all requests of the
  pipeline are sent again to the URL of the first file.
\<close>

theorem pipeline_follows_first_redirect:
  assumes "redirect_head env (kd_inBuf s) = Some u" "kd_active_jobs s \<noteq> []" "\<forall>d\<in>set (kd_active_jobs s). can_redirect s d"
  shows "\<exists>s'. proc_data env s = PRet (HINT_TGTCHANGE OR HINT_RECONNECT_NOW) s' \<and>
    map kj_item (kd_active_jobs s') = map kj_item (kd_active_jobs s) \<and>
    (\<forall>d\<in>set (kd_active_jobs s'). dj_remoteUri (kj_job d) = u \<and> dj_pCurBackend (kj_job d) = None)"
proof -
  obtain d ds where a: "kd_active_jobs s = d # ds" using assms(2) by (cases "kd_active_jobs s") auto
  have ne: "kd_inBuf s \<noteq> []" using assms(1) by (auto simp: redirect_head_def split: load_result.splits if_splits)
  obtain j where j: "process_job env False d s = JRet HINT_TGTCHANGE (d\<lparr>kj_job := j\<rparr>) s" "dj_remoteUri j = u" "dj_pCurBackend j = None"
    using process_redirect [OF assms(1), of d False] assms(3) a by auto
  define s1 where "s1 = s\<lparr>kd_active_jobs := d\<lparr>kj_job := j\<rparr> # ds\<rparr>"
  obtain ds1 where r: "redirect_rest env ds s1 = Some (True, ds1, s1)" "map kj_item ds1 = map kj_item ds"
    "\<forall>d\<in>set ds1. dj_remoteUri (kj_job d) = u \<and> dj_pCurBackend (kj_job d) = None"
    using redirect_rest_all [of env s1 u ds] assms(1,3) a by (auto simp: s1_def can_redirect_def)
  have f: "HINT_TGTCHANGE \<noteq> HINT_MORE" "\<not> has HINT_TGTCHANGE HINT_DONE" "has HINT_TGTCHANGE HINT_TGTCHANGE" by (simp_all add: has_def hint_defs)
  have "proc_data env s = target_change env (d\<lparr>kj_job := j\<rparr>) ds s1" using a ne j(1) f by (simp add: proc_data_def Let_def s1_def)
  then show ?thesis using r a j ne by (simp add: target_change_def s1_def Let_def)
qed

definition kc_demo :: dlcon_cfg where
  "kc_demo =
     \<lparr>kc_cf = config_new\<lparr>cf_int := (\<lambda>v. if v = ''pipelinelen'' then 10 else 0)\<rparr>,
      kc_dl = de_cfg dl_env_demo, kc_hooks = (\<lambda>_. None)\<rparr>"

definition dl_demo :: CDlConn where
  "dl_demo = CDlConn_new kc_demo True [0 \<mapsto> fileitem_new ''h/a'', 1 \<mapsto> fileitem_new ''h/b''] Map.empty
     \<lparr>cw_spareConPool = [], cw_hooks = Map.empty, cw_sched = []\<rparr> \<lparr>px_failstate = False, px_last_check = 0\<rparr>"

definition pipe_demo :: CDlConn where
  "pipe_demo = dl_demo
     \<lparr>kd_active_jobs := [\<lparr>kj_job = job_demo\<lparr>dj_remoteUri := url_clear\<lparr>sHost := ''h'', sPath := ''/a''\<rparr>\<rparr>, kj_item = 0\<rparr>,
                         \<lparr>kj_job = job_demo\<lparr>dj_remoteUri := url_clear\<lparr>sHost := ''h'', sPath := ''/b''\<rparr>\<rparr>, kj_item = 1\<rparr>],
      kd_inBuf := ''HTTP/1.1 302 Found'' @ svRN @ ''Location: http://m/x'' @ svRN @ svRN\<rparr>"

theorem pipeline_follows_first_redirect_witness:
  "\<exists>s'. proc_data dl_env_demo pipe_demo = PRet (HINT_TGTCHANGE OR HINT_RECONNECT_NOW) s' \<and>
     map (\<lambda>d. (kj_item d, sHost (dj_remoteUri (kj_job d)), sPath (dj_remoteUri (kj_job d)))) (kd_active_jobs s') = [(0, ''m'', ''/x''), (1, ''m'', ''/x'')]"
proof -
  have "(case redirect_head dl_env_demo (kd_inBuf pipe_demo) of Some u \<Rightarrow> sHost u = ''m'' \<and> sPath u = ''/x'' | None \<Rightarrow> False)"
    by code_simp
  then obtain u where u: "redirect_head dl_env_demo (kd_inBuf pipe_demo) = Some u" "sHost u = ''m''" "sPath u = ''/x''" by (auto split: option.splits)
  have a: "map kj_item (kd_active_jobs pipe_demo) = [0, 1]" "kd_active_jobs pipe_demo \<noteq> []" "\<forall>d\<in>set (kd_active_jobs pipe_demo). can_redirect pipe_demo d"
    by (simp_all add: pipe_demo_def dl_demo_def CDlConn_new_def can_redirect_def job_demo_def tDlJob_init_def dl_env_demo_def)
  obtain s' where s': "proc_data dl_env_demo pipe_demo = PRet (HINT_TGTCHANGE OR HINT_RECONNECT_NOW) s'"
    "map kj_item (kd_active_jobs s') = [0, 1]" "\<forall>d\<in>set (kd_active_jobs s'). dj_remoteUri (kj_job d) = u"
    using pipeline_follows_first_redirect [OF u(1) a(2,3)] a(1) by auto
  then show ?thesis using u by (auto simp: map_eq_Cons_conv)
qed

section \<open>The agent keeps its jobs\<close>

text \<open>
  C8. No job gets lost: at the start of every pass, each accepted job is in exactly one place, waiting,
  in the pipeline or destroyed for a reason; the pipeline is never cleared with jobs in it. When the
  thread ends, only jobs that it has not taken over are left.
\<close>

theorem agent_keeps_jobs:
  assumes "dl_reach kc s"
  shows "mset (kd_added s) = job_items (kd_new_jobs s) + job_items (kd_next_jobs s) + job_items (kd_active_jobs s) + mset (map fst (kd_ended s)) \<and>
    (\<forall>x\<in>set (kd_ended s). snd x \<noteq> Cleared) \<and>
    (\<forall>e s'. work_step kc e s = WkEnd s' \<longrightarrow> mset (kd_added s') = job_items (kd_new_jobs s') + mset (map fst (kd_ended s')))"
proof -
  have i: "dl_inv kc s" by (rule dl_reach_inv [OF assms])
  have st: "mset (kd_added (stop_thread x)) = job_items (kd_new_jobs (stop_thread x)) + mset (map fst (kd_ended (stop_thread x)))" if "accounted x" for x
    using stop_thread_accounted [OF that] by (simp add: accounted_def) (simp add: stop_thread_def fold_end_job)
  have "mset (kd_added s') = job_items (kd_new_jobs s') + mset (map fst (kd_ended s'))" if w: "work_step kc e s = WkEnd s'" for e s'
  proof -
    have "\<exists>x. accounted x \<and> s' = stop_thread x"
    proof (cases "work_head kc e s")
      case (WEnd s1)
      then show ?thesis using w i by (auto simp: work_step_def work_head_def dl_inv_def Let_def
        split: if_splits option.splits wcon.splits intro!: exI [of _ "recycle_con kc (we_now e) s"])
    next
      case (WSelect s1)
      then obtain r s2 where x: "ExchangeData (we_env e) (we_exchange e) s1 = XRet r s2" "work_tail kc e r s2 = WDone s'"
        using w by (auto simp: work_step_def split: xres.splits wtail.splits)
      have "accounted s2" using ExchangeData_ok [OF x(1)] work_head_inv [OF i, of e] WSelect by (auto simp: dl_inv_def intro: xrel_accounted)
      then show ?thesis using x(2) 
        by (auto simp: work_tail_def Let_def split: if_splits prod.splits
          intro!: exI [of _ "close_con (we_now e) (s2\<lparr>kd_bExpectRemoteClosing := (kd_bExpectRemoteClosing s2 \<or> has r HINT_RECONNECT_SOON)\<rparr>)"])
    qed (use w in \<open>auto simp: work_step_def\<close>)
    then show ?thesis using st by blast
  qed
  then show ?thesis using i by (simp add: dl_inv_def accounted_def)
qed

definition url_demo :: tHttpUrl where
  "url_demo = url_clear\<lparr>sHost := ''h'', sPath := ''/a''\<rparr>"

text \<open>A job whose host cannot be reached, and the state after the failed attempt.\<close>

definition added_demo :: CDlConn where
  "added_demo = snd (AddJob kc_demo False 0 url_demo False [] dl_demo)"

definition pass_demo :: wev where
  "pass_demo =
     \<lparr>we_ctrl = 1, we_in_shutdown = False, we_now = 100, we_net = \<lparr>ne_now = 100, ne_connect = Inl ''down'', ne_SSLinit = None\<rparr>,
      we_net_direct = \<lparr>ne_now = 100, ne_connect = Inl ''down'', ne_SSLinit = None\<rparr>, we_tunnel = (None, [], None),
      we_cmd_fails = (\<lambda>_. False), we_readable = False, we_env = dl_env_demo, we_exchange = [], we_in_shutdown_after = False\<rparr>"

definition failed_demo :: CDlConn where
  "failed_demo = (case work_head kc_demo pass_demo added_demo of WNext s \<Rightarrow> s | _ \<Rightarrow> added_demo)"

lemmas dl_demo_defs = added_demo_def AddJob_def dl_demo_def CDlConn_new_def kc_demo_def config_new_def dl_env_demo_def url_demo_def tDlJob_url_def
  tDlJob_init_def pass_demo_def fileitem_new_def spattr_default_def url_clear_def

lemma failed_demo_step:
  "work_head kc_demo pass_demo added_demo = WNext failed_demo"
  "kd_added failed_demo = [0]" "map kj_item (kd_next_jobs failed_demo) = [0]" "kd_active_jobs failed_demo = []"
proof -
  have "\<exists>s. work_head kc_demo pass_demo added_demo = WNext s \<and> kd_added s = [0] \<and> map kj_item (kd_next_jobs s) = [0] \<and> kd_active_jobs s = []"
    unfolding work_head_def
    by (simp add: dl_demo_defs take_new_jobs_def connect_phase_def clear_active_def SetupJobConfig_def GetPeerHost_def open_con_def prefProxy_def
      GetProxyInfo_def doconnect_def CreateConnected_def fresh_connection_def tcpconnect_new_def BlacklistMirror_def Let_def)
  then show "work_head kc_demo pass_demo added_demo = WNext failed_demo"
    "kd_added failed_demo = [0]" "map kj_item (kd_next_jobs failed_demo) = [0]" "kd_active_jobs failed_demo = []" by (auto simp: failed_demo_def)
qed

lemma demo_reached: "dl_reach kc_demo added_demo" "dl_reach kc_demo failed_demo"
proof -
  show a: "dl_reach kc_demo added_demo"
    unfolding added_demo_def dl_demo_def by (intro dl_reach.add [OF dl_reach.start surjective_pairing])
  show "dl_reach kc_demo failed_demo" by (rule dl_reach.pass [OF a, of pass_demo]) (simp add: work_step_def failed_demo_step)
qed

theorem agent_keeps_jobs_witness:
  "job_items (kd_new_jobs failed_demo) + mset (map fst (kd_ended failed_demo)) = {#}"
  using agent_keeps_jobs [OF demo_reached(2)] failed_demo_step by (simp add: job_items_def)



text \<open>
  C9. A row of passes that fail to connect ends: each one uses up a mirror that is not blacklisted yet
  or a spare connection of the pool.
\<close>

theorem connecting_ends:
  assumes "dl_reach kc s" "failing_passes kc es s"
  shows "length es \<le> attempts_left s"
proof -
  have "dl_inv kc s" by (rule dl_reach_inv [OF assms(1)])
  then show ?thesis using assms(2)
  proof (induction es arbitrary: s)
    case (Cons e es)
    then obtain s1 where s1: "work_head kc e s = WNext s1" "failing_passes kc es s1" by (auto split: whead.splits)
    have "dl_inv kc s1" using work_head_inv [OF Cons.prems(1), of e] s1(1) by simp
    from Cons.IH [OF this s1(2)] work_head_progress [OF s1(1) Cons.prems(1)] show ?case by simp
  qed simp
qed

theorem connecting_ends_witness:
  "1 \<le> attempts_left added_demo"
  using connecting_ends [OF demo_reached(1), of "[pass_demo]"] by (simp add: failed_demo_step)

end
