(* ===== verification/Spec2Isabelle.thy ===== *)
theory Spec2Isabelle
  imports HttpUrl AcBuf Header CsMapping Conn DlCon
begin

text \<open>
  \<^bold>\<open>Verification of apt-cacher-ng\<close>

  apt-cacher-ng is a caching proxy for package repositories. A client request names a file; the
  server maps it to a path in the cache and asks the \<^emph>\<open>registry\<close> for the \<^emph>\<open>file item\<close> of this path.
  If the file is not complete, a \<^emph>\<open>download job\<close> fetches it from a mirror: it writes an HTTP
  request, parses the response head, and hands the body to the file item, which writes it to disk
  while the clients read along. Heads are stored beside the files and describe the item when it is
  set up again. All of this rests on parsers and printers for URLs, dates, headers, checksums, and
  on string and buffer helpers.

  \<^bold>\<open>Theories and sources\<close> (paths under \<open>src/src/\<close>)

  \<^descr> \<open>Prelude\<close>: C and C++ string searches, \<open>strtoll\<close>, decimal printing, and the facts about them
  that the other theories share.

  \<^descr> \<open>Strings\<close>: \<open>astrop.h\<close>, \<open>astrop.cc\<close>. Trimming, the splitting iterators, comparison.
  Splitting loses nothing.

  \<^descr> \<open>Meta\<close>: \<open>meta.h\<close>, \<open>meta.cc\<close>. Path and token functions, URL and Base64 encoding, hexadecimal
  conversion, number formatting. The encodings are inverted by their decoders.

  \<^descr> \<open>HttpUrl\<close>: \<open>ahttpurl.h\<close>, \<open>ahttpurl.cc\<close>, \<open>portutils.h\<close>. Parser and printer of URLs, host keys.

  \<^descr> \<open>AcBuf\<close>: \<open>acbuf.h\<close>, \<open>acbuf.cc\<close>. The byte buffer, with the locale \<open>byte_queue\<close> as its interface.

  \<^descr> \<open>HttpDate\<close>: \<open>httpdate.h\<close>, \<open>httpdate.cc\<close>. Dates, remote status, the head files.

  \<^descr> \<open>Header\<close>: \<open>header.h\<close>, \<open>header.cc\<close>. HTTP heads: loading, printing, custom fields.

  \<^descr> \<open>CsMapping\<close>: \<open>csmapping.h\<close>, \<open>csmapping.cc\<close>. Checksum fingerprints as map keys, with the locale
  \<open>map_key\<close> for the order that \<open>std::map\<close> needs.

  \<^descr> \<open>FileItem\<close>: \<open>fileitem.h\<close>, \<open>fileitem.cc\<close>. The record \<open>fileitem\<close>, its operations over a file
  system (a map from paths to contents), and the step relation \<open>fi_step\<close> with the invariant
  \<open>fi_inv\<close>: what an item announces as available is on disk.

  \<^descr> \<open>Registry\<close>: \<open>acregistry.h\<close>, \<open>acregistry.cc\<close>. Items in an explicit store, the map of registered
  paths, holders and the queue of prolonged items; the step relation \<open>reg_step\<close> with the
  invariant \<open>reg_inv\<close> (user counts are the numbers of holders); the locale \<open>user_counted_map\<close> for
  what clients of the registry rely on.

  \<^descr> \<open>DlJob\<close>: \<open>struct tDlJob\<close> of \<open>dlcon.cc\<close>. Choice of the source, redirects, the request, the
  response head, plain and chunked bodies. The locale \<open>byte_sink\<close> is its view of the storage and
  is interpreted on the operations of \<open>FileItem\<close>, so that the theorem about chunked bodies speaks
  about the file in the cache.

  \<^descr> \<open>Job\<close>: \<open>job.h\<close> and the sending half of \<open>job.cc\<close>. The record \<open>job\<close>, ranges, response heads, and
  the states of \<open>job::SendData\<close>, driven by a list of what the operating system and the downloader
  did between the calls. The theorems follow a response to its end: the bytes on the wire are the
  announced part of the file, or well-formed chunks of it.

  \<^descr> \<open>LocalFiles\<close>: generated pages, directory listings and local files of \<open>job.cc\<close>.

  \<^descr> \<open>Request\<close>: \<open>job::Prepare\<close> and the pass-through items of \<open>job.cc\<close> (with \<open>evbuffer_dumpall\<close> of
  \<open>fileio.cc\<close>). A request passes all guards before a download starts and keeps the invariant of the
  registry; the queue of a pass-through item is bounded and loses nothing.

  \<^descr> \<open>CfgReader\<close>: lines of plain files (\<open>filereader.cc\<close>), \<open>tCfgIter\<close>, and the helpers of \<open>acfg.cc\<close>
  for option lines and file lists.

  \<^descr> \<open>RemoteDb\<close>: \<open>remotedb.cc\<close>. Remapping rules, their files and hooks as a record \<open>remotedb\<close>; the
  relation \<open>db_reach\<close> with its invariant; the lookup finds the longest prefix.

  \<^descr> \<open>Config\<close>: \<open>acfg.h\<close>, \<open>acfg.cc\<close>. The tables of options, \<open>SetOption\<close>, \<open>PostProcConfig\<close>, the
  classification of paths, passwords, proxy state, MIME types and the dump.

  \<^descr> \<open>Maint\<close>: \<open>maintenance.cc\<close>. Choice of a maintenance job, its authorization, chunked pages.

  \<^descr> \<open>Conn\<close>: \<open>conn.h\<close>, \<open>conn.cc\<close>. A client connection with its queue of jobs, \<open>conn_step\<close> for one pass
  of its loop, and the tunnels of CONNECT requests. Responses leave in the order of the requests, all
  items are released, what was sent is logged, and a tunnel passes bytes on unchanged.

  \<^descr> \<open>ConPool\<close>: \<open>tcpconnect.h\<close>, \<open>tcpconnect.cc\<close>. Outgoing connections, the pool of idle ones and the
  counters of the hooks, over the step relation \<open>con_step\<close>.

  \<^descr> \<open>DlCon\<close>: \<open>class CDlConn\<close> of \<open>dlcon.cc\<close>. The download agent: its queues of jobs, the exchange of
  data, reconnection, proxies and the blacklist. \<open>work_step\<close> is one pass of its loop and \<open>dl_reach\<close> its
  runs, interleaved with the calls of other threads. No job gets lost, the pipeline is bounded, and
  failing connections end.

  \<^bold>\<open>Conventions.\<close> A struct is a record, an enum a datatype. Operations take the state and return
  it; results of system calls and the clock are arguments. Where C++ leaves the behaviour undefined,
  the result is \<open>None\<close> or a constructor of its own (\<open>LoadFault\<close>, \<open>AddUndefined\<close>, \<open>DlFault\<close>).
  File sizes (\<open>off_t\<close>) and times are integers; where overflow is within reach, numbers are words
  (ports, checksums, reference and transfer counts, result flags) or the reduction is written out.
  Functions not under \<open>src/\<close> (\<open>timegm\<close>, hash functions) are parameters.

  \<^bold>\<open>Loops.\<close> Loops are structural recursions or have a measure. The loop of \<open>ProcessIncomming\<close> has
  fuel: three rounds per byte of input and three more; \<open>ProcessIncomming_returns\<close> shows that this
  is always enough. The write loop of \<open>DlAddData\<close> consumes a list of results of \<open>write\<close> calls; when
  the list ends, the call is blocked.

  The loops over sockets (\<open>Conn\<close>, \<open>DlCon\<close>) consume a list of what the operating system reports; a
  pass that needs more than the list gives is waiting.

  \<^bold>\<open>Not modelled.\<close> Sockets, TLS, name resolution, threads and the event loop (\<open>caddrinfo\<close>,
  \<open>aconnect\<close>, \<open>atcpstream\<close>, \<open>sockio\<close>, \<open>conserver\<close>, \<open>tpool\<close>, \<open>evabase\<close>, \<open>ebrunner\<close>,
  \<open>cleaner\<close>); file access, decompression and logging (\<open>fileio\<close>, \<open>dirwalk\<close>, \<open>aclogger\<close>); the
  programs (\<open>apt-cacher.cc\<close>, \<open>acngtool.cc\<close>) and the FUSE client; regular expressions, which are a
  parameter of \<open>Config\<close> and \<open>Request\<close>. The maintenance jobs (\<open>cacheman\<close>, \<open>expiration\<close>,
  \<open>pkgimport\<close>, \<open>mirror\<close>) scan the cache and the index files and have logic of their own, which is
  not modelled.
\<close>

section \<open>Server and downloader together\<close>

lemma good_chunks_of:
  assumes "\<forall>d \<in> set ds. d \<noteq> []" "length (concat ds) < 2 ^ 32"
  shows "good_chunks ds"
proof -
  have "length d \<le> length (concat ds)" if "d \<in> set ds" for d
    using that by (induction ds) auto
  with assms show ?thesis by (fastforce simp: good_chunks_def)
qed



end
